(* ===== verification/Manux_Prelude.thy ===== *)
theory Manux_Prelude
  imports Main "HOL-Library.Word" "HOL-Library.State_Monad"
begin

text \<open>
  Shared vocabulary of the development: the machine integers of the C sources, the state monad
  the emulator is written in together with its invariant calculus, and the generic facts on
  words and lists that the component theories use.
\<close>

unbundle bit_operations_syntax

section \<open>Machine integers\<close>

type_synonym u8 = "8 word"
type_synonym u16 = "16 word"
type_synonym u32 = "32 word"
type_synonym u64 = "64 word"

named_theorems pres_intro \<open>preservation rules of the invariant calculus\<close>
named_theorems comm_intro \<open>commutation rules of the frame calculus\<close>
named_theorems run_simps \<open>equations that run a monadic program on a state\<close>

text \<open>A bit test against a single-bit mask is the bit itself.\<close>

lemma and_mask_eq_0_iff:
  fixes x :: "'a::len word"
  assumes "n < LENGTH('a)"
  shows "(x AND push_bit n 1 = 0) \<longleftrightarrow> \<not> bit x n"
proof -
  have "bit (x AND push_bit n 1) k \<longleftrightarrow> k = n \<and> bit x n" for k
    using assms by (auto simp: bit_and_iff bit_push_bit_iff bit_1_iff bit_exp_iff)
  then show ?thesis
    by (metis bit_0_eq bit_eq_iff bot_apply bot_bool_def)
qed

lemma u8_mask_bits:
  fixes x :: u8
  shows "(x AND 1 = 0) = (\<not> bit x 0)" and "(x AND 2 = 0) = (\<not> bit x 1)"
    and "(x AND 4 = 0) = (\<not> bit x 2)" and "(x AND 8 = 0) = (\<not> bit x 3)"
    and "(x AND 16 = 0) = (\<not> bit x 4)" and "(x AND 32 = 0) = (\<not> bit x 5)"
    and "(x AND 64 = 0) = (\<not> bit x 6)" and "(x AND 128 = 0) = (\<not> bit x 7)"
  using and_mask_eq_0_iff [of 0 x] and_mask_eq_0_iff [of 1 x] and_mask_eq_0_iff [of 2 x]
    and_mask_eq_0_iff [of 3 x] and_mask_eq_0_iff [of 4 x] and_mask_eq_0_iff [of 5 x]
    and_mask_eq_0_iff [of 6 x] and_mask_eq_0_iff [of 7 x]
  by (simp_all add: push_bit_eq_mult)

text \<open>The byte masks as bit sets; the simplifier brings word literals to integers first.\<close>

lemma bit_255_int [simp]: "bit (255 :: int) n \<longleftrightarrow> n < 8"
proof -
  have "(255 :: int) = mask 8" by (simp add: mask_eq_exp_minus_1)
  then show ?thesis by (simp only: bit_mask_iff possible_bit_def) simp
qed

lemma bit_65280_int [simp]: "bit (65280 :: int) n \<longleftrightarrow> 8 \<le> n \<and> n < 16"
proof -
  have "(65280 :: int) = push_bit 8 255" by (simp add: push_bit_eq_mult)
  then show ?thesis by (auto simp only: bit_push_bit_iff bit_255_int) auto
qed

lemma bit_128_int [simp]: "bit (128 :: int) n \<longleftrightarrow> n = 7"
  using bit_exp_iff [where 'a = int, of 7 n] by simp

section \<open>Carries, borrows and signed overflow\<close>

text \<open>
  The bit at position \<open>k\<close> of a sum or difference differs from the exclusive or of the operands'
  bits exactly when there is a carry or borrow into that position; signed overflow is read off
  the sign bits.
\<close>

lemma bit_word_unat: "bit (x :: 'a::len word) n \<longleftrightarrow> odd (unat x div 2 ^ n)"
  by (simp add: bit_unsigned_iff flip: bit_iff_odd)

lemma odd_div_add_carry:
  fixes A B c M :: nat
  assumes "c \<le> 1" and "0 < M"
  shows "odd ((A + B + c) div M) \<longleftrightarrow>
    (odd (A div M) \<noteq> odd (B div M)) \<noteq> (M \<le> A mod M + B mod M + c)"
proof -
  let ?r = "A mod M + B mod M + c"
  have "A mod M < M" "B mod M < M" using assms by simp_all
  then have r2: "?r < M * 2" using assms by linarith
  have "A + B + c = M * (A div M + B div M) + ?r"
    by (metis (no_types, lifting) ab_semigroup_add_class.add_ac(1) add.left_commute
        distrib_left mult_div_mod_eq)
  then have "(A + B + c) div M = A div M + B div M + ?r div M"
    using assms(2) by (simp only: add.assoc div_mult_self4)
  moreover have "?r div M = (if M \<le> ?r then 1 else 0)"
    using r2 assms(2) by (auto intro: div_nat_eqI simp: div_less)
  ultimately show ?thesis by auto
qed

lemma bit_word_add_carry:
  fixes a b c :: "'a::len word"
  assumes "k < LENGTH('a)" and "unat c \<le> 1"
  shows "bit (a + b + c) k \<longleftrightarrow>
    (bit a k \<noteq> bit b k) \<noteq> (2 ^ k \<le> unat a mod 2 ^ k + unat b mod 2 ^ k + unat c)"
proof -
  have "unat (a + b + c) = take_bit LENGTH('a) (unat a + unat b + unat c)"
    by (simp add: unat_word_ariths take_bit_eq_mod mod_simps)
  then have "bit (a + b + c) k \<longleftrightarrow> bit (unat a + unat b + unat c) k"
    using assms(1)
    by (simp add: bit_word_unat bit_take_bit_iff flip: bit_iff_odd [where 'a = nat])
  then show ?thesis
    using odd_div_add_carry [of "unat c" "2 ^ k" "unat a" "unat b"] assms(2)
    by (simp add: bit_iff_odd [where 'a = nat] bit_word_unat [of a] bit_word_unat [of b])
qed

lemma unat_not_mod:
  fixes b :: "'a::len word"
  assumes "k \<le> LENGTH('a)"
  shows "unat (NOT b) mod 2 ^ k = 2 ^ k - 1 - unat b mod 2 ^ k"
proof -
  have "int (unat (NOT b) mod 2 ^ k) = take_bit k (uint (NOT b))"
    by (simp add: take_bit_eq_mod zmod_int)
  also have "\<dots> = mask k - take_bit k (uint b)"
    using assms by (simp add: unsigned_not_eq min_def flip: take_bit_not_eq_mask_diff)
  also have "\<dots> = int (2 ^ k - 1 - unat b mod 2 ^ k)"
    by (simp add: mask_eq_exp_minus_1 take_bit_eq_mod of_nat_diff Suc_leI zmod_int)
  finally show ?thesis by (simp only: of_nat_eq_iff)
qed

lemma bit_word_sub_borrow:
  fixes a b c :: "'a::len word"
  assumes "k < LENGTH('a)" and "unat c \<le> 1"
  shows "bit (a - b - c) k \<longleftrightarrow>
    (bit a k \<noteq> bit b k) \<noteq> (unat a mod 2 ^ k < unat b mod 2 ^ k + unat c)"
proof -
  have c: "c = 0 \<or> c = 1" using assms(2)
    by (metis One_nat_def le_SucE le_zero_eq unat_1 unat_eq_zero word_unat_eq_iff)
  have eq: "a - b - c = a + NOT b + (1 - c)"
    by (simp add: not_eq_complement)
  have u: "unat (1 - c) = 1 - unat c" using c by auto
  have "unat b mod 2 ^ k < 2 ^ k" by simp
  then have "2 ^ k \<le> unat a mod 2 ^ k + (2 ^ k - 1 - unat b mod 2 ^ k) + (1 - unat c) \<longleftrightarrow>
      \<not> unat a mod 2 ^ k < unat b mod 2 ^ k + unat c"
    using assms(2) by linarith
  with bit_word_add_carry [OF assms(1), of "1 - c" a "NOT b"] assms(1) show ?thesis
    unfolding eq by (auto simp only: u unat_not_mod [OF less_imp_le] bit_not_iff) auto
qed


lemma sint_low_bits:
  fixes x :: "'a::len word"
  shows "sint x = int (unat x mod 2 ^ (LENGTH('a) - 1))
    - (if bit x (LENGTH('a) - 1) then 2 ^ (LENGTH('a) - 1) else 0)"
proof -
  let ?k = "LENGTH('a) - 1"
  have "sint x = take_bit (Suc ?k) (uint x) - 2 ^ Suc ?k * of_bool (bit (uint x) ?k)"
    by (simp only: sint_uint signed_take_bit_eq_take_bit_minus One_nat_def)
  also have "\<dots> = take_bit ?k (uint x) - 2 ^ ?k * of_bool (bit (uint x) ?k)"
    by (simp only: take_bit_Suc_from_most power_Suc)
  finally show ?thesis
    by (simp add: take_bit_eq_mod zmod_int bit_uint_iff)
qed

lemma signed_add_overflow:
  fixes a b c :: "'a::len word"
  defines "k \<equiv> LENGTH('a) - 1"
  assumes "unat c \<le> 1"
  shows "(bit a k = bit b k \<and> bit a k \<noteq> bit (a + b + c) k) \<longleftrightarrow>
    \<not> (- (2 ^ k) \<le> sint a + sint b + int (unat c) \<and> sint a + sint b + int (unat c) < 2 ^ k)"
proof -
  let ?M = "2 ^ k :: nat"
  have "k < LENGTH('a)" by (simp add: k_def)
  note carry = bit_word_add_carry [OF this assms(2), of a b]
  have "unat a mod ?M < ?M" "unat b mod ?M < ?M" by simp_all
  moreover have "(2 :: int) ^ k = int ?M" by simp
  ultimately show ?thesis
    using assms(2) unfolding carry sint_low_bits [of a, folded k_def] sint_low_bits [of b, folded k_def]
    by (cases "bit a k"; cases "bit b k") (simp_all only: simp_thms if_True if_False, linarith+)
qed

lemma signed_sub_overflow:
  fixes a b c :: "'a::len word"
  defines "k \<equiv> LENGTH('a) - 1"
  assumes "unat c \<le> 1"
  shows "(bit a k \<noteq> bit b k \<and> bit a k \<noteq> bit (a - b - c) k) \<longleftrightarrow>
    \<not> (- (2 ^ k) \<le> sint a - sint b - int (unat c) \<and> sint a - sint b - int (unat c) < 2 ^ k)"
proof -
  let ?M = "2 ^ k :: nat"
  have "k < LENGTH('a)" by (simp add: k_def)
  note borrow = bit_word_sub_borrow [OF this assms(2), of a b]
  have "unat a mod ?M < ?M" "unat b mod ?M < ?M" by simp_all
  moreover have "(2 :: int) ^ k = int ?M" by simp
  ultimately show ?thesis
    using assms(2) unfolding borrow sint_low_bits [of a, folded k_def] sint_low_bits [of b, folded k_def]
    by (cases "bit a k"; cases "bit b k") (simp_all only: simp_thms if_True if_False, linarith+)
qed

lemma u16_mask_bits:
  fixes x :: u16
  shows "(x AND 0x100 = 0) = (\<not> bit x 8)" and "(x AND 0x1000 = 0) = (\<not> bit x 12)"
    and "(x AND 0x8000 = 0) = (\<not> bit x 15)"
  using and_mask_eq_0_iff [of 8 x] and_mask_eq_0_iff [of 12 x] and_mask_eq_0_iff [of 15 x]
  by (simp_all add: push_bit_eq_mult)

lemma u32_mask_bits: "((x::u32) AND 0x10000 = 0) = (\<not> bit x 16)"
  using and_mask_eq_0_iff [of 16 x] by (simp add: push_bit_eq_mult)

lemma sint_le_unat: "sint (x :: 'a::len word) \<le> int (unat x)"
proof -
  have "int (unat x mod 2 ^ (LENGTH('a) - 1)) \<le> int (unat x)" by (simp only: of_nat_le_iff mod_less_eq_dividend)
  moreover have "(0 :: int) < 2 ^ (LENGTH('a) - 1)" by simp
  ultimately show ?thesis unfolding sint_low_bits by (simp only: split: if_split) linarith
qed

lemma sint_neg_iff: "sint (x :: 'a::len word) < 0 \<longleftrightarrow> bit x (LENGTH('a) - 1)"
proof -
  have "int (unat x mod 2 ^ (LENGTH('a) - 1)) < 2 ^ (LENGTH('a) - 1)"
    by (metis mod_less_divisor of_nat_less_numeral_power_cancel_iff zero_less_numeral zero_less_power)
  then show ?thesis by (simp add: sint_low_bits)
qed

lemma sint_small: "unat (a :: u16) < 0x8000 \<Longrightarrow> sint a = int (unat a)"
proof -
  assume a: "unat a < 0x8000"
  then have "\<not> bit a 15" by (simp add: bit_word_unat)
  then show ?thesis using a sint_low_bits [of a] by simp
qed

lemma sint_diff: "- 0x8000 \<le> sint a - sint b \<Longrightarrow> sint a - sint b < 0x8000 \<Longrightarrow> sint (a - b :: u16) = sint a - sint b"
  by (simp add: sint_word_ariths signed_take_bit_int_eq_self)

lemma sint_u16_range: "- 0x8000 \<le> sint (a :: u16)" "sint (a :: u16) < 0x8000"
  using sint_ge [of a] sint_lt [of a] by simp_all

lemma unat_ucast_up:
  "LENGTH('a::len) \<le> LENGTH('b::len) \<Longrightarrow> unat (ucast (x :: 'a word) :: 'b word) = unat x"
  by (simp add: unsigned_ucast_eq take_bit_nat_eq_self unsigned_less
      order_less_le_trans [OF unsigned_less])

lemma carry_up:
  fixes a b c :: "'a::len word"
  assumes "unat c \<le> 1" and "LENGTH('a) < LENGTH('b::len)"
  shows "bit (ucast a + ucast b + ucast c :: 'b word) LENGTH('a) \<longleftrightarrow>
      2 ^ LENGTH('a) \<le> unat a + unat b + unat c"
  using bit_word_add_carry [of "LENGTH('a)" "ucast c :: 'b word" "ucast a" "ucast b"] assms
    unsigned_less [of a] unsigned_less [of b]
  by (simp add: bit_ucast_iff unat_ucast_up)

lemma borrow_up:
  fixes a b c :: "'a::len word"
  assumes "unat c \<le> 1" and "LENGTH('a) < LENGTH('b::len)"
  shows "bit (ucast a - ucast b - ucast c :: 'b word) LENGTH('a) \<longleftrightarrow>
      unat a < unat b + unat c"
  using bit_word_sub_borrow [of "LENGTH('a)" "ucast c :: 'b word" "ucast a" "ucast b"] assms
    unsigned_less [of a] unsigned_less [of b]
  by (simp add: bit_ucast_iff unat_ucast_up)

lemma take_bit_take_bit_le: "a \<le> b \<Longrightarrow> take_bit a (take_bit b k) = take_bit a (k :: int)"
  by simp

lemma ucast_down_arith:
  fixes x y :: "'b::len word"
  assumes "LENGTH('a::len) \<le> LENGTH('b)"
  shows "(ucast (x + y) :: 'a word) = ucast x + ucast y"
    and "(ucast (x - y) :: 'a word) = ucast x - ucast y"
  using assms
  by (simp_all add: unsigned_ucast_eq word_uint_eq_iff uint_word_ariths take_bit_take_bit_le mod_simps
      flip: take_bit_eq_mod)
    (simp_all add: take_bit_eq_mod mod_simps)

lemma bit_times_2: "bit (x * 2 :: 'a::len word) n \<longleftrightarrow> n < LENGTH('a) \<and> n \<noteq> 0 \<and> bit x (n - 1)"
  using bit_push_bit_iff [of 1 x n] by (auto simp: Suc_le_eq possible_bit_word dest: bit_imp_le_length)

lemma ucast_down_up:
  "LENGTH('a::len) \<le> LENGTH('b::len) \<Longrightarrow> (ucast (ucast (a :: 'a word) :: 'b word) :: 'a word) = a"
  by (rule bit_word_eqI) (auto simp: bit_ucast_iff)

lemma ucast_ucast_u8 [simp]: "(ucast (ucast (a :: u8) :: u16) :: u8) = a"
  by (simp add: ucast_down_up)

lemma ucast_ucast_u16 [simp]: "(ucast (ucast (a :: u16) :: u32) :: u16) = a"
  by (simp add: ucast_down_up)

lemma unat_u16_less: "unat (a :: u16) < 0x10000"
  using unsigned_less [of a] by simp

lemma unat_suc_below: "(b :: u16) < n \<Longrightarrow> unat (b + 1) = Suc (unat b)"
  using unat_u16_less [of n] by (simp add: unat_word_ariths word_less_nat_alt)

lemma of_nat_u16_eq:
  "i < 0x10000 \<Longrightarrow> j < 0x10000 \<Longrightarrow> (of_nat i :: u16) = of_nat j \<longleftrightarrow> i = j"
  by (simp add: word_unat_eq_iff unat_of_nat)

lemma of_nat_u16_eq_pos:
  assumes "0 < i" "i \<le> 0x10000" "0 < j" "j \<le> 0x10000"
  shows "(of_nat i :: u16) = of_nat j \<longleftrightarrow> i = j"
  using assms of_nat_u16_eq [of "i - 1" "j - 1"] by (auto simp: of_nat_diff)

section \<open>Bytes and words\<close>

text \<open>\<^verbatim>\<open>(hi << 8) | lo\<close>, and the macros \<open>GET_HIGH\<close> and \<open>GET_LOW\<close>.\<close>

definition mk16 :: "u8 \<Rightarrow> u8 \<Rightarrow> u16" where
  "mk16 hi lo = push_bit 8 (ucast hi) OR ucast lo"

definition GET_HIGH :: "u16 \<Rightarrow> u8" where
  "GET_HIGH v = ucast (drop_bit 8 v AND 0xFF)"

definition GET_LOW :: "u16 \<Rightarrow> u8" where
  "GET_LOW v = ucast (v AND 0xFF)"

lemma bit_mk16: "bit (mk16 hi lo) n \<longleftrightarrow> (if n < 8 then bit lo n else n < 16 \<and> bit hi (n - 8))"
  by (auto simp: mk16_def bit_simps not_less dest: bit_imp_le_length)

lemma bit_GET_HIGH: "bit (GET_HIGH v) n \<longleftrightarrow> n < 8 \<and> bit v (n + 8)"
  by (auto simp: GET_HIGH_def bit_simps add.commute)

lemma bit_GET_LOW: "bit (GET_LOW v) n \<longleftrightarrow> n < 8 \<and> bit v n"
  by (auto simp: GET_LOW_def bit_simps)

lemma GET_HIGH_mk16 [simp]: "GET_HIGH (mk16 hi lo) = hi"
  by (rule bit_eqI) (auto simp: bit_GET_HIGH bit_mk16 dest: bit_imp_le_length)

lemma GET_LOW_mk16 [simp]: "GET_LOW (mk16 hi lo) = lo"
  by (rule bit_eqI) (auto simp: bit_GET_LOW bit_mk16 dest: bit_imp_le_length)

lemma mk16_GET [simp]: "mk16 (GET_HIGH v) (GET_LOW v) = v"
  by (rule bit_eqI) (auto simp: bit_GET_HIGH bit_GET_LOW bit_mk16 dest: bit_imp_le_length)

lemma mk16_inject [simp]: "mk16 a b = mk16 c d \<longleftrightarrow> a = c \<and> b = d"
  by (metis GET_HIGH_mk16 GET_LOW_mk16)

section \<open>Overwriting part of a byte list\<close>

text \<open>Overwriting a byte list from a position, zero-filled up to it.\<close>

definition patch :: "nat \<Rightarrow> u8 list \<Rightarrow> u8 list \<Rightarrow> u8 list" where
  "patch off bs img =
     take off (img @ replicate (off - length img) 0) @ bs @ drop (off + length bs) img"

lemma length_patch: "length (patch off bs img) = max (off + length bs) (length img)"
  by (auto simp: patch_def)

lemma patch_Nil: "off \<le> length img \<Longrightarrow> patch off [] img = img"
  by (simp add: patch_def)

lemma patch_append: "patch (off + length xs) ys (patch off xs img) = patch off (xs @ ys) img"
  by (auto simp: patch_def min_def add_ac)

lemma take_drop_patch: "take (length bs) (drop off (patch off bs img)) = bs"
  by (simp add: patch_def min_def)

section \<open>The state monad and its invariant calculus\<close>

abbreviation ret :: "'a \<Rightarrow> ('s, 'a) state" where
  "ret \<equiv> State_Monad.return"

definition gets :: "('s \<Rightarrow> 'a) \<Rightarrow> ('s, 'a) state" where
  "gets f = State (\<lambda>s. (f s, s))"

definition modify :: "('s \<Rightarrow> 's) \<Rightarrow> ('s, unit) state" where
  "modify f = State (\<lambda>s. ((), f s))"

definition exec :: "('s, 'a) state \<Rightarrow> 's \<Rightarrow> 's" where
  "exec f s = snd (run_state f s)"

definition eval :: "('s, 'a) state \<Rightarrow> 's \<Rightarrow> 'a" where
  "eval f s = fst (run_state f s)"

lemma run_gets [simp, run_simps]: "run_state (gets f) s = (f s, s)"
  by (simp add: gets_def)

lemma run_modify [simp, run_simps]: "run_state (modify f) s = ((), f s)"
  by (simp add: modify_def)

lemma run_eval_exec: "run_state f s = (eval f s, exec f s)"
  by (simp add: eval_def exec_def)

lemma exec_simps [simp]:
  "exec (State_Monad.bind f g) s = exec (g (eval f s)) (exec f s)"
  "exec (ret x) s = s" "exec (gets h) s = s" "exec (modify k) s = k s"
  by (simp_all add: exec_def eval_def split: prod.split)

lemma eval_simps [simp]:
  "eval (State_Monad.bind f g) s = eval (g (eval f s)) (exec f s)"
  "eval (ret x) s = x" "eval (gets h) s = h s" "eval (modify k) s = ()"
  by (simp_all add: exec_def eval_def split: prod.split)

lemma exec_if: "exec (if b then f else g) s = (if b then exec f s else exec g s)" by simp
lemma eval_if: "eval (if b then f else g) s = (if b then eval f s else eval g s)" by simp

definition preserves :: "('s \<Rightarrow> bool) \<Rightarrow> ('s, 'a) state \<Rightarrow> bool" where
  "preserves P f \<longleftrightarrow> (\<forall>s. P s \<longrightarrow> P (exec f s))"

lemma preservesD: "preserves P f \<Longrightarrow> P s \<Longrightarrow> P (exec f s)"
  by (simp add: preserves_def)

lemma preserves_return [pres_intro]: "preserves P (ret x)"
  by (simp add: preserves_def exec_def)

lemma preserves_gets [pres_intro]: "preserves P (gets f)"
  by (simp add: preserves_def exec_def)

lemma preserves_modify: "(\<And>s. P s \<Longrightarrow> P (f s)) \<Longrightarrow> preserves P (modify f)"
  by (simp add: preserves_def exec_def)

lemma preserves_bind [pres_intro]:
  assumes "preserves P f" and "\<And>x. preserves P (g x)"
  shows "preserves P (State_Monad.bind f g)"
  using assms by (auto simp: preserves_def exec_def split: prod.splits)

lemma preserves_if [pres_intro]:
  "(b \<Longrightarrow> preserves P f) \<Longrightarrow> (\<not> b \<Longrightarrow> preserves P g) \<Longrightarrow> preserves P (if b then f else g)"
  by simp

text \<open>
  \<open>commutes U f\<close>: the program neither reads nor writes what \<open>U\<close> changes; running it after
  \<open>U\<close> gives the same value and the same state up to \<open>U\<close>.
\<close>

definition commutes :: "('s \<Rightarrow> 's) \<Rightarrow> ('s, 'a) state \<Rightarrow> bool" where
  "commutes U f \<longleftrightarrow> (\<forall>s. run_state f (U s) = (eval f s, U (exec f s)))"

lemma commutesD: "commutes U f \<Longrightarrow> run_state f (U s) = (eval f s, U (exec f s))"
  by (simp add: commutes_def)

lemma commutes_return [comm_intro]: "commutes U (ret x)"
  by (simp add: commutes_def eval_def exec_def)

lemma commutes_gets: "(\<And>s. f (U s) = f s) \<Longrightarrow> commutes U (gets f)"
  by (simp add: commutes_def eval_def exec_def)

lemma commutes_modify: "(\<And>s. f (U s) = U (f s)) \<Longrightarrow> commutes U (modify f)"
  by (simp add: commutes_def eval_def exec_def)

lemma commutes_bind [comm_intro]:
  assumes "commutes U f" and "\<And>x. commutes U (g x)"
  shows "commutes U (State_Monad.bind f g)"
  using assms by (auto simp: commutes_def eval_def exec_def split: prod.splits)

lemma commutes_if [comm_intro]:
  "(b \<Longrightarrow> commutes U f) \<Longrightarrow> (\<not> b \<Longrightarrow> commutes U g) \<Longrightarrow> commutes U (if b then f else g)"
  by simp

end
