(* ===== verification/Bemu_State.thy ===== *)
theory Bemu_State
  imports Manux_Prelude
begin

text \<open>
  The state of the emulator \<^verbatim>\<open>bemu80\<close>: the structs of \<^verbatim>\<open>bemu80.h\<close>, the
  global variables of \<^verbatim>\<open>bemu80.c\<close>, and the register, memory and stack accessors every
  instruction is built from. A C function that works on the global state is a program of the
  state monad over \<open>machine\<close>. The register file \<^verbatim>\<open>uint8_t regs[8]\<close> is a function on
  indices; \<^verbatim>\<open>memory\<close> is a function on 16-bit addresses, of which the C code allocates
  the first \<open>MEM_SIZE\<close> only (\<open>mread8\<close> and its kin check that bound).
\<close>

section \<open>Structs\<close>

record VirtZ80 =
  regs :: "nat \<Rightarrow> u8"
  shadow_regs :: "nat \<Rightarrow> u8"
  flags :: u8
  shadow_flags :: u8
  ix :: u16
  iy :: u16
  pc :: u16
  sp :: u16
  wz :: u16
  i_reg :: u8
  r_reg :: u8
  im :: u8
  iff1 :: bool
  iff2 :: bool
  halt :: bool
  cycles :: u64

text \<open>
  The floppy controller. \<open>disk\<close> is the image behind \<^verbatim>\<open>FILE* disk\<close>: \<open>None\<close> for the
  null pointer, otherwise the bytes of the file.
\<close>

record FDC_t =
  fdc_status :: u8
  fdc_count :: u8
  lba :: u16
  dma :: u16
  disk :: "u8 list option"

record ACIA_t =
  ctrl :: u8
  status :: u8
  transmit :: u8
  receive :: u8

text \<open>
  The whole machine: the single global \<^verbatim>\<open>cpu\<close> extended with the other globals.
  \<open>out_chars\<close> are the bytes printed to the standard output by the ACIA, oldest first.
\<close>

record machine = VirtZ80 +
  memory :: "u16 \<Rightarrow> u8"
  rom_size :: u16
  fdc :: FDC_t
  acia :: ACIA_t
  interrupt_pending :: bool
  old_format :: bool
  out_chars :: "u8 list"

type_synonym 'a z80 = "(machine, 'a) state"

section \<open>Constants of \<^verbatim>\<open>bemu80.h\<close>\<close>

definition MEM_SIZE :: nat where "MEM_SIZE = 0xFFFF"

definition FLAG_C :: u8 where "FLAG_C = 0x01"
definition FLAG_N :: u8 where "FLAG_N = 0x02"
definition FLAG_PV :: u8 where "FLAG_PV = 0x04"
definition FLAG_X :: u8 where "FLAG_X = 0x08"
definition FLAG_H :: u8 where "FLAG_H = 0x10"
definition FLAG_Y :: u8 where "FLAG_Y = 0x20"
definition FLAG_Z :: u8 where "FLAG_Z = 0x40"
definition FLAG_S :: u8 where "FLAG_S = 0x80"

lemmas FLAG_defs = FLAG_C_def FLAG_N_def FLAG_PV_def FLAG_X_def FLAG_H_def FLAG_Y_def
  FLAG_Z_def FLAG_S_def

abbreviation (input) REG_A :: nat where "REG_A \<equiv> 7"
abbreviation (input) REG_B :: nat where "REG_B \<equiv> 0"
abbreviation (input) REG_C :: nat where "REG_C \<equiv> 1"
abbreviation (input) REG_D :: nat where "REG_D \<equiv> 2"
abbreviation (input) REG_E :: nat where "REG_E \<equiv> 3"
abbreviation (input) REG_H :: nat where "REG_H \<equiv> 4"
abbreviation (input) REG_L :: nat where "REG_L \<equiv> 5"
abbreviation (input) REG_BC :: nat where "REG_BC \<equiv> 0"
abbreviation (input) REG_DE :: nat where "REG_DE \<equiv> 2"
abbreviation (input) REG_HL :: nat where "REG_HL \<equiv> 4"

section \<open>Register pairs\<close>

definition AF :: "'a VirtZ80_scheme \<Rightarrow> u16" where "AF c = mk16 (regs c REG_A) (flags c)"
definition BC :: "'a VirtZ80_scheme \<Rightarrow> u16" where "BC c = mk16 (regs c REG_B) (regs c REG_C)"
definition DE :: "'a VirtZ80_scheme \<Rightarrow> u16" where "DE c = mk16 (regs c REG_D) (regs c REG_E)"
definition HL :: "'a VirtZ80_scheme \<Rightarrow> u16" where "HL c = mk16 (regs c REG_H) (regs c REG_L)"

lemmas pair_defs = AF_def BC_def DE_def HL_def

definition set_reg :: "nat \<Rightarrow> u8 \<Rightarrow> 'a VirtZ80_scheme \<Rightarrow> 'a VirtZ80_scheme" where
  "set_reg k v c = c\<lparr>regs := (regs c)(k := v)\<rparr>"

definition set_af :: "u16 \<Rightarrow> 'a VirtZ80_scheme \<Rightarrow> 'a VirtZ80_scheme" where
  "set_af v c = (set_reg REG_A (GET_HIGH v) c)\<lparr>flags := GET_LOW v\<rparr>"

definition set_bc :: "u16 \<Rightarrow> 'a VirtZ80_scheme \<Rightarrow> 'a VirtZ80_scheme" where
  "set_bc v c = set_reg REG_C (GET_LOW v) (set_reg REG_B (GET_HIGH v) c)"

definition set_de :: "u16 \<Rightarrow> 'a VirtZ80_scheme \<Rightarrow> 'a VirtZ80_scheme" where
  "set_de v c = set_reg REG_E (GET_LOW v) (set_reg REG_D (GET_HIGH v) c)"

definition set_hl :: "u16 \<Rightarrow> 'a VirtZ80_scheme \<Rightarrow> 'a VirtZ80_scheme" where
  "set_hl v c = set_reg REG_L (GET_LOW v) (set_reg REG_H (GET_HIGH v) c)"

lemmas set_pair_defs = set_af_def set_bc_def set_de_def set_hl_def set_reg_def

definition set_high :: "u16 \<Rightarrow> u8 \<Rightarrow> u16" where
  "set_high reg v = (reg AND 0x00FF) OR push_bit 8 (ucast v)"

definition set_low :: "u16 \<Rightarrow> u8 \<Rightarrow> u16" where
  "set_low reg v = (reg AND 0xFF00) OR ucast v"

lemma set_high_eq: "set_high r v = mk16 v (GET_LOW r)"
  by (rule bit_eqI)
    (auto simp: set_high_def bit_mk16 bit_GET_LOW bit_and_iff bit_or_iff
      bit_push_bit_iff bit_ucast_iff)

lemma set_low_eq: "set_low r v = mk16 (GET_HIGH r) v"
  by (rule bit_eqI)
    (auto simp: set_low_def bit_mk16 bit_GET_HIGH bit_and_iff bit_or_iff
      bit_ucast_iff dest: bit_imp_le_length)

section \<open>Memory\<close>

definition mread8 :: "u16 \<Rightarrow> machine \<Rightarrow> u8" where
  "mread8 address m = (if MEM_SIZE \<le> unat address then 0 else memory m address)"

definition mwrite8 :: "u16 \<Rightarrow> u8 \<Rightarrow> machine \<Rightarrow> machine" where
  "mwrite8 address v m =
     (if MEM_SIZE \<le> unat address \<or> address < rom_size m then m
      else m\<lparr>memory := (memory m)(address := v)\<rparr>)"

definition mread16 :: "u16 \<Rightarrow> machine \<Rightarrow> u16" where
  "mread16 address m =
     (if MEM_SIZE \<le> unat address + 1 then 0
      else mk16 (memory m (address + 1)) (memory m address))"

definition mwrite16 :: "u16 \<Rightarrow> u16 \<Rightarrow> machine \<Rightarrow> machine" where
  "mwrite16 address v m =
     (if MEM_SIZE \<le> unat address + 1 \<or> address < rom_size m then m
      else m\<lparr>memory := (memory m)(address := GET_LOW v, address + 1 := GET_HIGH v)\<rparr>)"

definition fByte :: "u8 z80" where
  "fByte = do {
     p \<leftarrow> gets pc;
     modify (\<lambda>m. m\<lparr>pc := p + 1\<rparr>);
     gets (mread8 p)
   }"

definition fWord :: "u16 z80" where
  "fWord = do {
     result \<leftarrow> gets (\<lambda>m. mread16 (pc m) m);
     modify (\<lambda>m. m\<lparr>pc := pc m + 2\<rparr>);
     ret result
   }"

definition push :: "u16 \<Rightarrow> unit z80" where
  "push v = do {
     modify (\<lambda>m. m\<lparr>sp := sp m - 2\<rparr>);
     modify (\<lambda>m. mwrite16 (sp m) v m)
   }"

definition pop :: "u16 z80" where
  "pop = do {
     result \<leftarrow> gets (\<lambda>m. mread16 (sp m) m);
     modify (\<lambda>m. m\<lparr>sp := sp m + 2\<rparr>);
     ret result
   }"

section \<open>Flags and cycles\<close>

definition getFlag :: "u8 \<Rightarrow> 'a VirtZ80_scheme \<Rightarrow> u8" where
  "getFlag flag m = (if flags m AND flag \<noteq> 0 then 1 else 0)"

definition setFlag :: "u8 \<Rightarrow> bool \<Rightarrow> 'a VirtZ80_scheme \<Rightarrow> 'a VirtZ80_scheme" where
  "setFlag flag v m =
     (if v then m\<lparr>flags := flags m OR flag\<rparr> else m\<lparr>flags := flags m AND NOT flag\<rparr>)"

definition add_cycles :: "u64 \<Rightarrow> unit z80" where
  "add_cycles n = modify (\<lambda>m. m\<lparr>cycles := cycles m + n\<rparr>)"

section \<open>Register operands\<close>

definition get_r8 :: "nat \<Rightarrow> u8 z80" where
  "get_r8 reg = gets (\<lambda>m. if reg = 6 then mread8 (HL m) m else regs m reg)"

definition set_r8 :: "nat \<Rightarrow> u8 \<Rightarrow> unit z80" where
  "set_r8 reg v = modify (\<lambda>m. if reg = 6 then mwrite8 (HL m) v m else set_reg reg v m)"

text \<open>\<^verbatim>\<open>uint16_t *index_reg\<close> is always \<^verbatim>\<open>&cpu->ix\<close> or \<^verbatim>\<open>&cpu->iy\<close>.\<close>

datatype index_ptr = IX | IY

definition get_idx :: "index_ptr \<Rightarrow> 'a VirtZ80_scheme \<Rightarrow> u16" where
  "get_idx p m = (case p of IX \<Rightarrow> ix m | IY \<Rightarrow> iy m)"

definition set_idx :: "index_ptr \<Rightarrow> u16 \<Rightarrow> 'a VirtZ80_scheme \<Rightarrow> 'a VirtZ80_scheme" where
  "set_idx p v m = (case p of IX \<Rightarrow> m\<lparr>ix := v\<rparr> | IY \<Rightarrow> m\<lparr>iy := v\<rparr>)"

definition get_index_addr :: "u16 \<Rightarrow> u16 z80" where
  "get_index_addr base = do { d \<leftarrow> fByte; ret (base + scast d) }"

definition get_r8_index :: "nat \<Rightarrow> index_ptr \<Rightarrow> u8 z80" where
  "get_r8_index reg p =
     (if reg = 6 then do {
        base \<leftarrow> gets (get_idx p);
        addr \<leftarrow> get_index_addr base;
        gets (mread8 addr)
      }
      else if reg = 4 then gets (\<lambda>m. GET_HIGH (get_idx p m))
      else if reg = 5 then gets (\<lambda>m. GET_LOW (get_idx p m))
      else gets (\<lambda>m. regs m reg))"

definition set_r8_index :: "nat \<Rightarrow> u8 \<Rightarrow> index_ptr \<Rightarrow> unit z80" where
  "set_r8_index reg v p =
     (if reg = 4 then modify (\<lambda>m. set_idx p (set_high (get_idx p m) v) m)
      else if reg = 5 then modify (\<lambda>m. set_idx p (set_low (get_idx p m) v) m)
      else modify (set_reg reg v))"

definition set_pair :: "nat \<Rightarrow> u16 \<Rightarrow> 'a VirtZ80_scheme \<Rightarrow> 'a VirtZ80_scheme" where
  "set_pair reg v m = set_reg (reg * 2 + 1) (GET_LOW v) (set_reg (reg * 2) (GET_HIGH v) m)"

definition get_pair :: "nat \<Rightarrow> 'a VirtZ80_scheme \<Rightarrow> u16" where
  "get_pair reg m = mk16 (regs m (reg * 2)) (regs m (reg * 2 + 1))"

definition set_r16_1 :: "nat \<Rightarrow> u16 \<Rightarrow> 'a VirtZ80_scheme \<Rightarrow> 'a VirtZ80_scheme" where
  "set_r16_1 reg v m = (if reg = 3 then m\<lparr>sp := v\<rparr> else set_pair reg v m)"

definition get_r16_1 :: "nat \<Rightarrow> 'a VirtZ80_scheme \<Rightarrow> u16" where
  "get_r16_1 reg m = (if reg = 3 then sp m else get_pair reg m)"

definition set_r16_index :: "nat \<Rightarrow> u16 \<Rightarrow> index_ptr \<Rightarrow> 'a VirtZ80_scheme \<Rightarrow> 'a VirtZ80_scheme" where
  "set_r16_index reg v p m =
     (if reg = 3 then m\<lparr>sp := v\<rparr> else if reg = 2 then set_idx p v m else set_pair reg v m)"

definition get_r16_index :: "nat \<Rightarrow> index_ptr \<Rightarrow> 'a VirtZ80_scheme \<Rightarrow> u16" where
  "get_r16_index reg p m =
     (if reg = 3 then sp m else if reg = 2 then get_idx p m else get_pair reg m)"

definition set_r16_2 :: "nat \<Rightarrow> u16 \<Rightarrow> 'a VirtZ80_scheme \<Rightarrow> 'a VirtZ80_scheme" where
  "set_r16_2 reg v m = (if reg = 3 then set_af v m else set_pair reg v m)"

definition get_r16_2 :: "nat \<Rightarrow> 'a VirtZ80_scheme \<Rightarrow> u16" where
  "get_r16_2 reg m = (if reg = 3 then AF m else get_pair reg m)"

text \<open>
  \<^verbatim>\<open>exchange\<close> swaps two register pairs. With \<open>is_shadow\<close> the second pair is read from the
  shadow file at \<open>regpair2\<close>, and the first is stored there at \<open>regpair1\<close>.
\<close>

definition exchange :: "nat \<Rightarrow> nat \<Rightarrow> bool \<Rightarrow> 'a VirtZ80_scheme \<Rightarrow> 'a VirtZ80_scheme" where
  "exchange p1 p2 is_shadow m =
     (let temp1 = mk16 (regs m p1) (regs m (p1 + 1));
          temp2 = (if is_shadow then mk16 (shadow_regs m p2) (shadow_regs m (p2 + 1))
                   else mk16 (regs m p2) (regs m (p2 + 1)));
          m1 = m\<lparr>regs := (regs m)(p1 := GET_HIGH temp2, p1 + 1 := GET_LOW temp2)\<rparr>
      in if is_shadow
         then m1\<lparr>shadow_regs := (shadow_regs m1)(p1 := GET_HIGH temp1, p1 + 1 := GET_LOW temp1)\<rparr>
         else m1\<lparr>regs := (regs m1)(p2 := GET_HIGH temp1, p2 + 1 := GET_LOW temp1)\<rparr>)"

definition exchange_af :: "'a VirtZ80_scheme \<Rightarrow> 'a VirtZ80_scheme" where
  "exchange_af m =
     (let temp1 = AF m;
          temp2 = mk16 (shadow_regs m REG_A) (shadow_flags m);
          m1 = set_af temp2 m
      in m1\<lparr>shadow_regs := (shadow_regs m1)(REG_A := GET_HIGH temp1),
            shadow_flags := GET_LOW temp1\<rparr>)"

section \<open>Frame facts\<close>

lemma mwrite8_sel [simp]:
  "regs (mwrite8 a v m) = regs m"
  "shadow_regs (mwrite8 a v m) = shadow_regs m"
  "flags (mwrite8 a v m) = flags m"
  "shadow_flags (mwrite8 a v m) = shadow_flags m"
  "ix (mwrite8 a v m) = ix m"
  "iy (mwrite8 a v m) = iy m"
  "pc (mwrite8 a v m) = pc m"
  "sp (mwrite8 a v m) = sp m"
  "wz (mwrite8 a v m) = wz m"
  "i_reg (mwrite8 a v m) = i_reg m"
  "r_reg (mwrite8 a v m) = r_reg m"
  "im (mwrite8 a v m) = im m"
  "iff1 (mwrite8 a v m) = iff1 m"
  "iff2 (mwrite8 a v m) = iff2 m"
  "halt (mwrite8 a v m) = halt m"
  "cycles (mwrite8 a v m) = cycles m"
  "rom_size (mwrite8 a v m) = rom_size m"
  "fdc (mwrite8 a v m) = fdc m"
  "acia (mwrite8 a v m) = acia m"
  "interrupt_pending (mwrite8 a v m) = interrupt_pending m"
  "old_format (mwrite8 a v m) = old_format m"
  "out_chars (mwrite8 a v m) = out_chars m"
  by (simp_all add: mwrite8_def)

lemma mwrite16_sel [simp]:
  "regs (mwrite16 a v m) = regs m"
  "shadow_regs (mwrite16 a v m) = shadow_regs m"
  "flags (mwrite16 a v m) = flags m"
  "shadow_flags (mwrite16 a v m) = shadow_flags m"
  "ix (mwrite16 a v m) = ix m"
  "iy (mwrite16 a v m) = iy m"
  "pc (mwrite16 a v m) = pc m"
  "sp (mwrite16 a v m) = sp m"
  "wz (mwrite16 a v m) = wz m"
  "i_reg (mwrite16 a v m) = i_reg m"
  "r_reg (mwrite16 a v m) = r_reg m"
  "im (mwrite16 a v m) = im m"
  "iff1 (mwrite16 a v m) = iff1 m"
  "iff2 (mwrite16 a v m) = iff2 m"
  "halt (mwrite16 a v m) = halt m"
  "cycles (mwrite16 a v m) = cycles m"
  "rom_size (mwrite16 a v m) = rom_size m"
  "fdc (mwrite16 a v m) = fdc m"
  "acia (mwrite16 a v m) = acia m"
  "interrupt_pending (mwrite16 a v m) = interrupt_pending m"
  "old_format (mwrite16 a v m) = old_format m"
  "out_chars (mwrite16 a v m) = out_chars m"
  by (simp_all add: mwrite16_def)

lemma set_reg_sel [simp]:
  "shadow_regs (set_reg k v m) = shadow_regs m"
  "flags (set_reg k v m) = flags m"
  "shadow_flags (set_reg k v m) = shadow_flags m"
  "ix (set_reg k v m) = ix m"
  "iy (set_reg k v m) = iy m"
  "pc (set_reg k v m) = pc m"
  "sp (set_reg k v m) = sp m"
  "wz (set_reg k v m) = wz m"
  "i_reg (set_reg k v m) = i_reg m"
  "r_reg (set_reg k v m) = r_reg m"
  "im (set_reg k v m) = im m"
  "iff1 (set_reg k v m) = iff1 m"
  "iff2 (set_reg k v m) = iff2 m"
  "halt (set_reg k v m) = halt m"
  "cycles (set_reg k v m) = cycles m"
  "memory (set_reg k v m) = memory m"
  "rom_size (set_reg k v m) = rom_size m"
  "fdc (set_reg k v m) = fdc m"
  "acia (set_reg k v m) = acia m"
  "interrupt_pending (set_reg k v m) = interrupt_pending m"
  "old_format (set_reg k v m) = old_format m"
  "out_chars (set_reg k v m) = out_chars m"
  by (simp_all add: set_reg_def)

lemma regs_set_reg [simp]: "regs (set_reg k v m) = (regs m)(k := v)"
  by (simp add: set_reg_def)

lemma setFlag_sel [simp]:
  "regs (setFlag k v m) = regs m"
  "shadow_regs (setFlag k v m) = shadow_regs m"
  "shadow_flags (setFlag k v m) = shadow_flags m"
  "ix (setFlag k v m) = ix m"
  "iy (setFlag k v m) = iy m"
  "pc (setFlag k v m) = pc m"
  "sp (setFlag k v m) = sp m"
  "wz (setFlag k v m) = wz m"
  "i_reg (setFlag k v m) = i_reg m"
  "r_reg (setFlag k v m) = r_reg m"
  "im (setFlag k v m) = im m"
  "iff1 (setFlag k v m) = iff1 m"
  "iff2 (setFlag k v m) = iff2 m"
  "halt (setFlag k v m) = halt m"
  "cycles (setFlag k v m) = cycles m"
  "memory (setFlag k v m) = memory m"
  "rom_size (setFlag k v m) = rom_size m"
  "fdc (setFlag k v m) = fdc m"
  "acia (setFlag k v m) = acia m"
  "interrupt_pending (setFlag k v m) = interrupt_pending m"
  "old_format (setFlag k v m) = old_format m"
  "out_chars (setFlag k v m) = out_chars m"
  by (simp_all add: setFlag_def)

end
