(* ===== verification/Bemu_Alu.thy ===== *)
theory Bemu_Alu
  imports Bemu_State
begin

text \<open>
  The inline ALU of \<^verbatim>\<open>bemu80.c\<close>: every operation computes its result at the width the C
  code uses, writes the flag register and returns the result. The second half relates each
  operation to integer arithmetic: the result, the carry, half carry, zero, sign and overflow
  flags are what the operation means on unsigned and two's complement values.
\<close>

section \<open>Operations\<close>

text \<open>\<^verbatim>\<open>if (c) new_f |= f;\<close>\<close>

abbreviation (input) fl :: "bool \<Rightarrow> u8 \<Rightarrow> u8" where
  "fl c f \<equiv> (if c then f else 0)"

text \<open>\<^verbatim>\<open>__builtin_parity\<close>: whether the number of one bits is odd.\<close>

definition builtin_parity :: "u8 \<Rightarrow> bool" where
  "builtin_parity x = odd (length (filter (bit x) [0..<8]))"

definition update_flagsYX :: "u8 \<Rightarrow> 'a VirtZ80_scheme \<Rightarrow> 'a VirtZ80_scheme" where
  "update_flagsYX result m =
     (let m1 = (if result AND 0x20 \<noteq> 0 then m\<lparr>flags := flags m OR FLAG_Y\<rparr>
                else m\<lparr>flags := flags m AND NOT FLAG_Y\<rparr>)
      in if result AND 0x08 \<noteq> 0 then m1\<lparr>flags := flags m1 OR FLAG_X\<rparr>
         else m1\<lparr>flags := flags m1 AND NOT FLAG_X\<rparr>)"

text \<open>\<^verbatim>\<open>cpu->flags = (cpu->flags & ~mask) | new_f;\<close>\<close>

definition merge_flags :: "u8 \<Rightarrow> u8 \<Rightarrow> 'a VirtZ80_scheme \<Rightarrow> 'a VirtZ80_scheme" where
  "merge_flags msk new_f m = m\<lparr>flags := (flags m AND NOT msk) OR new_f\<rparr>"

definition add8 :: "u8 \<Rightarrow> u8 \<Rightarrow> u8 z80" where
  "add8 a b = do {
     let res16 = (ucast a + ucast b :: u16);
     let res8 = (ucast res16 :: u8);
     let new_f = fl (res8 AND 0x80 \<noteq> 0) FLAG_S OR fl (res8 = 0) FLAG_Z
       OR fl ((a XOR b XOR res8) AND 0x10 \<noteq> 0) FLAG_H
       OR fl ((NOT (a XOR b) AND (a XOR res8)) AND 0x80 \<noteq> 0) FLAG_PV
       OR fl (res16 AND 0x100 \<noteq> 0) FLAG_C;
     modify (merge_flags (FLAG_S OR FLAG_Z OR FLAG_H OR FLAG_PV OR FLAG_C) new_f);
     modify (setFlag FLAG_N False);
     modify (update_flagsYX res8);
     ret res8
   }"

definition adc8 :: "u8 \<Rightarrow> u8 \<Rightarrow> u8 z80" where
  "adc8 a b = do {
     c \<leftarrow> gets (getFlag FLAG_C);
     let res16 = (ucast a + ucast b + ucast c :: u16);
     let res8 = (ucast res16 :: u8);
     let new_f = fl (res8 AND 0x80 \<noteq> 0) FLAG_S OR fl (res8 = 0) FLAG_Z
       OR fl ((a XOR b XOR res8) AND 0x10 \<noteq> 0) FLAG_H
       OR fl ((NOT (a XOR b) AND (a XOR res8)) AND 0x80 \<noteq> 0) FLAG_PV
       OR fl (res16 AND 0x100 \<noteq> 0) FLAG_C;
     modify (merge_flags (FLAG_S OR FLAG_Z OR FLAG_H OR FLAG_PV OR FLAG_C) new_f);
     modify (setFlag FLAG_N False);
     modify (update_flagsYX res8);
     ret res8
   }"

definition sub8 :: "u8 \<Rightarrow> u8 \<Rightarrow> u8 z80" where
  "sub8 a b = do {
     let res16 = (ucast a - ucast b :: u16);
     let res8 = (ucast res16 :: u8);
     let new_f = fl (res8 AND 0x80 \<noteq> 0) FLAG_S OR fl (res8 = 0) FLAG_Z
       OR fl ((a XOR b XOR res8) AND 0x10 \<noteq> 0) FLAG_H
       OR fl (((a XOR b) AND (a XOR res8)) AND 0x80 \<noteq> 0) FLAG_PV
       OR fl (res16 AND 0x100 \<noteq> 0) FLAG_C;
     modify (merge_flags (FLAG_S OR FLAG_Z OR FLAG_H OR FLAG_PV OR FLAG_C) new_f);
     modify (setFlag FLAG_N True);
     modify (update_flagsYX res8);
     ret res8
   }"

definition cp8 :: "u8 \<Rightarrow> u8 \<Rightarrow> unit z80" where
  "cp8 a b = do {
     let res16 = (ucast a - ucast b :: u16);
     let res8 = (ucast res16 :: u8);
     let new_f = fl (res8 AND 0x80 \<noteq> 0) FLAG_S OR fl (res8 = 0) FLAG_Z
       OR fl ((a XOR b XOR res8) AND 0x10 \<noteq> 0) FLAG_H
       OR fl (((a XOR b) AND (a XOR res8)) AND 0x80 \<noteq> 0) FLAG_PV
       OR fl (res16 AND 0x100 \<noteq> 0) FLAG_C;
     modify (merge_flags (FLAG_S OR FLAG_Z OR FLAG_H OR FLAG_PV OR FLAG_C) new_f);
     modify (setFlag FLAG_N True);
     modify (update_flagsYX b)
   }"

definition sbc8 :: "u8 \<Rightarrow> u8 \<Rightarrow> u8 z80" where
  "sbc8 a b = do {
     c \<leftarrow> gets (getFlag FLAG_C);
     let res16 = (ucast a - ucast b - ucast c :: u16);
     let res8 = (ucast res16 :: u8);
     let new_f = fl (res8 AND 0x80 \<noteq> 0) FLAG_S OR fl (res8 = 0) FLAG_Z
       OR fl ((a XOR b XOR res8) AND 0x10 \<noteq> 0) FLAG_H
       OR fl (((a XOR b) AND (a XOR res8)) AND 0x80 \<noteq> 0) FLAG_PV
       OR fl (res16 AND 0x100 \<noteq> 0) FLAG_C;
     modify (merge_flags (FLAG_S OR FLAG_Z OR FLAG_H OR FLAG_PV OR FLAG_C) new_f);
     modify (setFlag FLAG_N True);
     modify (update_flagsYX res8);
     ret res8
   }"

definition and8 :: "u8 \<Rightarrow> u8 \<Rightarrow> u8 z80" where
  "and8 a b = do {
     let res8 = a AND b;
     let new_f = fl (res8 AND 0x80 \<noteq> 0) FLAG_S OR fl (res8 = 0) FLAG_Z OR FLAG_H
       OR fl (\<not> builtin_parity res8) FLAG_PV;
     modify (merge_flags (FLAG_S OR FLAG_Z OR FLAG_PV) new_f);
     modify (setFlag (FLAG_N OR FLAG_C) False);
     modify (update_flagsYX res8);
     ret res8
   }"

definition or8 :: "u8 \<Rightarrow> u8 \<Rightarrow> u8 z80" where
  "or8 a b = do {
     let res8 = a OR b;
     let new_f = fl (res8 AND 0x80 \<noteq> 0) FLAG_S OR fl (res8 = 0) FLAG_Z
       OR fl (\<not> builtin_parity res8) FLAG_PV;
     modify (merge_flags (FLAG_S OR FLAG_Z OR FLAG_PV) new_f);
     modify (setFlag (FLAG_N OR FLAG_H OR FLAG_C) False);
     modify (update_flagsYX res8);
     ret res8
   }"

definition xor8 :: "u8 \<Rightarrow> u8 \<Rightarrow> u8 z80" where
  "xor8 a b = do {
     let res8 = a XOR b;
     let new_f = fl (res8 AND 0x80 \<noteq> 0) FLAG_S OR fl (res8 = 0) FLAG_Z
       OR fl (\<not> builtin_parity res8) FLAG_PV;
     modify (merge_flags (FLAG_S OR FLAG_Z OR FLAG_PV) new_f);
     modify (setFlag (FLAG_N OR FLAG_H OR FLAG_C) False);
     modify (update_flagsYX res8);
     ret res8
   }"

definition inc8 :: "u8 \<Rightarrow> u8 z80" where
  "inc8 a = do {
     let res16 = (ucast a + 1 :: u16);
     let res8 = (ucast res16 :: u8);
     let set_overflow = (a = 0x7F);
     let new_f = fl (res8 AND 0x80 \<noteq> 0) FLAG_S OR fl (res8 = 0) FLAG_Z
       OR fl ((a XOR res8) AND 0x10 \<noteq> 0) FLAG_H OR fl set_overflow FLAG_PV;
     modify (merge_flags (FLAG_S OR FLAG_Z OR FLAG_H OR FLAG_PV) new_f);
     modify (setFlag FLAG_N False);
     modify (update_flagsYX res8);
     ret res8
   }"

definition dec8 :: "u8 \<Rightarrow> u8 z80" where
  "dec8 a = do {
     let res16 = (ucast a - 1 :: u16);
     let res8 = (ucast res16 :: u8);
     let set_overflow = (a = 0x80);
     let new_f = fl (res8 AND 0x80 \<noteq> 0) FLAG_S OR fl (res8 = 0) FLAG_Z
       OR fl ((a XOR res8) AND 0x10 \<noteq> 0) FLAG_H OR fl set_overflow FLAG_PV;
     modify (merge_flags (FLAG_S OR FLAG_Z OR FLAG_H OR FLAG_PV) new_f);
     modify (setFlag FLAG_N True);
     modify (update_flagsYX res8);
     ret res8
   }"

definition add16 :: "u16 \<Rightarrow> u16 \<Rightarrow> u16 z80" where
  "add16 a b = do {
     let res32 = (ucast a + ucast b :: u32);
     let res16 = (ucast res32 :: u16);
     let new_f = fl ((a XOR b XOR res16) AND 0x1000 \<noteq> 0) FLAG_H
       OR fl (res32 AND 0x10000 \<noteq> 0) FLAG_C;
     modify (merge_flags (FLAG_H OR FLAG_C) new_f);
     modify (setFlag FLAG_N False);
     modify (update_flagsYX (ucast (drop_bit 8 res16)));
     ret res16
   }"

definition adc16 :: "u16 \<Rightarrow> u16 \<Rightarrow> u16 z80" where
  "adc16 a b = do {
     c \<leftarrow> gets (getFlag FLAG_C);
     let res32 = (ucast a + ucast b + ucast c :: u32);
     let res16 = (ucast res32 :: u16);
     let new_f = fl ((a XOR b XOR res16) AND 0x1000 \<noteq> 0) FLAG_H
       OR fl (res32 AND 0x10000 \<noteq> 0) FLAG_C
       OR fl (res16 AND 0x8000 \<noteq> 0) FLAG_S OR fl (res16 = 0) FLAG_Z
       OR fl (((a XOR b) AND (a XOR res16)) AND 0x8000 \<noteq> 0) FLAG_PV;
     modify (merge_flags (FLAG_S OR FLAG_Z OR FLAG_H OR FLAG_PV OR FLAG_C) new_f);
     modify (setFlag FLAG_N False);
     modify (update_flagsYX (ucast (drop_bit 8 res16)));
     ret res16
   }"

definition sbc16 :: "u16 \<Rightarrow> u16 \<Rightarrow> u16 z80" where
  "sbc16 a b = do {
     c \<leftarrow> gets (getFlag FLAG_C);
     let res32 = (ucast a - ucast b - ucast c :: u32);
     let res16 = (ucast res32 :: u16);
     let new_f = fl ((a XOR b XOR res16) AND 0x1000 \<noteq> 0) FLAG_H
       OR fl (res32 AND 0x10000 \<noteq> 0) FLAG_C
       OR fl (res16 AND 0x8000 \<noteq> 0) FLAG_S OR fl (res16 = 0) FLAG_Z
       OR fl (((a XOR b) AND (a XOR res16)) AND 0x8000 \<noteq> 0) FLAG_PV;
     modify (merge_flags (FLAG_S OR FLAG_Z OR FLAG_H OR FLAG_PV OR FLAG_C) new_f);
     modify (setFlag FLAG_N True);
     modify (update_flagsYX (ucast (drop_bit 8 res16)));
     ret res16
   }"

definition inc16 :: "u16 \<Rightarrow> u16" where "inc16 a = a + 1"
definition dec16 :: "u16 \<Rightarrow> u16" where "dec16 a = a - 1"

definition rlc8 :: "u8 \<Rightarrow> u8 z80" where
  "rlc8 a = do {
     let res16 = (push_bit 1 (ucast a) OR drop_bit 7 (ucast a) :: u16);
     let res8 = (ucast res16 :: u8);
     let new_f = fl (res8 AND 0x80 \<noteq> 0) FLAG_S OR fl (res8 = 0) FLAG_Z
       OR fl (\<not> builtin_parity res8) FLAG_PV;
     modify (merge_flags (FLAG_S OR FLAG_Z OR FLAG_PV) new_f);
     modify (setFlag (FLAG_N OR FLAG_H) False);
     modify (setFlag FLAG_C (a AND 0x80 \<noteq> 0));
     modify (update_flagsYX res8);
     ret res8
   }"

definition rl8 :: "u8 \<Rightarrow> u8 z80" where
  "rl8 a = do {
     c \<leftarrow> gets (getFlag FLAG_C);
     let res16 = (push_bit 1 (ucast a) OR ucast c :: u16);
     let res8 = (ucast res16 :: u8);
     let new_f = fl (res8 AND 0x80 \<noteq> 0) FLAG_S OR fl (res8 = 0) FLAG_Z
       OR fl (\<not> builtin_parity res8) FLAG_PV;
     modify (merge_flags (FLAG_S OR FLAG_Z OR FLAG_PV) new_f);
     modify (setFlag (FLAG_N OR FLAG_H) False);
     modify (setFlag FLAG_C (a AND 0x80 \<noteq> 0));
     modify (update_flagsYX res8);
     ret res8
   }"

definition rrc8 :: "u8 \<Rightarrow> u8 z80" where
  "rrc8 a = do {
     let res16 = (drop_bit 1 (ucast a) OR push_bit 7 (ucast a) :: u16);
     let res8 = (ucast res16 :: u8);
     let new_f = fl (res8 AND 0x80 \<noteq> 0) FLAG_S OR fl (res8 = 0) FLAG_Z
       OR fl (\<not> builtin_parity res8) FLAG_PV;
     modify (merge_flags (FLAG_S OR FLAG_Z OR FLAG_PV) new_f);
     modify (setFlag (FLAG_N OR FLAG_H) False);
     modify (setFlag FLAG_C (a AND 0x01 \<noteq> 0));
     modify (update_flagsYX res8);
     ret res8
   }"

definition rr8 :: "u8 \<Rightarrow> u8 z80" where
  "rr8 a = do {
     c \<leftarrow> gets (getFlag FLAG_C);
     let res16 = (drop_bit 1 (ucast a) OR push_bit 7 (ucast c) :: u16);
     let res8 = (ucast res16 :: u8);
     let new_f = fl (res8 AND 0x80 \<noteq> 0) FLAG_S OR fl (res8 = 0) FLAG_Z
       OR fl (\<not> builtin_parity res8) FLAG_PV;
     modify (merge_flags (FLAG_S OR FLAG_Z OR FLAG_PV) new_f);
     modify (setFlag (FLAG_N OR FLAG_H) False);
     modify (setFlag FLAG_C (a AND 0x01 \<noteq> 0));
     modify (update_flagsYX res8);
     ret res8
   }"

definition sla8 :: "u8 \<Rightarrow> u8 z80" where
  "sla8 a = do {
     let res16 = (push_bit 1 (ucast a) :: u16);
     let res8 = (ucast res16 :: u8);
     let new_f = fl (res8 AND 0x80 \<noteq> 0) FLAG_S OR fl (res8 = 0) FLAG_Z
       OR fl (\<not> builtin_parity res8) FLAG_PV;
     modify (merge_flags (FLAG_S OR FLAG_Z OR FLAG_PV) new_f);
     modify (setFlag (FLAG_N OR FLAG_H) False);
     modify (setFlag FLAG_C (a AND 0x80 \<noteq> 0));
     modify (update_flagsYX res8);
     ret res8
   }"

definition sll8 :: "u8 \<Rightarrow> u8 z80" where
  "sll8 a = do {
     let res16 = (push_bit 1 (ucast a) OR 1 :: u16);
     let res8 = (ucast res16 :: u8);
     let new_f = fl (res8 AND 0x80 \<noteq> 0) FLAG_S OR fl (res8 = 0) FLAG_Z
       OR fl (\<not> builtin_parity res8) FLAG_PV;
     modify (merge_flags (FLAG_S OR FLAG_Z OR FLAG_PV) new_f);
     modify (setFlag (FLAG_N OR FLAG_H) False);
     modify (setFlag FLAG_C (a AND 0x80 \<noteq> 0));
     modify (update_flagsYX res8);
     ret res8
   }"

definition sra8 :: "u8 \<Rightarrow> u8 z80" where
  "sra8 a = do {
     let res16 = (drop_bit 1 (ucast a) OR (ucast a AND 0x80) :: u16);
     let res8 = (ucast res16 :: u8);
     let new_f = fl (res8 AND 0x80 \<noteq> 0) FLAG_S OR fl (res8 = 0) FLAG_Z
       OR fl (\<not> builtin_parity res8) FLAG_PV;
     modify (merge_flags (FLAG_S OR FLAG_Z OR FLAG_PV) new_f);
     modify (setFlag (FLAG_N OR FLAG_H) False);
     modify (setFlag FLAG_C (a AND 0x01 \<noteq> 0));
     modify (update_flagsYX res8);
     ret res8
   }"

definition srl8 :: "u8 \<Rightarrow> u8 z80" where
  "srl8 a = do {
     let res16 = (drop_bit 1 (ucast a) :: u16);
     let res8 = (ucast res16 :: u8);
     let new_f = fl (res8 AND 0x80 \<noteq> 0) FLAG_S OR fl (res8 = 0) FLAG_Z
       OR fl (\<not> builtin_parity res8) FLAG_PV;
     modify (merge_flags (FLAG_S OR FLAG_Z OR FLAG_PV) new_f);
     modify (setFlag (FLAG_N OR FLAG_H) False);
     modify (setFlag FLAG_C (a AND 0x01 \<noteq> 0));
     modify (update_flagsYX res8);
     ret res8
   }"

definition bit8 :: "u8 \<Rightarrow> nat \<Rightarrow> unit z80" where
  "bit8 a n = do {
     let result = (a AND push_bit n 1 \<noteq> 0);
     modify (setFlag (FLAG_PV OR FLAG_Z) (\<not> result));
     modify (setFlag FLAG_H True);
     modify (setFlag FLAG_N False);
     (if result then do {
        modify (setFlag FLAG_S (a AND 0x80 \<noteq> 0));
        modify (setFlag FLAG_Y (a AND 0x20 \<noteq> 0));
        modify (setFlag FLAG_X (a AND 0x08 \<noteq> 0))
      }
      else modify (\<lambda>m. m\<lparr>flags := flags m AND NOT (FLAG_S OR FLAG_Y OR FLAG_X)\<rparr>))
   }"

definition res8 :: "u8 \<Rightarrow> nat \<Rightarrow> u8" where
  "res8 a n = (a AND NOT (push_bit n 1))"

definition set8 :: "u8 \<Rightarrow> nat \<Rightarrow> u8" where
  "set8 a n = (a OR push_bit n 1)"

section \<open>Reading the flag register back\<close>

lemma getFlag_bit:
  "getFlag FLAG_C m = 1 \<longleftrightarrow> bit (flags m) 0" "getFlag FLAG_N m = 1 \<longleftrightarrow> bit (flags m) 1"
  "getFlag FLAG_PV m = 1 \<longleftrightarrow> bit (flags m) 2" "getFlag FLAG_X m = 1 \<longleftrightarrow> bit (flags m) 3"
  "getFlag FLAG_H m = 1 \<longleftrightarrow> bit (flags m) 4" "getFlag FLAG_Y m = 1 \<longleftrightarrow> bit (flags m) 5"
  "getFlag FLAG_Z m = 1 \<longleftrightarrow> bit (flags m) 6" "getFlag FLAG_S m = 1 \<longleftrightarrow> bit (flags m) 7"
  by (simp_all add: getFlag_def FLAG_defs u8_mask_bits)

lemma bit_merge_flags:
  "bit (flags (merge_flags msk f m)) n \<longleftrightarrow> bit f n \<or> bit (flags m) n \<and> \<not> bit msk n"
  by (auto simp: merge_flags_def bit_simps dest: bit_imp_le_length)

lemma bit_setFlag:
  "bit (flags (setFlag f v m)) n \<longleftrightarrow>
     (if v then bit (flags m) n \<or> bit f n else bit (flags m) n \<and> \<not> bit f n)"
  by (auto simp: setFlag_def bit_simps dest: bit_imp_le_length)

lemma FLAG_exp:
  "FLAG_C = 2 ^ 0" "FLAG_N = 2 ^ 1" "FLAG_PV = 2 ^ 2" "FLAG_X = 2 ^ 3"
  "FLAG_H = 2 ^ 4" "FLAG_Y = 2 ^ 5" "FLAG_Z = 2 ^ 6" "FLAG_S = 2 ^ 7"
  by (simp_all add: FLAG_defs)

lemma bit_u8_exp: "k < 8 \<Longrightarrow> bit (2 ^ k :: u8) n \<longleftrightarrow> n = k"
  by (auto simp: bit_exp_iff)

lemma FLAG_bits:
  "bit FLAG_C n \<longleftrightarrow> n = 0" "bit FLAG_N n \<longleftrightarrow> n = 1" "bit FLAG_PV n \<longleftrightarrow> n = 2"
  "bit FLAG_X n \<longleftrightarrow> n = 3" "bit FLAG_H n \<longleftrightarrow> n = 4" "bit FLAG_Y n \<longleftrightarrow> n = 5"
  "bit FLAG_Z n \<longleftrightarrow> n = 6" "bit FLAG_S n \<longleftrightarrow> n = 7"
  unfolding FLAG_exp by (rule bit_u8_exp, simp)+

lemma bit_update_flagsYX:
  "bit (flags (update_flagsYX r m)) n \<longleftrightarrow>
     (if n = 5 then bit r 5 else if n = 3 then bit r 3 else bit (flags m) n)"
  by (auto simp: update_flagsYX_def Let_def bit_or_iff bit_and_iff bit_not_iff FLAG_bits
      u8_mask_bits dest: bit_imp_le_length)

lemma fl_bits: "bit (if c then f else (0::u8)) n \<longleftrightarrow> c \<and> bit f n"
  by simp

lemmas flag_bits = bit_merge_flags bit_setFlag bit_update_flagsYX FLAG_bits bit_or_iff fl_bits

lemma getFlag_le_1: "unat (getFlag f m) \<le> 1" by (simp add: getFlag_def)

text \<open>
  What an operation promises of the flags: sign and zero describe the result \<open>r\<close>; half carry,
  overflow (or parity), subtract and carry are given; the undocumented \<open>Y\<close> and \<open>X\<close> copy
  bits of \<open>yx\<close>.
\<close>

definition flags_are ::
  "'a::len word \<Rightarrow> bool \<Rightarrow> bool \<Rightarrow> bool \<Rightarrow> bool \<Rightarrow> u8 \<Rightarrow> machine \<Rightarrow> bool" where
  "flags_are r half over neg carry yx m \<longleftrightarrow>
     (getFlag FLAG_S m = 1 \<longleftrightarrow> sint r < 0) \<and>
     (getFlag FLAG_Z m = 1 \<longleftrightarrow> r = 0) \<and>
     (getFlag FLAG_H m = 1 \<longleftrightarrow> half) \<and>
     (getFlag FLAG_PV m = 1 \<longleftrightarrow> over) \<and>
     (getFlag FLAG_N m = 1 \<longleftrightarrow> neg) \<and>
     (getFlag FLAG_C m = 1 \<longleftrightarrow> carry) \<and>
     (getFlag FLAG_Y m = 1 \<longleftrightarrow> bit yx 5) \<and>
     (getFlag FLAG_X m = 1 \<longleftrightarrow> bit yx 3)"

section \<open>Correctness of the operations\<close>

lemmas alu_flag_simps = flags_are_def getFlag_bit exec_def Let_def flag_bits sint_neg_iff
  u8_mask_bits u16_mask_bits u32_mask_bits bit_xor_iff bit_and_iff bit_not_iff

lemma adc8_flags:
  fixes a b :: u8 and m :: machine
  defines "c \<equiv> getFlag FLAG_C m"
  shows "flags_are (a + b + c) (16 \<le> unat a mod 16 + unat b mod 16 + unat c)
      (sint a + sint b + int (unat c) \<notin> {- 128..<128})
      False (256 \<le> unat a + unat b + unat c) (a + b + c) (exec (adc8 a b) m)"
proof -
  have c1: "unat c \<le> 1" unfolding c_def by (rule getFlag_le_1)
  have r: "(ucast (ucast a + ucast b + ucast c :: u16) :: u8) = a + b + c"
    by (simp add: ucast_down_arith)
  show ?thesis
    using signed_add_overflow [of c a b] c1 carry_up [where 'b = 16, of c a b]
      bit_word_add_carry [of 4 c a b]
    by (simp add: adc8_def alu_flag_simps r flip: c_def) blast+
qed

lemma sbc8_flags:
  fixes a b :: u8 and m :: machine
  defines "c \<equiv> getFlag FLAG_C m"
  shows "flags_are (a - b - c) (unat a mod 16 < unat b mod 16 + unat c)
      (sint a - sint b - int (unat c) \<notin> {- 128..<128})
      True (unat a < unat b + unat c) (a - b - c) (exec (sbc8 a b) m)"
proof -
  have c1: "unat c \<le> 1" unfolding c_def by (rule getFlag_le_1)
  have r: "(ucast (ucast a - ucast b - ucast c :: u16) :: u8) = a - b - c"
    by (simp add: ucast_down_arith)
  show ?thesis
    using signed_sub_overflow [of c a b] c1 borrow_up [where 'b = 16, of c a b]
      bit_word_sub_borrow [of 4 c a b]
    by (simp add: sbc8_def alu_flag_simps r flip: c_def) blast+
qed

lemma add8_flags:
  "flags_are (a + b) (16 \<le> unat a mod 16 + unat b mod 16)
      (sint a + sint b \<notin> {- 128..<128}) False (256 \<le> unat a + unat b) (a + b) (exec (add8 a b) m)"
  using signed_add_overflow [of 0 a b] carry_up [where 'b = 16, of 0 a b]
      bit_word_add_carry [of 4 0 a b]
  by (simp add: add8_def alu_flag_simps ucast_down_arith) blast+

lemma sub8_flags:
  "flags_are (a - b) (unat a mod 16 < unat b mod 16)
      (sint a - sint b \<notin> {- 128..<128}) True (unat a < unat b) (a - b) (exec (sub8 a b) m)"
  using signed_sub_overflow [of 0 a b] borrow_up [where 'b = 16, of 0 a b]
      bit_word_sub_borrow [of 4 0 a b]
  by (simp add: sub8_def alu_flag_simps ucast_down_arith) blast+

lemma cp8_flags:
  "flags_are (a - b) (unat a mod 16 < unat b mod 16)
      (sint a - sint b \<notin> {- 128..<128}) True (unat a < unat b) b (exec (cp8 a b) m)"
  using signed_sub_overflow [of 0 a b] borrow_up [where 'b = 16, of 0 a b]
      bit_word_sub_borrow [of 4 0 a b]
  by (simp add: cp8_def alu_flag_simps ucast_down_arith) blast+

lemma sint_u8_range: "- 128 \<le> sint (a :: u8)" "sint a < 128"
  using sint_greater_eq [of a] sint_less [of a] by simp_all

lemma inc8_flags:
  "flags_are (a + 1) (unat a mod 16 = 15) (sint a + 1 \<notin> {- 128..<128}) False
     (getFlag FLAG_C m = 1) (a + 1) (exec (inc8 a) m)"
proof -
  have "a = 0x7F \<longleftrightarrow> sint a = 127"
    using signed_word_eqI [of a "0x7F"] by auto
  then have "(sint a + 1 \<notin> {- 128..<128}) \<longleftrightarrow> a = 0x7F"
    using sint_u8_range [of a] by auto
  moreover have "16 \<le> Suc (unat a mod 16) \<longleftrightarrow> unat a mod 16 = 15" by arith
  ultimately show ?thesis
    using bit_word_add_carry [of 4 0 a 1]
    by (simp add: inc8_def alu_flag_simps ucast_down_arith) blast+
qed

lemma dec8_flags:
  "flags_are (a - 1) (unat a mod 16 = 0) (sint a - 1 \<notin> {- 128..<128}) True
     (getFlag FLAG_C m = 1) (a - 1) (exec (dec8 a) m)"
proof -
  have "a = 0x80 \<longleftrightarrow> sint a = - 128"
    using signed_word_eqI [of a "0x80"] by auto
  then have "(sint a - 1 \<notin> {- 128..<128}) \<longleftrightarrow> a = 0x80"
    using sint_u8_range [of a] by auto
  then show ?thesis
    using bit_word_sub_borrow [of 4 0 a 1]
    by (simp add: dec8_def alu_flag_simps ucast_down_arith) blast+
qed

lemmas run_only = State_Monad.run_state_bind run_modify run_gets State_Monad.run_state_return
  prod.case fst_conv snd_conv Let_def eval_def exec_def

text \<open>The flag updates shared by the logical operations and by the rotates and shifts.\<close>

lemma logic_flags_core:
  "flags_are r h (\<not> builtin_parity r) False False r
     (update_flagsYX r (setFlag (if h then FLAG_N OR FLAG_C else FLAG_N OR FLAG_H OR FLAG_C) False
       (merge_flags (FLAG_S OR FLAG_Z OR FLAG_PV)
         (fl (r AND 0x80 \<noteq> 0) FLAG_S OR fl (r = 0) FLAG_Z OR fl h FLAG_H
          OR fl (\<not> builtin_parity r) FLAG_PV) m)))"
  by (cases h) (simp_all add: alu_flag_simps)

lemma logic_flags:
  "flags_are (a AND b) True (\<not> builtin_parity (a AND b)) False False (a AND b) (exec (and8 a b) m)"
  "flags_are (a OR b) False (\<not> builtin_parity (a OR b)) False False (a OR b) (exec (or8 a b) m)"
  "flags_are (a XOR b) False (\<not> builtin_parity (a XOR b)) False False (a XOR b) (exec (xor8 a b) m)"
  using logic_flags_core [of "a AND b" True m] logic_flags_core [of "a OR b" False m]
    logic_flags_core [of "a XOR b" False m]
  by (simp_all only: and8_def or8_def xor8_def run_only if_True if_False
      or.right_neutral or.left_neutral)

lemma rotate_flags_core:
  "flags_are r False (\<not> builtin_parity r) False c r
     (update_flagsYX r (setFlag FLAG_C c (setFlag (FLAG_N OR FLAG_H) False
       (merge_flags (FLAG_S OR FLAG_Z OR FLAG_PV)
         (fl (r AND 0x80 \<noteq> 0) FLAG_S OR fl (r = 0) FLAG_Z
          OR fl (\<not> builtin_parity r) FLAG_PV) m))))"
  by (simp add: alu_flag_simps)

text \<open>Every rotate or shift moves the outgoing bit to the carry and reports sign, zero, parity.\<close>

definition shift_ok :: "u8 z80 \<Rightarrow> bool \<Rightarrow> machine \<Rightarrow> bool" where
  "shift_ok f c m \<longleftrightarrow>
     flags_are (eval f m) False (\<not> builtin_parity (eval f m)) False c (eval f m) (exec f m)"

lemma shift_left_ok:
  "shift_ok (rlc8 a) (a AND 0x80 \<noteq> 0) m" "shift_ok (rl8 a) (a AND 0x80 \<noteq> 0) m"
  "shift_ok (sla8 a) (a AND 0x80 \<noteq> 0) m" "shift_ok (sll8 a) (a AND 0x80 \<noteq> 0) m"
  by (simp_all only: shift_ok_def rlc8_def rl8_def sla8_def sll8_def run_only rotate_flags_core)

lemma shift_right_ok:
  "shift_ok (rrc8 a) (a AND 0x01 \<noteq> 0) m" "shift_ok (rr8 a) (a AND 0x01 \<noteq> 0) m"
  "shift_ok (sra8 a) (a AND 0x01 \<noteq> 0) m" "shift_ok (srl8 a) (a AND 0x01 \<noteq> 0) m"
  by (simp_all only: shift_ok_def rrc8_def rr8_def sra8_def srl8_def run_only rotate_flags_core)

lemma bit_getFlag: "bit (getFlag f m) n \<longleftrightarrow> n = 0 \<and> getFlag f m = 1"
  by (simp add: getFlag_def bit_1_iff)

lemma shift_results:
  "bit (eval (rlc8 a) m) n \<longleftrightarrow> n < 8 \<and> bit a (if n = 0 then 7 else n - 1)"
  "bit (eval (rl8 a) m) n \<longleftrightarrow> n < 8 \<and> (if n = 0 then getFlag FLAG_C m = 1 else bit a (n - 1))"
  "bit (eval (sla8 a) m) n \<longleftrightarrow> n < 8 \<and> n \<noteq> 0 \<and> bit a (n - 1)"
  "bit (eval (sll8 a) m) n \<longleftrightarrow> n < 8 \<and> (n = 0 \<or> bit a (n - 1))"
  "bit (eval (rrc8 a) m) n \<longleftrightarrow> n < 8 \<and> bit a (if n = 7 then 0 else n + 1)"
  "bit (eval (rr8 a) m) n \<longleftrightarrow> n < 8 \<and> (if n = 7 then getFlag FLAG_C m = 1 else bit a (n + 1))"
  "bit (eval (sra8 a) m) n \<longleftrightarrow> n < 8 \<and> bit a (if n = 7 then 7 else n + 1)"
  "bit (eval (srl8 a) m) n \<longleftrightarrow> n < 7 \<and> bit a (n + 1)"
  by (auto simp: eval_def rlc8_def rl8_def sla8_def sll8_def rrc8_def rr8_def sra8_def srl8_def
      Let_def bit_simps bit_getFlag bit_times_2 dest: bit_imp_le_length)

lemma add16_flags:
  fixes a b :: u16 and m :: machine
  defines "m' \<equiv> exec (add16 a b) m"
  shows "getFlag FLAG_H m' = 1 \<longleftrightarrow> 4096 \<le> unat a mod 4096 + unat b mod 4096"
    and "getFlag FLAG_C m' = 1 \<longleftrightarrow> 65536 \<le> unat a + unat b"
    and "getFlag FLAG_N m' \<noteq> 1"
    and "getFlag FLAG_S m' = 1 \<longleftrightarrow> getFlag FLAG_S m = 1"
    and "getFlag FLAG_Z m' = 1 \<longleftrightarrow> getFlag FLAG_Z m = 1"
    and "getFlag FLAG_PV m' = 1 \<longleftrightarrow> getFlag FLAG_PV m = 1"
  using carry_up [where 'b = 32, of 0 a b] bit_word_add_carry [of 12 0 a b]
  by (simp_all add: m'_def add16_def alu_flag_simps ucast_down_arith, blast+)

lemma ucast_drop_8: "(ucast (drop_bit 8 x) :: u8) = GET_HIGH x"
  by (rule bit_word_eqI) (auto simp: bit_GET_HIGH bit_simps add.commute)

lemma ucast_u8_u32: "(ucast (c :: u8) :: u32) = ucast (ucast c :: u16)"
  by (rule bit_word_eqI) (auto simp: bit_ucast_iff dest: bit_imp_le_length)

lemma getFlag_u16_le_1: "unat (ucast (getFlag f m) :: u16) \<le> 1"
  using getFlag_le_1 [of f m] by (simp add: unat_ucast_up)

lemma sbc16_flags:
  fixes a b :: u16 and m :: machine
  defines "c \<equiv> getFlag FLAG_C m"
  shows "flags_are (a - b - ucast c) (unat a mod 4096 < unat b mod 4096 + unat c)
      (sint a - sint b - int (unat c) \<notin> {- 32768..<32768})
      True (unat a < unat b + unat c) (GET_HIGH (a - b - ucast c)) (exec (sbc16 a b) m)"
proof -
  have c1: "unat (ucast c :: u16) \<le> 1" unfolding c_def by (rule getFlag_u16_le_1)
  have r: "(ucast (ucast a - ucast b - ucast (ucast c :: u16) :: u32) :: u16) = a - b - ucast c"
    by (simp add: ucast_down_arith)
  show ?thesis
    using signed_sub_overflow [of "ucast c" a b] c1 borrow_up [where 'b = 32, of "ucast c" a b]
      bit_word_sub_borrow [of 12 "ucast c" a b]
    by (simp add: sbc16_def alu_flag_simps r ucast_drop_8 ucast_u8_u32 unat_ucast_up flip: c_def) blast+
qed

text \<open>
  \<open>adc16\<close> computes its overflow flag with the formula for subtraction; every other flag is
  that of the addition.
\<close>

lemma adc16_flags:
  fixes a b :: u16 and m :: machine
  defines "c \<equiv> getFlag FLAG_C m"
  shows "flags_are (a + b + ucast c) (4096 \<le> unat a mod 4096 + unat b mod 4096 + unat c)
      (bit a 15 \<noteq> bit b 15 \<and> bit a 15 \<noteq> bit (a + b + ucast c) 15)
      False (65536 \<le> unat a + unat b + unat c) (GET_HIGH (a + b + ucast c)) (exec (adc16 a b) m)"
proof -
  have c1: "unat (ucast c :: u16) \<le> 1" unfolding c_def by (rule getFlag_u16_le_1)
  have r: "(ucast (ucast a + ucast b + ucast (ucast c :: u16) :: u32) :: u16) = a + b + ucast c"
    by (simp add: ucast_down_arith)
  show ?thesis
    using c1 carry_up [where 'b = 32, of "ucast c" a b] bit_word_add_carry [of 12 "ucast c" a b]
    by (simp add: adc16_def alu_flag_simps r ucast_drop_8 ucast_u8_u32 unat_ucast_up flip: c_def) blast+
qed

text \<open>The values the operations return.\<close>

lemma alu_results:
  "eval (add8 a b) m = a + b" "eval (sub8 a b) m = a - b"
  "eval (adc8 a b) m = a + b + getFlag FLAG_C m" "eval (sbc8 a b) m = a - b - getFlag FLAG_C m"
  "eval (and8 a b) m = a AND b" "eval (or8 a b) m = a OR b" "eval (xor8 a b) m = a XOR b"
  "eval (inc8 a) m = a + 1" "eval (dec8 a) m = a - 1"
  by (simp_all add: eval_def Let_def ucast_down_arith add8_def sub8_def adc8_def sbc8_def and8_def
      or8_def xor8_def inc8_def dec8_def)

lemma alu16_results:
  "eval (add16 x y) m = x + y"
  "eval (adc16 x y) m = x + y + ucast (getFlag FLAG_C m)"
  "eval (sbc16 x y) m = x - y - ucast (getFlag FLAG_C m)"
  by (simp_all add: eval_def Let_def ucast_down_arith ucast_u8_u32 add16_def adc16_def sbc16_def)

text \<open>The ALU writes nothing but the flag register.\<close>

definition only_flags :: "(machine, 'a) state \<Rightarrow> bool" where
  "only_flags f \<longleftrightarrow> (\<forall>m. \<exists>F. exec f m = m\<lparr>flags := F\<rparr>)"

lemma only_flags_modify:
  "only_flags (modify (merge_flags k f))" "only_flags (modify (setFlag k v))"
  "only_flags (modify (update_flagsYX r))"
  by (auto simp: only_flags_def exec_def merge_flags_def setFlag_def update_flagsYX_def Let_def)

lemma only_flags_bind:
  assumes "only_flags f" "\<And>x. only_flags (g x)"
  shows "only_flags (State_Monad.bind f g)"
proof -
  have "exec (State_Monad.bind f g) m = exec (g (eval f m)) (exec f m)" for m
    by (simp add: exec_def eval_def split: prod.split)
  moreover have "\<exists>F. exec (g x) (exec f m) = m\<lparr>flags := F\<rparr>" for x m
  proof -
    obtain F1 where 1: "exec f m = m\<lparr>flags := F1\<rparr>"
      using assms(1) by (auto simp: only_flags_def)
    obtain F2 where "exec (g x) (m\<lparr>flags := F1\<rparr>) = m\<lparr>flags := F1\<rparr>\<lparr>flags := F2\<rparr>"
      using assms(2) [of x] unfolding only_flags_def by blast
    with 1 have "exec (g x) (exec f m) = m\<lparr>flags := F2\<rparr>" by simp
    then show ?thesis ..
  qed
  ultimately show ?thesis by (simp add: only_flags_def)
qed

lemma only_flags_pure: "only_flags (ret x)" "only_flags (gets h)"
proof -
  have "\<exists>F. m = m\<lparr>flags := F\<rparr>" for m :: machine
    by (rule exI [of _ "flags m"]) simp
  then show "only_flags (ret x)" "only_flags (gets h)"
    by (simp_all add: only_flags_def exec_def)
qed

lemma only_flags_if: "only_flags f \<Longrightarrow> only_flags g \<Longrightarrow> only_flags (if b then f else g)"
  by simp

lemmas only_flags_intros = only_flags_bind only_flags_pure only_flags_modify

lemma alu_only_flags:
  "only_flags (add8 a b)" "only_flags (adc8 a b)" "only_flags (sub8 a b)" "only_flags (sbc8 a b)"
  "only_flags (cp8 a b)" "only_flags (and8 a b)" "only_flags (or8 a b)" "only_flags (xor8 a b)"
  "only_flags (inc8 a)" "only_flags (dec8 a)" "only_flags (add16 x y)" "only_flags (adc16 x y)"
  "only_flags (sbc16 x y)" "only_flags (rlc8 a)" "only_flags (rl8 a)" "only_flags (rrc8 a)"
  "only_flags (rr8 a)" "only_flags (sla8 a)" "only_flags (sll8 a)" "only_flags (sra8 a)"
  "only_flags (srl8 a)"
  unfolding add8_def adc8_def sub8_def sbc8_def cp8_def and8_def or8_def xor8_def inc8_def dec8_def
    add16_def adc16_def sbc16_def rlc8_def rl8_def rrc8_def rr8_def sla8_def sll8_def sra8_def
    srl8_def Let_def
  by (intro only_flags_intros)+

lemma bit8_only_flags: "only_flags (bit8 a n)"
proof -
  have "only_flags (modify (\<lambda>m. m\<lparr>flags := flags m AND k\<rparr>))" for k
    by (auto simp: only_flags_def exec_def)
  then show ?thesis
    unfolding bit8_def Let_def
    by (intro only_flags_intros only_flags_if) (use only_flags_modify in simp_all)
qed

lemma bit8_flags:
  assumes "n < 8"
  shows "getFlag FLAG_Z (exec (bit8 a n) m) = 1 \<longleftrightarrow> \<not> bit a n"
    and "getFlag FLAG_PV (exec (bit8 a n) m) = 1 \<longleftrightarrow> \<not> bit a n"
    and "getFlag FLAG_H (exec (bit8 a n) m) = 1" and "getFlag FLAG_N (exec (bit8 a n) m) \<noteq> 1"
    and "getFlag FLAG_C (exec (bit8 a n) m) = 1 \<longleftrightarrow> getFlag FLAG_C m = 1"
  using and_mask_eq_0_iff [of n a] assms
  by (simp_all add: bit8_def alu_flag_simps)

lemma bit_res8: "n < 8 \<Longrightarrow> bit (res8 a n) k \<longleftrightarrow> bit a k \<and> k \<noteq> n"
  by (auto simp: res8_def bit_simps dest: bit_imp_le_length)

lemma bit_set8: "n < 8 \<Longrightarrow> bit (set8 a n) k \<longleftrightarrow> bit a k \<or> k = n"
  by (auto simp: set8_def bit_simps dest: bit_imp_le_length)

section \<open>Properties\<close>

text \<open>
  C3: Addition. \<open>add8\<close> and \<open>adc8\<close> return the 8-bit sum (with the incoming carry), write no
  state but the flags, and set every flag to its meaning: carry iff the unsigned sum reaches 256,
  half carry iff the low nibbles sum to 16 or more, overflow iff the signed sum leaves
  \<open>[-128, 128)\<close>, sign and zero of the result, subtract cleared.
\<close>

theorem alu_addition:
  "eval (add8 a b) m = a + b \<and> only_flags (add8 a b) \<and>
   flags_are (a + b) (16 \<le> unat a mod 16 + unat b mod 16) (sint a + sint b \<notin> {- 128..<128})
     False (256 \<le> unat a + unat b) (a + b) (exec (add8 a b) m) \<and>
   (let c = getFlag FLAG_C m; r = a + b + c in
     eval (adc8 a b) m = r \<and> only_flags (adc8 a b) \<and>
     flags_are r (16 \<le> unat a mod 16 + unat b mod 16 + unat c)
       (sint a + sint b + int (unat c) \<notin> {- 128..<128})
       False (256 \<le> unat a + unat b + unat c) r (exec (adc8 a b) m))"
  unfolding Let_def by (intro conjI alu_results alu_only_flags add8_flags adc8_flags)

text \<open>
  C4: Subtraction and comparison. \<open>sub8\<close>, \<open>sbc8\<close> return the 8-bit difference; carry is the
  unsigned borrow, half carry the borrow of the low nibble, overflow the signed one; \<open>cp8\<close> sets
  the flags of \<open>sub8\<close> (with the undocumented bits of the operand) and changes nothing else.
\<close>

theorem alu_subtraction:
  "eval (sub8 a b) m = a - b \<and> only_flags (sub8 a b) \<and>
   flags_are (a - b) (unat a mod 16 < unat b mod 16) (sint a - sint b \<notin> {- 128..<128})
     True (unat a < unat b) (a - b) (exec (sub8 a b) m) \<and>
   only_flags (cp8 a b) \<and>
   flags_are (a - b) (unat a mod 16 < unat b mod 16) (sint a - sint b \<notin> {- 128..<128})
     True (unat a < unat b) b (exec (cp8 a b) m) \<and>
   (let c = getFlag FLAG_C m; r = a - b - c in
     eval (sbc8 a b) m = r \<and> only_flags (sbc8 a b) \<and>
     flags_are r (unat a mod 16 < unat b mod 16 + unat c)
       (sint a - sint b - int (unat c) \<notin> {- 128..<128})
       True (unat a < unat b + unat c) r (exec (sbc8 a b) m))"
  unfolding Let_def by (intro conjI alu_results alu_only_flags sub8_flags cp8_flags sbc8_flags)

text \<open>
  C5: Rotates and shifts. Each of the eight operations moves every bit one place, fills the
  vacated bit as its name says (the bit that left, the old carry, zero, one, the sign), moves the
  bit that left into the carry, sets sign, zero and parity of the result, and writes nothing but
  the flags.
\<close>

theorem alu_shifts:
  "(bit (eval (rlc8 a) m) n \<longleftrightarrow> n < 8 \<and> bit a (if n = 0 then 7 else n - 1)) \<and>
   (bit (eval (rl8 a) m) n \<longleftrightarrow> n < 8 \<and> (if n = 0 then getFlag FLAG_C m = 1 else bit a (n - 1))) \<and>
   (bit (eval (sla8 a) m) n \<longleftrightarrow> n < 8 \<and> n \<noteq> 0 \<and> bit a (n - 1)) \<and>
   (bit (eval (sll8 a) m) n \<longleftrightarrow> n < 8 \<and> (n = 0 \<or> bit a (n - 1))) \<and>
   (bit (eval (rrc8 a) m) n \<longleftrightarrow> n < 8 \<and> bit a (if n = 7 then 0 else n + 1)) \<and>
   (bit (eval (rr8 a) m) n \<longleftrightarrow> n < 8 \<and> (if n = 7 then getFlag FLAG_C m = 1 else bit a (n + 1))) \<and>
   (bit (eval (sra8 a) m) n \<longleftrightarrow> n < 8 \<and> bit a (if n = 7 then 7 else n + 1)) \<and>
   (bit (eval (srl8 a) m) n \<longleftrightarrow> n < 7 \<and> bit a (n + 1)) \<and>
   list_all (\<lambda>f. only_flags f \<and> shift_ok f (a AND 0x80 \<noteq> 0) m) [rlc8 a, rl8 a, sla8 a, sll8 a] \<and>
   list_all (\<lambda>f. only_flags f \<and> shift_ok f (a AND 0x01 \<noteq> 0) m) [rrc8 a, rr8 a, sra8 a, srl8 a]"
  unfolding list.pred_inject
  by (intro conjI shift_results alu_only_flags shift_left_ok shift_right_ok) simp_all

text \<open>
  C6: 16-bit subtraction and addition. \<open>sbc16\<close> returns the difference with borrow and sets
  every flag to its meaning at 16 bits; \<open>add16\<close> returns the sum, sets carry, half carry (from
  bit 11) and subtract, and keeps sign, zero and overflow.
\<close>

theorem alu_16bit:
  "let c = getFlag FLAG_C m; r = x - y - ucast c; m' = exec (add16 x y) m in
    eval (sbc16 x y) m = r \<and> only_flags (sbc16 x y) \<and>
    flags_are r (unat x mod 4096 < unat y mod 4096 + unat c)
      (sint x - sint y - int (unat c) \<notin> {- 32768..<32768})
      True (unat x < unat y + unat c) (GET_HIGH r) (exec (sbc16 x y) m) \<and>
    eval (add16 x y) m = x + y \<and> only_flags (add16 x y) \<and>
    (getFlag FLAG_H m' = 1 \<longleftrightarrow> 4096 \<le> unat x mod 4096 + unat y mod 4096) \<and>
    (getFlag FLAG_C m' = 1 \<longleftrightarrow> 65536 \<le> unat x + unat y) \<and>
    getFlag FLAG_N m' \<noteq> 1 \<and>
    (getFlag FLAG_S m' = 1 \<longleftrightarrow> getFlag FLAG_S m = 1) \<and>
    (getFlag FLAG_Z m' = 1 \<longleftrightarrow> getFlag FLAG_Z m = 1) \<and>
    (getFlag FLAG_PV m' = 1 \<longleftrightarrow> getFlag FLAG_PV m = 1)"
  unfolding Let_def by (intro conjI alu16_results alu_only_flags sbc16_flags add16_flags)

end
