(* ===== verification/Bemu_Devices.thy ===== *)
theory Bemu_Devices
  imports Bemu_Alu
begin

text \<open>
  The devices of \<^verbatim>\<open>bemu80.c\<close>: the floppy controller with its DMA transfers, the 6850 ACIA,
  the body of the input thread, and the port decoders. The disk image is the byte list of the
  host file; reading past its end is \<^verbatim>\<open>EOF\<close>, writing past its end extends the file with
  zeros, as the C standard library does. Host I/O errors are not modelled: \<^verbatim>\<open>fseek\<close> to a
  non-negative offset and \<^verbatim>\<open>fputc\<close> succeed.
\<close>

section \<open>Floppy controller\<close>

definition FDC_CMD_READ :: u8 where "FDC_CMD_READ = 0x01"
definition FDC_CMD_WRITE :: u8 where "FDC_CMD_WRITE = 0x02"
definition FDC_STATUS_OK :: u8 where "FDC_STATUS_OK = 0x00"
definition FDC_STATUS_ERR :: u8 where "FDC_STATUS_ERR = 0x01"
definition FDC_STATUS_BUSY :: u8 where "FDC_STATUS_BUSY = 0x02"

definition FDC_SECTOR_SIZE :: nat where "FDC_SECTOR_SIZE = 512"

definition fdc_init :: "u8 list option \<Rightarrow> FDC_t option" where
  "fdc_init file =
     (case file of None \<Rightarrow> None
      | Some img \<Rightarrow> Some \<lparr>fdc_status = FDC_STATUS_OK, fdc_count = 0, lba = 0, dma = 0, disk = Some img\<rparr>)"

definition fdc_close :: "FDC_t \<Rightarrow> FDC_t" where
  "fdc_close f = f\<lparr>disk := None, fdc_status := FDC_STATUS_OK\<rparr>"

text \<open>\<^verbatim>\<open>fputc\<close> at a file position.\<close>

definition fputc_at :: "nat \<Rightarrow> u8 \<Rightarrow> u8 list \<Rightarrow> u8 list" where
  "fputc_at pos v img =
     (if pos < length img then img[pos := v] else img @ replicate (pos - length img) 0 @ [v])"

text \<open>The inner loops over one sector; \<open>i\<close> is the loop counter.\<close>

fun fdc_read_loop :: "nat \<Rightarrow> u16 \<Rightarrow> u8 list \<Rightarrow> machine \<Rightarrow> machine" where
  "fdc_read_loop i cur_dma [] m = m"
| "fdc_read_loop i cur_dma (data # rest) m =
     (if i < FDC_SECTOR_SIZE
      then fdc_read_loop (Suc i) cur_dma rest (mwrite8 (cur_dma + of_nat i) data m)
      else m)"

function fdc_write_loop :: "nat \<Rightarrow> u16 \<Rightarrow> nat \<Rightarrow> machine \<Rightarrow> u8 list \<Rightarrow> u8 list" where
  "fdc_write_loop i cur_dma pos m img =
     (if i < FDC_SECTOR_SIZE
      then fdc_write_loop (Suc i) cur_dma (Suc pos) m (fputc_at pos (mread8 (cur_dma + of_nat i) m) img)
      else img)"
  by pat_completeness auto
termination
  by (relation "measure (\<lambda>(i, _). FDC_SECTOR_SIZE - i)") auto

declare fdc_write_loop.simps [simp del]

definition fdc_sector :: "u8 \<Rightarrow> u16 \<Rightarrow> u16 \<Rightarrow> machine \<Rightarrow> machine" where
  "fdc_sector cmd cur_lba cur_dma m =
     (case disk (fdc m) of None \<Rightarrow> m
      | Some img \<Rightarrow>
        let offset = unat cur_lba * FDC_SECTOR_SIZE in
        if cmd = FDC_CMD_READ then fdc_read_loop 0 cur_dma (drop offset img) m
        else if cmd = FDC_CMD_WRITE
        then m\<lparr>fdc := (fdc m)\<lparr>disk := Some (fdc_write_loop 0 cur_dma offset m img)\<rparr>\<rparr>
        else m)"

fun fdc_loop :: "nat \<Rightarrow> u8 \<Rightarrow> u16 \<Rightarrow> u16 \<Rightarrow> machine \<Rightarrow> machine" where
  "fdc_loop 0 cmd cur_lba cur_dma m = m"
| "fdc_loop (Suc c) cmd cur_lba cur_dma m =
     fdc_loop c cmd (cur_lba + 1) (cur_dma + of_nat FDC_SECTOR_SIZE) (fdc_sector cmd cur_lba cur_dma m)"

definition fdc_cmd :: "u8 \<Rightarrow> machine \<Rightarrow> machine" where
  "fdc_cmd cmd m =
     (if disk (fdc m) = None then m\<lparr>fdc := (fdc m)\<lparr>fdc_status := FDC_STATUS_ERR\<rparr>\<rparr>
      else
        let cur_lba = lba (fdc m); cur_dma = dma (fdc m); cur_count = fdc_count (fdc m);
            m1 = m\<lparr>fdc := (fdc m)\<lparr>fdc_status := FDC_STATUS_BUSY, lba := 0, dma := 0, fdc_count := 0\<rparr>\<rparr>;
            m2 = fdc_loop (unat cur_count) cmd cur_lba cur_dma m1
        in m2\<lparr>fdc := (fdc m2)\<lparr>fdc_status := FDC_STATUS_OK\<rparr>\<rparr>)"

section \<open>ACIA and the input thread\<close>

definition ACIA_RDRF :: u8 where "ACIA_RDRF = 0x01"
definition ACIA_THRE :: u8 where "ACIA_THRE = 0x02"
definition ACIA_RIE :: u8 where "ACIA_RIE = 0x80"
definition ACIA_OVRN :: u8 where "ACIA_OVRN = 0x20"

definition ACIA_init :: ACIA_t where
  "ACIA_init = \<lparr>ctrl = 0, status = 2, transmit = 0, receive = 0\<rparr>"

definition ACIA_write_cmd :: "u8 \<Rightarrow> ACIA_t \<Rightarrow> ACIA_t" where
  "ACIA_write_cmd v a =
     (if v AND 0x03 = 0x03 then a\<lparr>ctrl := 0, status := ACIA_THRE\<rparr> else a\<lparr>ctrl := v\<rparr>)"

definition ACIA_write_data :: "u8 \<Rightarrow> machine \<Rightarrow> machine" where
  "ACIA_write_data v m =
     m\<lparr>acia := (acia m)\<lparr>transmit := v\<rparr>, out_chars := out_chars m @ [v]\<rparr>"

definition ACIA_read_data :: "ACIA_t \<Rightarrow> u8 \<times> ACIA_t" where
  "ACIA_read_data a =
     (receive a, a\<lparr>receive := 0, status := status a AND NOT (ACIA_RDRF OR ACIA_OVRN)\<rparr>)"

definition ACIA_read_status :: "ACIA_t \<Rightarrow> u8" where
  "ACIA_read_status a = status a"

text \<open>One character of \<^verbatim>\<open>input_thread\<close>, from \<^verbatim>\<open>getchar\<close> to the unlock.\<close>

definition input_char :: "u8 \<Rightarrow> machine \<Rightarrow> machine" where
  "input_char c m =
     (let ch = (if old_format m \<and> c = 10 then 13 else c);
          a = acia m;
          a1 = (if status a AND ACIA_RDRF \<noteq> 0 then a\<lparr>status := status a OR ACIA_OVRN\<rparr> else a);
          a2 = a1\<lparr>receive := ch, status := status a1 OR ACIA_RDRF\<rparr>;
          m1 = m\<lparr>acia := a2\<rparr>
      in if ctrl a2 AND ACIA_RIE \<noteq> 0 then m1\<lparr>interrupt_pending := True\<rparr> else m1)"

section \<open>Ports\<close>

definition output_handler :: "u8 \<Rightarrow> u8 \<Rightarrow> unit z80" where
  "output_handler port v =
     (if port = 0x10 then modify (fdc_cmd v)
      else if port = 0x11 then modify (\<lambda>m. m\<lparr>fdc := (fdc m)\<lparr>lba := set_low (lba (fdc m)) v\<rparr>\<rparr>)
      else if port = 0x12 then modify (\<lambda>m. m\<lparr>fdc := (fdc m)\<lparr>lba := set_high (lba (fdc m)) v\<rparr>\<rparr>)
      else if port = 0x13 then modify (\<lambda>m. m\<lparr>fdc := (fdc m)\<lparr>dma := set_low (dma (fdc m)) v\<rparr>\<rparr>)
      else if port = 0x14 then modify (\<lambda>m. m\<lparr>fdc := (fdc m)\<lparr>dma := set_high (dma (fdc m)) v\<rparr>\<rparr>)
      else if port = 0x16 then modify (\<lambda>m. m\<lparr>fdc := (fdc m)\<lparr>fdc_count := (if v \<noteq> 0 then v else 1)\<rparr>\<rparr>)
      else if port = 0x80 then modify (\<lambda>m. m\<lparr>acia := ACIA_write_cmd v (acia m)\<rparr>)
      else if port = 0x81 then modify (ACIA_write_data v)
      else ret ())"

definition input_handler :: "u8 \<Rightarrow> u8 z80" where
  "input_handler port =
     (if port = 0x81 then do {
        v \<leftarrow> gets (\<lambda>m. fst (ACIA_read_data (acia m)));
        modify (\<lambda>m. m\<lparr>acia := snd (ACIA_read_data (acia m))\<rparr>);
        ret v
      }
      else if port = 0x80 then gets (\<lambda>m. ACIA_read_status (acia m))
      else if port = 0x15 then gets (\<lambda>m. fdc_status (fdc m))
      else ret 0)"

end
