(* ===== verification/Bemu_Exec.thy ===== *)
theory Bemu_Exec
  imports Bemu_Devices
begin

text \<open>
  The instruction decoder of \<^verbatim>\<open>bemu80.c\<close>, from \<^verbatim>\<open>op_block_instruction\<close> to
  \<^verbatim>\<open>step\<close>. Every handler is a program of the state monad with the branches of the C
  \<^verbatim>\<open>switch\<close> in their order. The compound assignment \<^verbatim>\<open>cpu->pc += (int8_t)fByte(cpu)\<close>
  is evaluated with the call first (the order of the compilers the Makefile names), so the
  displacement is added to the address after the instruction.
\<close>

section \<open>Opcode fields\<close>

definition op_x :: "u8 \<Rightarrow> nat" where "op_x opcode = unat (drop_bit 6 opcode)"
definition op_y :: "u8 \<Rightarrow> nat" where "op_y opcode = unat (drop_bit 3 opcode AND 7)"
definition op_z :: "u8 \<Rightarrow> nat" where "op_z opcode = unat (opcode AND 7)"
definition op_p :: "u8 \<Rightarrow> nat" where "op_p opcode = op_y opcode div 2"
definition op_q :: "u8 \<Rightarrow> bool" where "op_q opcode = odd (op_y opcode)"

lemmas op_field_defs = op_x_def op_y_def op_z_def op_p_def op_q_def

definition get_reg :: "nat \<Rightarrow> u8 z80" where "get_reg k = gets (\<lambda>m. regs m k)"
definition put_reg :: "nat \<Rightarrow> u8 \<Rightarrow> unit z80" where "put_reg k v = modify (set_reg k v)"
definition jump_to :: "u16 \<Rightarrow> unit z80" where "jump_to a = modify (\<lambda>m. m\<lparr>pc := a\<rparr>)"
definition jump_rel :: "u8 \<Rightarrow> unit z80" where
  "jump_rel d = modify (\<lambda>m. m\<lparr>pc := pc m + scast d\<rparr>)"

section \<open>Block instructions\<close>

text \<open>\<^verbatim>\<open>if (d) dec16 else inc16\<close> on HL and DE.\<close>

definition step_hl :: "bool \<Rightarrow> unit z80" where
  "step_hl d = modify (\<lambda>m. set_hl (if d then dec16 (HL m) else inc16 (HL m)) m)"
definition step_de :: "bool \<Rightarrow> unit z80" where
  "step_de d = modify (\<lambda>m. set_de (if d then dec16 (DE m) else inc16 (DE m)) m)"

definition repeat_op :: "bool \<Rightarrow> unit z80" where
  "repeat_op b = (if b then do { modify (\<lambda>m. m\<lparr>pc := pc m - 2\<rparr>); add_cycles 5 } else ret ())"

definition op_block_instruction :: "u8 \<Rightarrow> unit z80" where
  "op_block_instruction opcode = do {
     let y = op_y opcode;
     let z = op_z opcode;
     let d = odd y;
     let r = odd (y div 2);
     (if z = 0 then do {
        modify (\<lambda>m. mwrite8 (DE m) (mread8 (HL m) m) m);
        step_hl d; step_de d;
        modify (\<lambda>m. set_bc (dec16 (BC m)) m);
        modify (\<lambda>m. setFlag FLAG_PV (BC m \<noteq> 0) m);
        bc \<leftarrow> gets BC;
        repeat_op (r \<and> bc \<noteq> 0);
        add_cycles 16
      }
      else if z = 1 then do {
        a \<leftarrow> get_reg REG_A;
        v \<leftarrow> gets (\<lambda>m. mread8 (HL m) m);
        cp8 a v;
        step_hl d;
        modify (\<lambda>m. set_bc (dec16 (BC m)) m);
        modify (\<lambda>m. setFlag FLAG_PV (BC m \<noteq> 0) m);
        bc \<leftarrow> gets BC;
        zf \<leftarrow> gets (getFlag FLAG_Z);
        repeat_op (r \<and> bc \<noteq> 0 \<and> zf = 0);
        add_cycles 16
      }
      else if z = 2 then do {
        bc \<leftarrow> gets BC;
        v \<leftarrow> input_handler (ucast bc);
        modify (\<lambda>m. mwrite8 (HL m) v m);
        step_hl d;
        b \<leftarrow> get_reg REG_B;
        b' \<leftarrow> dec8 b;
        put_reg REG_B b';
        repeat_op (r \<and> b' \<noteq> 0);
        add_cycles 16
      }
      else if z = 3 then do {
        bc \<leftarrow> gets BC;
        v \<leftarrow> gets (\<lambda>m. mread8 (HL m) m);
        output_handler (ucast bc) v;
        step_hl d;
        b \<leftarrow> get_reg REG_B;
        b' \<leftarrow> dec8 b;
        put_reg REG_B b';
        repeat_op (r \<and> b' \<noteq> 0);
        add_cycles 16
      }
      else ret ())
   }"

section \<open>Conditions\<close>

definition check_cond :: "u8 \<Rightarrow> nat \<Rightarrow> bool" where
  "check_cond f cond =
     (if cond = 0 then f AND FLAG_Z = 0
      else if cond = 1 then f AND FLAG_Z \<noteq> 0
      else if cond = 2 then f AND FLAG_C = 0
      else if cond = 3 then f AND FLAG_C \<noteq> 0
      else if cond = 4 then f AND FLAG_PV = 0
      else if cond = 5 then f AND FLAG_PV \<noteq> 0
      else if cond = 6 then f AND FLAG_S = 0
      else if cond = 7 then f AND FLAG_S \<noteq> 0
      else False)"

section \<open>Group x = 0\<close>

definition group_x0_z0 :: "nat \<Rightarrow> unit z80" where
  "group_x0_z0 y =
     (if 4 \<le> y then do {
        offset \<leftarrow> fByte;
        f \<leftarrow> gets flags;
        (if check_cond f (y - 4) then do { jump_rel offset; add_cycles 12 } else add_cycles 7)
      }
      else if y = 0 then add_cycles 4
      else if y = 1 then do { modify exchange_af; add_cycles 4 }
      else if y = 2 then do {
        b \<leftarrow> get_reg REG_B;
        put_reg REG_B (b - 1);
        reladdr \<leftarrow> fByte;
        add_cycles 8;
        (if b - 1 \<noteq> 0 then do { jump_rel reladdr; add_cycles 5 } else ret ())
      }
      else do { d \<leftarrow> fByte; jump_rel d; add_cycles 12 })"

definition group_x0_z2 :: "bool \<Rightarrow> nat \<Rightarrow> unit z80" where
  "group_x0_z2 q p =
     (if q then
        (if p = 0 then do { v \<leftarrow> gets (\<lambda>m. mread8 (BC m) m); put_reg REG_A v; add_cycles 7 }
         else if p = 1 then do { v \<leftarrow> gets (\<lambda>m. mread8 (DE m) m); put_reg REG_A v; add_cycles 7 }
         else if p = 2 then do {
           a \<leftarrow> fWord; v \<leftarrow> gets (mread16 a); modify (set_hl v); add_cycles 16 }
         else do { a \<leftarrow> fWord; v \<leftarrow> gets (mread8 a); put_reg REG_A v; add_cycles 13 })
      else
        (if p = 0 then do { modify (\<lambda>m. mwrite8 (BC m) (regs m REG_A) m); add_cycles 7 }
         else if p = 1 then do { modify (\<lambda>m. mwrite8 (DE m) (regs m REG_A) m); add_cycles 7 }
         else if p = 2 then do { a \<leftarrow> fWord; modify (\<lambda>m. mwrite16 a (HL m) m); add_cycles 16 }
         else do { a \<leftarrow> fWord; modify (\<lambda>m. mwrite8 a (regs m REG_A) m); add_cycles 13 }))"

text \<open>Rotates of the accumulator, complement and carry flag (z = 7).\<close>

definition group_x0_z7 :: "nat \<Rightarrow> unit z80" where
  "group_x0_z7 y = do {
     a \<leftarrow> get_reg REG_A;
     f \<leftarrow> gets flags;
     (if y = 0 then do {
        let result = (push_bit 1 (ucast a) OR drop_bit 7 (ucast a) :: u16);
        modify (setFlag FLAG_C (drop_bit 8 (result AND 0x100) \<noteq> 0));
        modify (setFlag (FLAG_N OR FLAG_H) False);
        put_reg REG_A (ucast (result AND 0xFF));
        modify (\<lambda>m. update_flagsYX (regs m REG_A) m)
      }
      else if y = 1 then do {
        let result = (drop_bit 1 (ucast a) OR push_bit 7 (ucast a) :: u16);
        modify (setFlag FLAG_C (a AND 0x01 \<noteq> 0));
        put_reg REG_A (ucast (result AND 0xFF));
        modify (\<lambda>m. update_flagsYX (regs m REG_A) m)
      }
      else if y = 2 then do {
        let result = (push_bit 1 (ucast a) OR ucast (f AND FLAG_C) :: u16);
        modify (setFlag FLAG_C (drop_bit 8 (result AND 0x100) \<noteq> 0));
        modify (setFlag (FLAG_N OR FLAG_H) False);
        put_reg REG_A (ucast (result AND 0xFF));
        modify (\<lambda>m. update_flagsYX (regs m REG_A) m)
      }
      else if y = 3 then do {
        let result = (drop_bit 1 (ucast a) OR push_bit 7 (ucast (f AND FLAG_C)) :: u16);
        modify (setFlag FLAG_C (a AND 0x01 \<noteq> 0));
        put_reg REG_A (ucast (result AND 0xFF));
        modify (\<lambda>m. update_flagsYX (regs m REG_A) m)
      }
      else if y = 4 then ret ()
      else if y = 5 then do {
        put_reg REG_A (NOT a);
        modify (setFlag (FLAG_N OR FLAG_H) True);
        modify (\<lambda>m. update_flagsYX (regs m REG_A) m)
      }
      else if y = 6 then do {
        modify (setFlag FLAG_C True);
        modify (setFlag (FLAG_N OR FLAG_H) False);
        modify (update_flagsYX a)
      }
      else do {
        modify (\<lambda>m. setFlag FLAG_H (getFlag FLAG_C m \<noteq> 0) m);
        modify (\<lambda>m. setFlag FLAG_C (getFlag FLAG_C m XOR 1 \<noteq> 0) m);
        modify (setFlag FLAG_N False);
        modify (update_flagsYX a)
      });
     add_cycles 4
   }"

definition group_x0 :: "u8 \<Rightarrow> unit z80" where
  "group_x0 opcode = do {
     let y = op_y opcode;
     let z = op_z opcode;
     let p = op_p opcode;
     let q = op_q opcode;
     (if z = 0 then group_x0_z0 y
      else if z = 1 then
        (if q then do {
           hl \<leftarrow> gets HL;
           rr \<leftarrow> gets (get_r16_1 p);
           v \<leftarrow> add16 hl rr;
           modify (set_hl v);
           add_cycles 11
         }
         else do { v \<leftarrow> fWord; modify (set_r16_1 p v); add_cycles 10 })
      else if z = 2 then group_x0_z2 q p
      else if z = 3 then do {
        (if q then modify (\<lambda>m. set_r16_1 p (dec16 (get_r16_1 p m)) m)
         else modify (\<lambda>m. set_r16_1 p (inc16 (get_r16_1 p m)) m));
        add_cycles 6
      }
      else if z = 4 then do {
        v \<leftarrow> get_r8 y; v' \<leftarrow> inc8 v; set_r8 y v';
        add_cycles (if y = 6 then 11 else 4)
      }
      else if z = 5 then do {
        v \<leftarrow> get_r8 y; v' \<leftarrow> dec8 v; set_r8 y v';
        add_cycles (if y = 6 then 11 else 4)
      }
      else if z = 6 then do {
        v \<leftarrow> fByte; set_r8 y v;
        add_cycles (if y = 6 then 10 else 7)
      }
      else group_x0_z7 y)
   }"

section \<open>Groups x = 1 and x = 2\<close>

definition op_load :: "u8 \<Rightarrow> unit z80" where
  "op_load opcode = do {
     let y = op_y opcode;
     let z = op_z opcode;
     (if y = 6 \<and> z = 6 then do { modify (\<lambda>m. m\<lparr>halt := True\<rparr>); add_cycles 4 }
      else do {
        v \<leftarrow> get_r8 z;
        set_r8 y v;
        add_cycles (if y = 6 then 7 else 4)
      })
   }"

text \<open>The eight accumulator operations \<^verbatim>\<open>switch (y)\<close>, shared by three handlers.\<close>

definition alu_switch :: "nat \<Rightarrow> u8 \<Rightarrow> unit z80" where
  "alu_switch y v = do {
     a \<leftarrow> get_reg REG_A;
     (if y = 0 then do { r \<leftarrow> add8 a v; put_reg REG_A r }
      else if y = 1 then do { r \<leftarrow> adc8 a v; put_reg REG_A r }
      else if y = 2 then do { r \<leftarrow> sub8 a v; put_reg REG_A r }
      else if y = 3 then do { r \<leftarrow> sbc8 a v; put_reg REG_A r }
      else if y = 4 then do { r \<leftarrow> and8 a v; put_reg REG_A r }
      else if y = 5 then do { r \<leftarrow> xor8 a v; put_reg REG_A r }
      else if y = 6 then do { r \<leftarrow> or8 a v; put_reg REG_A r }
      else cp8 a v)
   }"

definition op_alu :: "u8 \<Rightarrow> unit z80" where
  "op_alu opcode = do {
     let y = op_y opcode;
     let z = op_z opcode;
     v \<leftarrow> get_r8 z;
     alu_switch y v;
     add_cycles (if y = 6 then 7 else 4)
   }"

section \<open>Prefix CB\<close>

text \<open>The shift table of \<^verbatim>\<open>prefix_cb\<close>: entry 3, labelled RR, calls \<open>rl8\<close>.\<close>

definition cb_shift :: "nat \<Rightarrow> u8 \<Rightarrow> u8 z80" where
  "cb_shift y v =
     (if y = 0 then rlc8 v else if y = 1 then rrc8 v else if y = 2 then rl8 v
      else if y = 3 then rl8 v else if y = 4 then sla8 v else if y = 5 then sra8 v
      else if y = 6 then sll8 v else srl8 v)"

definition prefix_cb :: "unit z80" where
  "prefix_cb = do {
     opcode \<leftarrow> fByte;
     let x = op_x opcode;
     let y = op_y opcode;
     let z = op_z opcode;
     v \<leftarrow> get_r8 z;
     (if x = 0 then do { r \<leftarrow> cb_shift y v; set_r8 z r; add_cycles (if z = 6 then 15 else 8) }
      else if x = 1 then bit8 v y
      else if x = 2 then do { set_r8 z (res8 v y); add_cycles (if z = 6 then 15 else 8) }
      else do { set_r8 z (set8 v y); add_cycles (if z = 6 then 15 else 8) })
   }"

text \<open>
  In \<^verbatim>\<open>prefix_cb_index\<close> the write-back statements stand after the last \<^verbatim>\<open>break\<close> inside
  the \<^verbatim>\<open>switch\<close> and are never reached: the computed result is dropped and no cycles are
  counted, except for \<^verbatim>\<open>BIT\<close>.
\<close>

definition prefix_cb_index :: "index_ptr \<Rightarrow> unit z80" where
  "prefix_cb_index ip = do {
     base \<leftarrow> gets (get_idx ip);
     addr \<leftarrow> get_index_addr base;
     opcode \<leftarrow> fByte;
     let x = op_x opcode;
     let y = op_y opcode;
     v \<leftarrow> gets (mread8 addr);
     (if x = 0 then do { r \<leftarrow> cb_shift y v; ret () }
      else if x = 1 then do { bit8 v y; add_cycles 20 }
      else ret ())
   }"

section \<open>Prefix ED\<close>

definition im_modes :: "nat \<Rightarrow> u8" where
  "im_modes y = [0, 0, 1, 2, 0, 0, 1, 2] ! y"

text \<open>Sign, zero and parity of A, shared by RRD and RLD.\<close>

definition rotate_digit_flags :: "unit z80" where
  "rotate_digit_flags = do {
     a \<leftarrow> get_reg REG_A;
     let new_f = fl (a AND 0x80 \<noteq> 0) FLAG_S OR fl (a = 0) FLAG_Z OR fl (\<not> builtin_parity a) FLAG_PV;
     modify (merge_flags (FLAG_S OR FLAG_Z OR FLAG_PV) new_f);
     modify (setFlag (FLAG_N OR FLAG_H) False);
     modify (update_flagsYX a);
     add_cycles 18
   }"

definition ld_a_ir :: "u8 \<Rightarrow> unit z80" where
  "ld_a_ir v = do {
     put_reg REG_A v;
     modify (setFlag FLAG_S (v AND 0x80 \<noteq> 0));
     modify (setFlag FLAG_Z (v = 0));
     modify (setFlag (FLAG_N OR FLAG_H) False);
     modify (\<lambda>m. setFlag FLAG_PV (iff2 m) m);
     add_cycles 9
   }"

definition prefix_ed_z7 :: "nat \<Rightarrow> unit z80" where
  "prefix_ed_z7 y =
     (if y = 0 then do { modify (\<lambda>m. m\<lparr>i_reg := regs m REG_A\<rparr>); add_cycles 9 }
      else if y = 1 then do { modify (\<lambda>m. m\<lparr>r_reg := regs m REG_A\<rparr>); add_cycles 9 }
      else if y = 2 then do { v \<leftarrow> gets i_reg; ld_a_ir v }
      else if y = 3 then do { v \<leftarrow> gets r_reg; ld_a_ir v }
      else if y = 4 then do {
        temp1 \<leftarrow> gets (\<lambda>m. mread8 (HL m) m);
        temp_a \<leftarrow> get_reg REG_A;
        put_reg REG_A ((temp_a AND 0xF0) OR (temp1 AND 0x0F));
        modify (\<lambda>m. mwrite8 (HL m) (drop_bit 4 temp1 OR push_bit 4 (temp_a AND 0x0F)) m);
        rotate_digit_flags
      }
      else if y = 5 then do {
        temp1 \<leftarrow> gets (\<lambda>m. mread8 (HL m) m);
        temp_a \<leftarrow> get_reg REG_A;
        put_reg REG_A ((temp_a AND 0xF0) OR drop_bit 4 temp1);
        modify (\<lambda>m. mwrite8 (HL m) (push_bit 4 temp1 OR (temp_a AND 0x0F)) m);
        rotate_digit_flags
      }
      else add_cycles 8)"

definition prefix_ed :: "unit z80" where
  "prefix_ed = do {
     opcode \<leftarrow> fByte;
     let x = op_x opcode;
     let y = op_y opcode;
     let z = op_z opcode;
     let p = op_p opcode;
     let q = op_q opcode;
     (if x = 1 then
        (if z = 0 then do {
           (if y \<noteq> 6 then do { bc \<leftarrow> gets BC; v \<leftarrow> input_handler (ucast bc); set_r8 y v } else ret ());
           add_cycles 12
         }
         else if z = 1 then do {
           bc \<leftarrow> gets BC;
           (if y \<noteq> 6 then do { v \<leftarrow> get_r8 y; output_handler (ucast bc) v }
            else output_handler (ucast bc) 0);
           add_cycles 12
         }
         else if z = 2 then do {
           hl \<leftarrow> gets HL;
           rr \<leftarrow> gets (get_r16_1 p);
           v \<leftarrow> (if q then adc16 hl rr else sbc16 hl rr);
           modify (set_hl v);
           add_cycles 15
         }
         else if z = 3 then do {
           addr \<leftarrow> fWord;
           (if q then do { v \<leftarrow> gets (mread16 addr); modify (set_r16_1 p v) }
            else modify (\<lambda>m. mwrite16 addr (get_r16_1 p m) m));
           add_cycles 20
         }
         else if z = 4 then do {
           a \<leftarrow> get_reg REG_A;
           r \<leftarrow> sub8 0 a;
           put_reg REG_A r;
           add_cycles 8
         }
         else if z = 5 then do {
           a \<leftarrow> pop;
           jump_to a;
           (if y = 1 then ret () else modify (\<lambda>m. m\<lparr>iff1 := iff2 m\<rparr>));
           add_cycles 14
         }
         else if z = 6 then do { modify (\<lambda>m. m\<lparr>im := im_modes y\<rparr>); add_cycles 8 }
         else prefix_ed_z7 y)
      else if x = 2 \<and> z \<le> 3 \<and> 4 \<le> y then op_block_instruction opcode
      else ret ())
   }"

section \<open>Prefixes DD and FD\<close>

definition index_x0 :: "index_ptr \<Rightarrow> nat \<Rightarrow> nat \<Rightarrow> bool \<Rightarrow> nat \<Rightarrow> unit z80" where
  "index_x0 ip z p q y =
     (if z = 1 then
        (if q then do {
           i \<leftarrow> gets (get_idx ip);
           rr \<leftarrow> gets (get_r16_index p ip);
           v \<leftarrow> add16 i rr;
           modify (set_idx ip v);
           add_cycles 15
         }
         else if p = 2 then do { v \<leftarrow> fWord; modify (set_idx ip v); add_cycles 14 }
         else ret ())
      else if z = 2 then
        (if \<not> q \<and> p = 2 then do {
           a \<leftarrow> fWord; modify (\<lambda>m. mwrite16 a (get_idx ip m) m); add_cycles 20 }
         else if q \<and> p = 2 then do {
           a \<leftarrow> fWord; v \<leftarrow> gets (mread16 a); modify (set_idx ip v); add_cycles 20 }
         else ret ())
      else if z = 3 then do {
        (if q \<and> p = 2 then modify (\<lambda>m. set_idx ip (dec16 (get_idx ip m)) m)
         else if \<not> q \<and> p = 2 then modify (\<lambda>m. set_idx ip (inc16 (get_idx ip m)) m)
         else ret ());
        add_cycles 10
      }
      else if z = 4 \<or> z = 5 then do {
        (if y = 6 then do {
           base \<leftarrow> gets (get_idx ip);
           addr \<leftarrow> get_index_addr base;
           v \<leftarrow> gets (mread8 addr);
           r \<leftarrow> (if z = 4 then inc8 v else dec8 v);
           modify (mwrite8 addr r)
         }
         else do {
           v \<leftarrow> get_r8_index y ip;
           r \<leftarrow> (if z = 4 then inc8 v else dec8 v);
           set_r8_index y r ip
         });
        add_cycles (if y = 6 then 23 else 8)
      }
      else if z = 6 then do {
        (if y = 6 then do {
           base \<leftarrow> gets (get_idx ip);
           addr \<leftarrow> get_index_addr base;
           v \<leftarrow> fByte;
           modify (mwrite8 addr v)
         }
         else do { v \<leftarrow> fByte; set_r8_index y v ip });
        add_cycles (if y = 6 then 19 else 11)
      }
      else ret ())"

definition index_load :: "index_ptr \<Rightarrow> nat \<Rightarrow> nat \<Rightarrow> unit z80" where
  "index_load ip y z =
     (if y = 6 \<and> z = 6 then add_cycles 8
      else if y = 6 then do {
        base \<leftarrow> gets (get_idx ip);
        addr \<leftarrow> get_index_addr base;
        v \<leftarrow> get_r8 z;
        modify (mwrite8 addr v);
        add_cycles 19
      }
      else if z = 6 then do {
        base \<leftarrow> gets (get_idx ip);
        addr \<leftarrow> get_index_addr base;
        v \<leftarrow> gets (mread8 addr);
        set_r8 y v;
        add_cycles 19
      }
      else do {
        v \<leftarrow> get_r8_index z ip;
        set_r8_index y v ip;
        add_cycles 8
      })"

definition index_x3 :: "index_ptr \<Rightarrow> nat \<Rightarrow> nat \<Rightarrow> bool \<Rightarrow> nat \<Rightarrow> unit z80" where
  "index_x3 ip z p q y =
     (if z = 1 then
        (if \<not> q \<and> p = 2 then do { v \<leftarrow> pop; modify (set_idx ip v); add_cycles 14 }
         else if q \<and> p = 2 then do { v \<leftarrow> gets (get_idx ip); jump_to v; add_cycles 8 }
         else if q \<and> p = 3 then do { modify (\<lambda>m. m\<lparr>sp := get_idx ip m\<rparr>); add_cycles 10 }
         else ret ())
      else if z = 3 then
        (if y = 1 then prefix_cb_index ip
         else if y = 4 then do {
           modify (\<lambda>m. m\<lparr>wz := get_idx ip m\<rparr>);
           modify (\<lambda>m. set_idx ip (mread16 (sp m) m) m);
           modify (\<lambda>m. mwrite16 (sp m) (wz m) m);
           add_cycles 23
         }
         else ret ())
      else if z = 5 then
        (if \<not> q \<and> p = 2 then do { v \<leftarrow> gets (get_idx ip); push v; add_cycles 15 } else ret ())
      else ret ())"

definition prefix_dd_fd :: "index_ptr \<Rightarrow> unit z80" where
  "prefix_dd_fd ip = do {
     opcode \<leftarrow> fByte;
     let x = op_x opcode;
     let y = op_y opcode;
     let z = op_z opcode;
     let p = op_p opcode;
     let q = op_q opcode;
     (if x = 0 then index_x0 ip z p q y
      else if x = 1 then index_load ip y z
      else if x = 2 then do {
        v \<leftarrow> get_r8_index z ip;
        alu_switch y v;
        add_cycles (if z = 6 then 19 else 8)
      }
      else index_x3 ip z p q y)
   }"

section \<open>Group x = 3\<close>

definition group_x3_z1 :: "bool \<Rightarrow> nat \<Rightarrow> unit z80" where
  "group_x3_z1 q p =
     (if q then
        (if p = 0 then do { a \<leftarrow> pop; jump_to a; add_cycles 10 }
         else if p = 1 then do {
           modify (exchange REG_BC REG_BC True);
           modify (exchange REG_DE REG_DE True);
           modify (exchange REG_HL REG_HL True);
           add_cycles 4
         }
         else if p = 2 then do { a \<leftarrow> gets HL; jump_to a; add_cycles 4 }
         else do { modify (\<lambda>m. m\<lparr>sp := HL m\<rparr>); add_cycles 6 })
      else do { v \<leftarrow> pop; modify (set_r16_2 p v); add_cycles 10 })"

definition group_x3_z3 :: "nat \<Rightarrow> unit z80" where
  "group_x3_z3 y =
     (if y = 0 then do { a \<leftarrow> fWord; jump_to a; add_cycles 10 }
      else if y = 1 then prefix_cb
      else if y = 2 then do {
        port \<leftarrow> fByte; a \<leftarrow> get_reg REG_A; output_handler port a; add_cycles 11 }
      else if y = 3 then do {
        port \<leftarrow> fByte; v \<leftarrow> input_handler port; put_reg REG_A v; add_cycles 11 }
      else if y = 4 then do {
        modify (\<lambda>m. m\<lparr>wz := HL m\<rparr>);
        modify (\<lambda>m. set_hl (mread16 (sp m) m) m);
        modify (\<lambda>m. mwrite16 (sp m) (wz m) m);
        add_cycles 19
      }
      else if y = 5 then do { modify (exchange REG_DE REG_HL False); add_cycles 4 }
      else if y = 6 then do { modify (\<lambda>m. m\<lparr>iff1 := False, iff2 := False\<rparr>); add_cycles 4 }
      else do { modify (\<lambda>m. m\<lparr>iff1 := True, iff2 := True\<rparr>); add_cycles 4 })"

definition group_x3 :: "u8 \<Rightarrow> unit z80" where
  "group_x3 opcode = do {
     let y = op_y opcode;
     let z = op_z opcode;
     let p = op_p opcode;
     let q = op_q opcode;
     (if z = 0 then do {
        f \<leftarrow> gets flags;
        (if check_cond f y then do { a \<leftarrow> pop; jump_to a; add_cycles 11 } else add_cycles 5)
      }
      else if z = 1 then group_x3_z1 q p
      else if z = 2 then do {
        addr \<leftarrow> fWord;
        f \<leftarrow> gets flags;
        (if check_cond f y then jump_to addr else ret ());
        add_cycles 10
      }
      else if z = 3 then group_x3_z3 y
      else if z = 4 then do {
        addr \<leftarrow> fWord;
        f \<leftarrow> gets flags;
        (if check_cond f y then do {
           ra \<leftarrow> gets pc; push ra; jump_to addr; add_cycles 17 }
         else add_cycles 10)
      }
      else if z = 5 then
        (if q then
           (if p = 0 then do {
              addr \<leftarrow> fWord; ra \<leftarrow> gets pc; push ra; jump_to addr; add_cycles 17 }
            else if p = 1 then prefix_dd_fd IX
            else if p = 2 then prefix_ed
            else prefix_dd_fd IY)
         else do { v \<leftarrow> gets (get_r16_2 p); push v; add_cycles 11 })
      else if z = 6 then do {
        imm8 \<leftarrow> fByte;
        alu_switch y imm8;
        add_cycles 7
      }
      else do {
        ra \<leftarrow> gets pc;
        push ra;
        jump_to (of_nat (y * 8));
        add_cycles 11
      })
   }"

section \<open>Dispatch and step\<close>

definition dispatch :: "u8 \<Rightarrow> unit z80" where
  "dispatch opcode =
     (if op_x opcode = 0 then group_x0 opcode
      else if op_x opcode = 1 then op_load opcode
      else if op_x opcode = 2 then op_alu opcode
      else group_x3 opcode)"

definition step :: "u64 z80" where
  "step = do {
     opcode \<leftarrow> fByte;
     old_cycles \<leftarrow> gets cycles;
     modify (\<lambda>m. m\<lparr>r_reg := (r_reg m + 1) AND 0x7F\<rparr>);
     dispatch opcode;
     gets (\<lambda>m. cycles m - old_cycles)
   }"

text \<open>\<^verbatim>\<open>interrupt\<close>: only mode 1 is served.\<close>

definition interrupt :: "unit z80" where
  "interrupt = do {
     e \<leftarrow> gets iff1;
     mode \<leftarrow> gets im;
     (if e \<and> mode = 1 then do {
        modify (\<lambda>m. m\<lparr>iff1 := False, iff2 := False\<rparr>);
        ra \<leftarrow> gets pc;
        push ra;
        jump_to 0x0038
      }
      else ret ())
   }"

end
