(* ===== verification/Bemu_Frame.thy ===== *)
theory Bemu_Frame
  imports Bemu_Exec
begin

text \<open>
  Two contracts on the instruction set. \<open>machine_invariant\<close>: a predicate that the register,
  memory and port primitives keep is kept by every instruction and by the interrupt entry.
  \<open>machine_frame\<close>: a change of the state that the primitives neither see nor touch is neither
  seen nor touched by any instruction. Each handler is proved once inside the locales; the
  interpretations give that the ROM is never overwritten and that the byte after the allocated memory and the cells after
  \<^verbatim>\<open>regs[7]\<close> are neither read nor written.
\<close>

section \<open>Opcode fields are in range\<close>

lemma and_7_less: "unat (v AND 7 :: 'a::len word) < 8"
proof -
  have "v AND 7 \<le> 7" by (rule word_and_le1)
  then have "unat (v AND 7) \<le> unat (7 :: 'a word)" by (simp add: word_le_nat_alt)
  also have "\<dots> \<le> 7" by (metis of_nat_numeral unat_of_nat mod_less_eq_dividend)
  finally show ?thesis by simp
qed

lemma op_y_less [simp]: "op_y opcode < 8"
  by (simp add: op_y_def and_7_less)

lemma op_z_less [simp]: "op_z opcode < 8"
  by (simp add: op_z_def and_7_less)

lemma op_p_less [simp]: "op_p opcode < 4"
  using op_y_less [of opcode] by (simp add: op_p_def del: op_y_less)

definition set_shadow :: "nat \<Rightarrow> u8 \<Rightarrow> 'a VirtZ80_scheme \<Rightarrow> 'a VirtZ80_scheme" where
  "set_shadow k v c = c\<lparr>shadow_regs := (shadow_regs c)(k := v)\<rparr>"

lemma exchange_shadow_eq:
  "exchange p p True m =
     set_shadow (p + 1) (regs m (p + 1)) (set_shadow p (regs m p)
       (set_reg (p + 1) (shadow_regs m (p + 1)) (set_reg p (shadow_regs m p) m)))"
  by (simp add: exchange_def set_reg_def set_shadow_def)

lemma exchange_af_eq:
  "exchange_af m = set_shadow REG_A (regs m REG_A)
     ((set_af (mk16 (shadow_regs m REG_A) (shadow_flags m)) m)\<lparr>shadow_flags := flags m\<rparr>)"
  by (simp add: exchange_af_def set_shadow_def set_af_def set_reg_def AF_def)

lemma exchange_main_eq:
  "exchange p q False m =
     set_reg (q + 1) (regs m (p + 1)) (set_reg q (regs m p)
       (set_reg (p + 1) (regs m (q + 1)) (set_reg p (regs m q) m)))"
  by (simp add: exchange_def set_reg_def)

section \<open>Invariants of the instruction set\<close>

locale machine_invariant =
  fixes P :: "machine \<Rightarrow> bool"
  assumes inv_set_reg: "k < 8 \<Longrightarrow> P m \<Longrightarrow> P (set_reg k v m)"
    and inv_set_shadow: "k < 8 \<Longrightarrow> P m \<Longrightarrow> P (set_shadow k v m)"
    and inv_flags: "P m \<Longrightarrow> P (m\<lparr>flags := b\<rparr>)"
    and inv_shadow_flags: "P m \<Longrightarrow> P (m\<lparr>shadow_flags := b\<rparr>)"
    and inv_ix: "P m \<Longrightarrow> P (m\<lparr>ix := w\<rparr>)"
    and inv_iy: "P m \<Longrightarrow> P (m\<lparr>iy := w\<rparr>)"
    and inv_pc: "P m \<Longrightarrow> P (m\<lparr>pc := w\<rparr>)"
    and inv_sp: "P m \<Longrightarrow> P (m\<lparr>sp := w\<rparr>)"
    and inv_wz: "P m \<Longrightarrow> P (m\<lparr>wz := w\<rparr>)"
    and inv_i_reg: "P m \<Longrightarrow> P (m\<lparr>i_reg := b\<rparr>)"
    and inv_r_reg: "P m \<Longrightarrow> P (m\<lparr>r_reg := b\<rparr>)"
    and inv_im: "P m \<Longrightarrow> P (m\<lparr>im := b\<rparr>)"
    and inv_iff1: "P m \<Longrightarrow> P (m\<lparr>iff1 := t\<rparr>)"
    and inv_iff2: "P m \<Longrightarrow> P (m\<lparr>iff2 := t\<rparr>)"
    and inv_halt: "P m \<Longrightarrow> P (m\<lparr>halt := t\<rparr>)"
    and inv_cycles: "P m \<Longrightarrow> P (m\<lparr>cycles := n\<rparr>)"
    and inv_mwrite8: "P m \<Longrightarrow> P (mwrite8 a b m)"
    and inv_mwrite16: "P m \<Longrightarrow> P (mwrite16 a w m)"
    and inv_output: "preserves P (output_handler port b)"
    and inv_input: "preserves P (input_handler port)"
begin

lemmas inv_prims = inv_set_reg inv_set_shadow inv_flags inv_shadow_flags inv_ix inv_iy inv_pc
  inv_sp inv_wz inv_i_reg inv_r_reg inv_im inv_iff1 inv_iff2 inv_halt inv_cycles
  inv_mwrite8 inv_mwrite16

lemma inv_pairs:
  "P m \<Longrightarrow> P (set_af w m)" "P m \<Longrightarrow> P (set_bc w m)" "P m \<Longrightarrow> P (set_de w m)" "P m \<Longrightarrow> P (set_hl w m)"
  by (simp_all add: set_af_def set_bc_def set_de_def set_hl_def inv_prims)

lemma inv_set_idx: "P m \<Longrightarrow> P (set_idx p w m)"
  by (simp add: set_idx_def inv_prims split: index_ptr.split)

lemma inv_set_pair: "reg < 4 \<Longrightarrow> P m \<Longrightarrow> P (set_pair reg w m)"
  by (simp add: set_pair_def inv_prims)

lemma inv_r16:
  "reg < 4 \<Longrightarrow> P m \<Longrightarrow> P (set_r16_1 reg w m)"
  "reg < 4 \<Longrightarrow> P m \<Longrightarrow> P (set_r16_2 reg w m)"
  by (simp_all add: set_r16_1_def set_r16_2_def inv_prims inv_pairs inv_set_pair)

lemma inv_setFlag: "P m \<Longrightarrow> P (setFlag k t m)"
  by (simp add: setFlag_def inv_prims)

lemma inv_update_flagsYX: "P m \<Longrightarrow> P (update_flagsYX b m)"
  by (simp add: update_flagsYX_def inv_prims Let_def)

lemma inv_merge_flags: "P m \<Longrightarrow> P (merge_flags b c m)"
  by (simp add: merge_flags_def inv_prims)

lemma inv_exchange:
  "p < 7 \<Longrightarrow> P m \<Longrightarrow> P (exchange p p True m)"
  "p < 7 \<Longrightarrow> q < 7 \<Longrightarrow> P m \<Longrightarrow> P (exchange p q False m)"
  by (simp_all add: exchange_shadow_eq exchange_main_eq inv_prims)

lemma inv_exchange_af: "P m \<Longrightarrow> P (exchange_af m)"
  by (simp add: exchange_af_eq inv_prims inv_pairs)

lemmas inv_all = inv_prims inv_pairs inv_set_idx inv_set_pair inv_r16 inv_setFlag
  inv_update_flagsYX inv_merge_flags inv_exchange inv_exchange_af

lemma pres_modify: "(\<And>m. P m \<Longrightarrow> P (f m)) \<Longrightarrow> preserves P (modify f)"
  by (rule preserves_modify)

lemma pres_only_flags: "only_flags f \<Longrightarrow> preserves P f"
  unfolding only_flags_def preserves_def by (metis inv_flags)

lemma pres_alu:
  "preserves P (add8 a b)" "preserves P (adc8 a b)" "preserves P (sub8 a b)"
  "preserves P (sbc8 a b)" "preserves P (and8 a b)" "preserves P (xor8 a b)"
  "preserves P (or8 a b)" "preserves P (cp8 a b)" "preserves P (inc8 a)" "preserves P (dec8 a)"
  "preserves P (add16 v w)" "preserves P (adc16 v w)" "preserves P (sbc16 v w)"
  "preserves P (rlc8 a)" "preserves P (rl8 a)" "preserves P (rrc8 a)" "preserves P (rr8 a)"
  "preserves P (sla8 a)" "preserves P (sll8 a)" "preserves P (sra8 a)" "preserves P (srl8 a)"
  "preserves P (bit8 a n)"
  by (rule pres_only_flags, rule alu_only_flags bit8_only_flags)+

lemma pres_basic:
  "preserves P fByte" "preserves P fWord" "preserves P (push w)" "preserves P pop"
  "preserves P (add_cycles n)" "preserves P (get_r8 k)" "k < 8 \<Longrightarrow> preserves P (set_r8 k b)"
  "preserves P (get_index_addr w)" "preserves P (get_r8_index k ip)"
  "k < 8 \<Longrightarrow> preserves P (set_r8_index k b ip)"
  "preserves P (get_reg k)" "k < 8 \<Longrightarrow> preserves P (put_reg k b)" "preserves P (jump_to w)"
  "preserves P (jump_rel b)" "preserves P (step_hl t)" "preserves P (step_de t)"
  "preserves P (repeat_op t)"
  unfolding fByte_def fWord_def push_def pop_def add_cycles_def get_r8_def set_r8_def
    get_index_addr_def get_r8_index_def set_r8_index_def get_reg_def put_reg_def jump_to_def
    jump_rel_def step_hl_def step_de_def repeat_op_def
  by (intro pres_intro pres_modify; simp add: inv_all)+

lemmas pres_prims = pres_intro pres_alu pres_basic inv_output inv_input pres_modify

lemma pres_block: "preserves P (op_block_instruction opcode)"
  unfolding op_block_instruction_def Let_def
  by (intro pres_prims; simp add: inv_all)

lemma pres_group_x0: "preserves P (group_x0 opcode)"
  unfolding group_x0_def group_x0_z0_def group_x0_z2_def group_x0_z7_def Let_def
  by (intro pres_prims; simp add: inv_all)

lemma pres_op_load: "preserves P (op_load opcode)"
  unfolding op_load_def Let_def by (intro pres_prims; simp add: inv_all)

lemma pres_alu_switch: "preserves P (alu_switch y b)"
  unfolding alu_switch_def by (intro pres_prims; simp add: inv_all)

lemma pres_op_alu: "preserves P (op_alu opcode)"
  unfolding op_alu_def Let_def by (intro pres_prims pres_alu_switch; simp add: inv_all)

lemma pres_cb_shift: "preserves P (cb_shift y b)"
  unfolding cb_shift_def by (intro pres_prims)

lemma pres_prefix_cb: "preserves P prefix_cb" "preserves P (prefix_cb_index ip)"
  unfolding prefix_cb_def prefix_cb_index_def Let_def
  by (intro pres_prims pres_cb_shift; simp add: inv_all)+

lemma pres_prefix_ed: "preserves P prefix_ed"
  unfolding prefix_ed_def prefix_ed_z7_def rotate_digit_flags_def ld_a_ir_def Let_def
  by (intro pres_prims pres_block; simp add: inv_all)

lemma pres_prefix_dd_fd: "preserves P (prefix_dd_fd ip)"
  unfolding prefix_dd_fd_def index_x0_def index_load_def index_x3_def Let_def
  by (intro pres_prims pres_alu_switch pres_prefix_cb; simp add: inv_all)

lemma pres_group_x3: "preserves P (group_x3 opcode)"
  unfolding group_x3_def group_x3_z1_def group_x3_z3_def Let_def
  by (intro pres_prims pres_alu_switch pres_prefix_cb pres_prefix_ed pres_prefix_dd_fd;
      simp add: inv_all)

lemma pres_step: "preserves P step"
  unfolding step_def dispatch_def
  by (intro pres_prims pres_group_x0 pres_op_load pres_op_alu pres_group_x3; simp add: inv_all)

lemma pres_interrupt: "preserves P interrupt"
  unfolding interrupt_def by (intro pres_prims; simp add: inv_all)

end

text \<open>The write guards of the memory accessors protect the ROM area.\<close>

definition rom_is :: "u16 \<Rightarrow> (u16 \<Rightarrow> u8) \<Rightarrow> machine \<Rightarrow> bool" where
  "rom_is n rom m \<longleftrightarrow> rom_size m = n \<and> (\<forall>a. a < n \<longrightarrow> memory m a = rom a)"

lemma rom_is_mwrite8: "rom_is n rom m \<Longrightarrow> rom_is n rom (mwrite8 a b m)"
  by (auto simp: rom_is_def mwrite8_def)

lemma next_above: "unat (a :: u16) + 1 < MEM_SIZE \<Longrightarrow> a < a + 1"
  by (simp add: MEM_SIZE_def word_less_nat_alt unat_word_ariths)

lemma rom_is_mwrite16: "rom_is n rom m \<Longrightarrow> rom_is n rom (mwrite16 a w m)"
  using next_above [of a] by (auto simp: rom_is_def mwrite16_def not_le)

lemma fdc_read_loop_inv:
  assumes "\<And>m a b. P m \<Longrightarrow> P (mwrite8 a b m)"
  shows "P m \<Longrightarrow> P (fdc_read_loop i cur_dma bs m)"
  by (induction i cur_dma bs m rule: fdc_read_loop.induct) (simp_all add: assms)

lemma fdc_loop_inv:
  assumes "\<And>m a b. P m \<Longrightarrow> P (mwrite8 a b m)" and "\<And>m f. P m \<Longrightarrow> P (m\<lparr>fdc := f\<rparr>)"
  shows "P m \<Longrightarrow> P (fdc_loop c cmd cur_lba cur_dma m)"
proof (induction c cmd cur_lba cur_dma m rule: fdc_loop.induct)
  case (2 c cmd cur_lba cur_dma m)
  have "P (fdc_sector cmd cur_lba cur_dma m)"
    using 2(2) fdc_read_loop_inv [of P, OF assms(1)] assms(2)
    by (simp add: fdc_sector_def Let_def split: option.split)
  then show ?case using 2(1) by simp
qed simp

lemma fdc_cmd_inv:
  assumes "\<And>m a b. P m \<Longrightarrow> P (mwrite8 a b m)" and "\<And>m f. P m \<Longrightarrow> P (m\<lparr>fdc := f\<rparr>)" and "P m"
  shows "P (fdc_cmd cmd m)"
  using assms(2,3) fdc_loop_inv [of P, OF assms(1,2)] by (simp add: fdc_cmd_def Let_def)

lemma ports_inv:
  assumes "\<And>m a b. P m \<Longrightarrow> P (mwrite8 a b m)" and "\<And>m f. P m \<Longrightarrow> P (m\<lparr>fdc := f\<rparr>)"
    and "\<And>m f. P m \<Longrightarrow> P (m\<lparr>acia := f\<rparr>)" and "\<And>m f. P m \<Longrightarrow> P (m\<lparr>out_chars := f\<rparr>)"
  shows "preserves P (output_handler port b)" and "preserves P (input_handler port)"
proof -
  have upd: "P m \<Longrightarrow> P (m\<lparr>acia := x, out_chars := y\<rparr>)" for m x y
    using assms(4) [of "m\<lparr>acia := x\<rparr>" y] assms(3) [of m x] by simp
  show "preserves P (output_handler port b)"
    unfolding output_handler_def ACIA_write_data_def
    by (intro pres_intro preserves_modify fdc_cmd_inv [of P, OF assms(1,2)] assms upd)
  show "preserves P (input_handler port)"
    unfolding input_handler_def by (intro pres_intro preserves_modify assms)
qed

interpretation rom: machine_invariant "rom_is n rom" for n rom
proof unfold_locales
  show "preserves (rom_is n rom) (output_handler port b)" for port b
    by (rule ports_inv) (simp_all add: rom_is_mwrite8, simp_all add: rom_is_def)
  show "preserves (rom_is n rom) (input_handler port)" for port
    by (rule ports_inv) (simp_all add: rom_is_mwrite8, simp_all add: rom_is_def)
qed (simp_all add: rom_is_mwrite8 rom_is_mwrite16, simp_all add: rom_is_def set_shadow_def)

section \<open>Frames of the instruction set\<close>

locale machine_frame =
  fixes U :: "machine \<Rightarrow> machine"
  assumes fr_regs: "k < 8 \<Longrightarrow> regs (U m) k = regs m k"
    and fr_set_reg: "k < 8 \<Longrightarrow> set_reg k v (U m) = U (set_reg k v m)"
    and fr_shadow: "k < 8 \<Longrightarrow> shadow_regs (U m) k = shadow_regs m k"
    and fr_set_shadow: "k < 8 \<Longrightarrow> set_shadow k v (U m) = U (set_shadow k v m)"
    and fr_flags: "flags (U m) = flags m"
    and fr_shadow_flags: "shadow_flags (U m) = shadow_flags m"
    and fr_ix: "ix (U m) = ix m"
    and fr_iy: "iy (U m) = iy m"
    and fr_pc: "pc (U m) = pc m"
    and fr_sp: "sp (U m) = sp m"
    and fr_wz: "wz (U m) = wz m"
    and fr_i_reg: "i_reg (U m) = i_reg m"
    and fr_r_reg: "r_reg (U m) = r_reg m"
    and fr_im: "im (U m) = im m"
    and fr_iff1: "iff1 (U m) = iff1 m"
    and fr_iff2: "iff2 (U m) = iff2 m"
    and fr_halt: "halt (U m) = halt m"
    and fr_cycles: "cycles (U m) = cycles m"
    and fr_fdc: "fdc (U m) = fdc m"
    and fr_acia: "acia (U m) = acia m"
    and fr_interrupt_pending: "interrupt_pending (U m) = interrupt_pending m"
    and fr_old_format: "old_format (U m) = old_format m"
    and fr_out_chars: "out_chars (U m) = out_chars m"
    and fr_rom_size: "rom_size (U m) = rom_size m"
    and fr_set_flags: "(U m)\<lparr>flags := b\<rparr> = U (m\<lparr>flags := b\<rparr>)"
    and fr_set_shadow_flags: "(U m)\<lparr>shadow_flags := b\<rparr> = U (m\<lparr>shadow_flags := b\<rparr>)"
    and fr_set_ix: "(U m)\<lparr>ix := w\<rparr> = U (m\<lparr>ix := w\<rparr>)"
    and fr_set_iy: "(U m)\<lparr>iy := w\<rparr> = U (m\<lparr>iy := w\<rparr>)"
    and fr_set_pc: "(U m)\<lparr>pc := w\<rparr> = U (m\<lparr>pc := w\<rparr>)"
    and fr_set_sp: "(U m)\<lparr>sp := w\<rparr> = U (m\<lparr>sp := w\<rparr>)"
    and fr_set_wz: "(U m)\<lparr>wz := w\<rparr> = U (m\<lparr>wz := w\<rparr>)"
    and fr_set_i_reg: "(U m)\<lparr>i_reg := b\<rparr> = U (m\<lparr>i_reg := b\<rparr>)"
    and fr_set_r_reg: "(U m)\<lparr>r_reg := b\<rparr> = U (m\<lparr>r_reg := b\<rparr>)"
    and fr_set_im: "(U m)\<lparr>im := b\<rparr> = U (m\<lparr>im := b\<rparr>)"
    and fr_set_iff1: "(U m)\<lparr>iff1 := t\<rparr> = U (m\<lparr>iff1 := t\<rparr>)"
    and fr_set_iff2: "(U m)\<lparr>iff2 := t\<rparr> = U (m\<lparr>iff2 := t\<rparr>)"
    and fr_set_halt: "(U m)\<lparr>halt := t\<rparr> = U (m\<lparr>halt := t\<rparr>)"
    and fr_set_cycles: "(U m)\<lparr>cycles := n\<rparr> = U (m\<lparr>cycles := n\<rparr>)"
    and fr_set_fdc: "(U m)\<lparr>fdc := d\<rparr> = U (m\<lparr>fdc := d\<rparr>)"
    and fr_set_acia: "(U m)\<lparr>acia := c\<rparr> = U (m\<lparr>acia := c\<rparr>)"
    and fr_set_out_chars: "(U m)\<lparr>out_chars := bs\<rparr> = U (m\<lparr>out_chars := bs\<rparr>)"
    and fr_mread8: "mread8 a (U m) = mread8 a m"
    and fr_mread16: "mread16 a (U m) = mread16 a m"
    and fr_mwrite8: "mwrite8 a b (U m) = U (mwrite8 a b m)"
    and fr_mwrite16: "mwrite16 a w (U m) = U (mwrite16 a w m)"
begin

lemmas fr_prims =
  fr_regs fr_set_reg fr_shadow fr_set_shadow fr_flags fr_shadow_flags fr_ix fr_iy fr_pc fr_sp
  fr_wz fr_i_reg fr_r_reg fr_im fr_iff1 fr_iff2 fr_halt fr_cycles fr_fdc fr_acia
  fr_interrupt_pending fr_old_format fr_out_chars fr_rom_size fr_set_flags fr_set_shadow_flags
  fr_set_ix fr_set_iy fr_set_pc fr_set_sp fr_set_wz fr_set_i_reg fr_set_r_reg fr_set_im
  fr_set_iff1 fr_set_iff2 fr_set_halt fr_set_cycles fr_set_fdc fr_set_acia fr_set_out_chars
  fr_mread8 fr_mread16 fr_mwrite8 fr_mwrite16

lemma fr_pairs:
  "AF (U m) = AF m" "BC (U m) = BC m" "DE (U m) = DE m" "HL (U m) = HL m"
  "set_af w (U m) = U (set_af w m)" "set_bc w (U m) = U (set_bc w m)"
  "set_de w (U m) = U (set_de w m)" "set_hl w (U m) = U (set_hl w m)"
  by (simp_all add: pair_defs set_af_def set_bc_def set_de_def set_hl_def fr_prims)

lemma fr_idx: "get_idx p (U m) = get_idx p m" "set_idx p w (U m) = U (set_idx p w m)"
  by (simp_all add: get_idx_def set_idx_def fr_prims split: index_ptr.split)

lemma fr_pair:
  "reg < 4 \<Longrightarrow> get_pair reg (U m) = get_pair reg m"
  "reg < 4 \<Longrightarrow> set_pair reg w (U m) = U (set_pair reg w m)"
  by (simp_all add: get_pair_def set_pair_def fr_prims)

lemma fr_r16:
  "reg < 4 \<Longrightarrow> get_r16_1 reg (U m) = get_r16_1 reg m"
  "reg < 4 \<Longrightarrow> set_r16_1 reg w (U m) = U (set_r16_1 reg w m)"
  "reg < 4 \<Longrightarrow> get_r16_2 reg (U m) = get_r16_2 reg m"
  "reg < 4 \<Longrightarrow> set_r16_2 reg w (U m) = U (set_r16_2 reg w m)"
  "reg < 4 \<Longrightarrow> get_r16_index reg p (U m) = get_r16_index reg p m"
  by (simp_all add: get_r16_1_def set_r16_1_def get_r16_2_def set_r16_2_def get_r16_index_def
      fr_prims fr_pairs fr_idx fr_pair)

lemma fr_flag_ops:
  "getFlag k (U m) = getFlag k m"
  "setFlag k t (U m) = U (setFlag k t m)"
  "update_flagsYX b (U m) = U (update_flagsYX b m)"
  "merge_flags b c (U m) = U (merge_flags b c m)"
  by (simp_all add: getFlag_def setFlag_def update_flagsYX_def merge_flags_def fr_prims Let_def)

lemma fr_exchange:
  "p < 7 \<Longrightarrow> exchange p p True (U m) = U (exchange p p True m)"
  "p < 7 \<Longrightarrow> q < 7 \<Longrightarrow> exchange p q False (U m) = U (exchange p q False m)"
  by (simp_all add: exchange_shadow_eq exchange_main_eq fr_prims)

lemma fr_exchange_af: "exchange_af (U m) = U (exchange_af m)"
  by (simp add: exchange_af_eq fr_prims fr_pairs)

lemma fr_fdc_read_loop: "fdc_read_loop i cur_dma bs (U m) = U (fdc_read_loop i cur_dma bs m)"
  by (induction i cur_dma bs m rule: fdc_read_loop.induct) (simp_all add: fr_prims)

lemma fr_fdc_write_loop: "fdc_write_loop i cur_dma pos (U m) img = fdc_write_loop i cur_dma pos m img"
proof (induction i cur_dma pos m img rule: fdc_write_loop.induct)
  case (1 i cur_dma pos m img)
  then show ?case
    by (subst (1 2) fdc_write_loop.simps) (simp add: fr_prims)
qed

lemma fr_fdc_loop: "fdc_loop c cmd cur_lba cur_dma (U m) = U (fdc_loop c cmd cur_lba cur_dma m)"
proof (induction c cmd cur_lba cur_dma m rule: fdc_loop.induct)
  case (2 c cmd cur_lba cur_dma m)
  have "fdc_sector cmd cur_lba cur_dma (U m) = U (fdc_sector cmd cur_lba cur_dma m)"
    by (simp add: fdc_sector_def Let_def fr_prims fr_fdc_read_loop fr_fdc_write_loop split: option.split)
  then show ?case using 2 by simp
qed simp

lemma fr_fdc_cmd: "fdc_cmd cmd (U m) = U (fdc_cmd cmd m)"
  by (simp add: fdc_cmd_def Let_def fr_prims fr_fdc_loop)

lemma fr_ACIA_write_data: "ACIA_write_data b (U m) = U (ACIA_write_data b m)"
  by (simp add: ACIA_write_data_def fr_prims)

lemmas fr_all = fr_prims fr_pairs fr_idx fr_pair fr_r16 fr_flag_ops fr_exchange fr_exchange_af
  fr_fdc_cmd fr_ACIA_write_data

lemma com_modify: "(\<And>m. f (U m) = U (f m)) \<Longrightarrow> commutes U (modify f)"
  by (rule commutes_modify)

lemma com_gets: "(\<And>m. f (U m) = f m) \<Longrightarrow> commutes U (gets f)"
  by (rule commutes_gets)

lemmas com_core = comm_intro com_modify com_gets

lemma com_alu:
  "commutes U (add8 a b)" "commutes U (adc8 a b)" "commutes U (sub8 a b)"
  "commutes U (sbc8 a b)" "commutes U (and8 a b)" "commutes U (xor8 a b)"
  "commutes U (or8 a b)" "commutes U (cp8 a b)" "commutes U (inc8 a)" "commutes U (dec8 a)"
  "commutes U (add16 v w)" "commutes U (adc16 v w)" "commutes U (sbc16 v w)"
  "commutes U (rlc8 a)" "commutes U (rl8 a)" "commutes U (rrc8 a)" "commutes U (rr8 a)"
  "commutes U (sla8 a)" "commutes U (sll8 a)" "commutes U (sra8 a)" "commutes U (srl8 a)"
  "commutes U (bit8 a n)"
  unfolding add8_def adc8_def sub8_def sbc8_def and8_def xor8_def or8_def cp8_def inc8_def dec8_def
    add16_def adc16_def sbc16_def rlc8_def rl8_def rrc8_def rr8_def sla8_def sll8_def sra8_def
    srl8_def bit8_def Let_def
  by (intro com_core; simp add: fr_all)+

lemma com_basic:
  "commutes U fByte" "commutes U fWord" "commutes U (push w)" "commutes U pop"
  "commutes U (add_cycles n)" "k < 8 \<Longrightarrow> commutes U (get_r8 k)" "k < 8 \<Longrightarrow> commutes U (set_r8 k b)"
  "commutes U (get_index_addr w)"
  "k < 8 \<Longrightarrow> commutes U (set_r8_index k b ip)"
  "k < 8 \<Longrightarrow> commutes U (get_reg k)" "k < 8 \<Longrightarrow> commutes U (put_reg k b)" "commutes U (jump_to w)"
  "commutes U (jump_rel b)" "commutes U (step_hl t)" "commutes U (step_de t)"
  "commutes U (repeat_op t)" "commutes U (output_handler port b)" "commutes U (input_handler port)"
  unfolding fByte_def fWord_def push_def pop_def add_cycles_def get_r8_def set_r8_def
    get_index_addr_def set_r8_index_def get_reg_def put_reg_def jump_to_def
    jump_rel_def step_hl_def step_de_def repeat_op_def output_handler_def input_handler_def
  by (intro com_core; simp add: fr_all)+

lemma com_get_r8_index: "k < 8 \<Longrightarrow> commutes U (get_r8_index k ip)"
  unfolding get_r8_index_def by (intro com_core com_basic; simp add: fr_all)

lemmas com_prims = com_core com_alu com_basic com_get_r8_index

lemma com_block: "commutes U (op_block_instruction opcode)"
  unfolding op_block_instruction_def Let_def
  by (intro com_prims; simp add: fr_all)

lemma com_group_x0: "commutes U (group_x0 opcode)"
  unfolding group_x0_def group_x0_z0_def group_x0_z2_def group_x0_z7_def Let_def
  by (intro com_prims; simp add: fr_all)

lemma com_op_load: "commutes U (op_load opcode)"
  unfolding op_load_def Let_def by (intro com_prims; simp add: fr_all)

lemma com_alu_switch: "commutes U (alu_switch y b)"
  unfolding alu_switch_def by (intro com_prims; simp add: fr_all)

lemma com_op_alu: "commutes U (op_alu opcode)"
  unfolding op_alu_def Let_def by (intro com_prims com_alu_switch; simp add: fr_all)

lemma com_cb_shift: "commutes U (cb_shift y b)"
  unfolding cb_shift_def by (intro com_prims)

lemma com_prefix_cb: "commutes U prefix_cb" "commutes U (prefix_cb_index ip)"
  unfolding prefix_cb_def prefix_cb_index_def Let_def
  by (intro com_prims com_cb_shift; simp add: fr_all)+

lemma com_prefix_ed: "commutes U prefix_ed"
  unfolding prefix_ed_def prefix_ed_z7_def rotate_digit_flags_def ld_a_ir_def Let_def
  by (intro com_prims com_block; simp add: fr_all)

lemma com_prefix_dd_fd: "commutes U (prefix_dd_fd ip)"
  unfolding prefix_dd_fd_def index_x0_def index_load_def index_x3_def Let_def
  by (intro com_prims com_alu_switch com_prefix_cb; simp add: fr_all)

lemma com_group_x3: "commutes U (group_x3 opcode)"
  unfolding group_x3_def group_x3_z1_def group_x3_z3_def Let_def
  by (intro com_prims com_alu_switch com_prefix_cb com_prefix_ed com_prefix_dd_fd;
      simp add: fr_all)

lemma com_step: "commutes U step"
  unfolding step_def dispatch_def
  by (intro com_prims com_group_x0 com_op_load com_op_alu com_group_x3; simp add: fr_all)

lemma com_interrupt: "commutes U interrupt"
  unfolding interrupt_def by (intro com_prims; simp add: fr_all)

end

text \<open>The byte at 0xFFFF, one past the \<open>MEM_SIZE\<close> bytes that \<^verbatim>\<open>main\<close> allocates.\<close>

definition poke_past_end :: "u8 \<Rightarrow> machine \<Rightarrow> machine" where
  "poke_past_end b m = m\<lparr>memory := (memory m)(0xFFFF := b)\<rparr>"

lemma at_past_end: "(a :: u16) = 0xFFFF \<longleftrightarrow> MEM_SIZE \<le> unat a"
proof -
  have "unat a < 2 ^ 16" using unsigned_less [of a] by simp
  then show ?thesis by (auto simp: MEM_SIZE_def word_unat_eq_iff)
qed

lemma past_end_mem:
  "mread8 a (poke_past_end b m) = mread8 a m"
  "mread16 a (poke_past_end b m) = mread16 a m"
  "mwrite8 a v (poke_past_end b m) = poke_past_end b (mwrite8 a v m)"
  "mwrite16 a w (poke_past_end b m) = poke_past_end b (mwrite16 a w m)"
proof -
  have nxt: "unat (a + 1) = unat a + 1" if "\<not> MEM_SIZE \<le> unat a + 1"
    using that by (simp add: MEM_SIZE_def unat_word_ariths)
  show "mread8 a (poke_past_end b m) = mread8 a m"
    "mwrite8 a v (poke_past_end b m) = poke_past_end b (mwrite8 a v m)"
    by (auto simp: poke_past_end_def mread8_def mwrite8_def at_past_end fun_upd_twist)
  show "mread16 a (poke_past_end b m) = mread16 a m"
    "mwrite16 a w (poke_past_end b m) = poke_past_end b (mwrite16 a w m)"
    using nxt at_past_end [of a] at_past_end [of "a + 1"]
    by (auto simp: poke_past_end_def mread16_def mwrite16_def fun_upd_twist)
qed

interpretation past_end: machine_frame "poke_past_end b" for b
  by unfold_locales (simp_all add: past_end_mem, simp_all add: poke_past_end_def set_reg_def set_shadow_def)

text \<open>The cells after the register files: an access there leaves \<^verbatim>\<open>regs[8]\<close>.\<close>

definition poke_past_regs :: "(nat \<Rightarrow> u8) \<Rightarrow> (nat \<Rightarrow> u8) \<Rightarrow> machine \<Rightarrow> machine" where
  "poke_past_regs f g m =
     m\<lparr>regs := \<lambda>k. if k < 8 then regs m k else f k,
       shadow_regs := \<lambda>k. if k < 8 then shadow_regs m k else g k\<rparr>"

interpretation past_regs: machine_frame "poke_past_regs f g" for f g
  by unfold_locales
    (auto simp: poke_past_regs_def set_reg_def set_shadow_def mread8_def mread16_def mwrite8_def mwrite16_def
      intro!: machine.equality)

end
