(* ===== verification/Bemu_Machine.thy ===== *)
theory Bemu_Machine
  imports Bemu_Frame
begin

text \<open>
  The threads of the running emulator. The main thread is the loop of \<^verbatim>\<open>execute\<close>, cut at
  its accesses to the shared flag \<^verbatim>\<open>interrupt_pending\<close> into phases; the input thread
  delivers one character per event, under \<^verbatim>\<open>acia_mutex\<close>. \<^verbatim>\<open>step\<close> is one event
  because an instruction takes the mutex at most once. The step relation \<open>emu_step\<close> interleaves
  the two threads in every order, and \<open>reaches\<close> is its closure. The output of the debugger is kept
  as a list of lines with the values they print. The sleep to the next frame is not modelled.
\<close>

section \<open>Debug output\<close>

datatype debug_line = Instruction u8 u16 | Registers "u16 list" "bool list" "u8 list" u64
  | Memory_row nat "u8 list" | Stack_word nat u16

definition print_cpu_state :: "machine \<Rightarrow> debug_line" where
  "print_cpu_state m = Registers [AF m, BC m, DE m, HL m, ix m, iy m, sp m, pc m] [iff1 m, iff2 m]
     [im m, ctrl (acia m), status (acia m)] (cycles m)"

text \<open>\<^verbatim>\<open>memory[i]\<close> is read without a check here; the last row reaches the index 65535.\<close>

definition memory_row :: "machine \<Rightarrow> nat \<Rightarrow> debug_line" where
  "memory_row m r = Memory_row (16 * r) (map (\<lambda>j. memory m (of_nat (16 * r + j))) [0..<16])"

definition print_memory :: "machine \<Rightarrow> debug_line list" where
  "print_memory m = map (memory_row m) [0..<(MEM_SIZE + 15) div 16]"

fun stack_loop :: "machine \<Rightarrow> nat \<Rightarrow> nat \<Rightarrow> debug_line list" where
  "stack_loop m 0 a = []"
| "stack_loop m (Suc n) a =
     (if 0xFFFF \<le> a \<or> MEM_SIZE \<le> a + 1 then []
      else Stack_word a (mk16 (memory m (of_nat (a + 1))) (memory m (of_nat a))) # stack_loop m n (a + 2))"

definition stack_trace :: "machine \<Rightarrow> nat \<Rightarrow> debug_line list" where
  "stack_trace m depth = stack_loop m depth (unat (sp m))"

section \<open>The loop of \<^verbatim>\<open>execute\<close>\<close>

datatype phase = Loop | Prompt | Pending | Service | Clear | Run | Done

record emulator =
  mach :: machine
  phase_of :: phase
  total_cycles :: u64
  breakpoint :: u16
  enable_breakpoint :: bool
  input_thread_stop :: bool
  input_thread_done :: bool
  print_ins :: bool
  debug_out :: "debug_line list"

definition execute_phase :: "emulator \<Rightarrow> emulator" where
  "execute_phase e =
     (let m = mach e in
      case phase_of e of
        Loop \<Rightarrow>
          if halt m then e\<lparr>phase_of := Done\<rparr>
          else if pc m = breakpoint e \<and> enable_breakpoint e
          then e\<lparr>mach := m\<lparr>halt := True\<rparr>, input_thread_stop := True, phase_of := Prompt\<rparr>
          else e\<lparr>phase_of := Pending\<rparr>
      | Pending \<Rightarrow> e\<lparr>phase_of := (if interrupt_pending m then Service else Run)\<rparr>
      | Service \<Rightarrow> e\<lparr>mach := exec interrupt m, phase_of := Clear\<rparr>
      | Clear \<Rightarrow> e\<lparr>mach := m\<lparr>interrupt_pending := False\<rparr>, phase_of := Run\<rparr>
      | Run \<Rightarrow>
          let m1 = exec step m in
          e\<lparr>mach := m1,
            total_cycles := total_cycles e + scast (ucast (eval step m) :: u32),
            debug_out := debug_out e @ (if print_ins e then [Instruction (memory m1 (pc m1)) (pc m1), print_cpu_state m1] else []),
            phase_of := Loop\<rparr>
      | Prompt \<Rightarrow> e
      | Done \<Rightarrow> e)"

text \<open>
  One character typed at the breakpoint prompt: \<^verbatim>\<open>c\<close> continues, \<^verbatim>\<open>q\<close> returns, \<^verbatim>\<open>m\<close>, \<^verbatim>\<open>s\<close> and
  \<^verbatim>\<open>p\<close> print.
\<close>

definition debug_input :: "u8 \<Rightarrow> emulator \<Rightarrow> emulator" where
  "debug_input c e =
     (if c = 0x63 then e\<lparr>mach := (mach e)\<lparr>halt := False\<rparr>, phase_of := Pending\<rparr>
      else if c = 0x71 then e\<lparr>phase_of := Done\<rparr>
      else if c = 0x6D then e\<lparr>debug_out := debug_out e @ print_memory (mach e)\<rparr>
      else if c = 0x73 then e\<lparr>debug_out := debug_out e @ stack_trace (mach e) 10\<rparr>
      else if c = 0x70 then e\<lparr>debug_out := debug_out e @ [print_cpu_state (mach e)]\<rparr>
      else e)"

text \<open>
  One character that the input thread gets from \<^verbatim>\<open>getchar\<close>. The thread looks at the stop flag only
  before it waits for a character, so a waiting thread still delivers one.
\<close>

definition input_event :: "u8 \<Rightarrow> emulator \<Rightarrow> emulator" where
  "input_event c e = e\<lparr>input_thread_done := input_thread_stop e, mach := input_char c (mach e)\<rparr>"

datatype event = Main | Debug u8 | Key u8

inductive emu_step :: "emulator \<Rightarrow> event \<Rightarrow> emulator \<Rightarrow> bool" where
  main: "phase_of e \<noteq> Prompt \<Longrightarrow> phase_of e \<noteq> Done \<Longrightarrow> emu_step e Main (execute_phase e)"
| debug: "phase_of e = Prompt \<Longrightarrow> emu_step e (Debug c) (debug_input c e)"
| key: "\<not> input_thread_done e \<Longrightarrow> emu_step e (Key c) (input_event c e)"

inductive_cases emu_stepE: "emu_step e ev e'"

inductive reaches :: "emulator \<Rightarrow> event list \<Rightarrow> emulator \<Rightarrow> bool" where
  none: "reaches e [] e"
| more: "reaches e evs e' \<Longrightarrow> emu_step e' ev e'' \<Longrightarrow> reaches e (evs @ [ev]) e''"

text \<open>The events of a run determine it, so a run can be computed.\<close>

fun run_event :: "event \<Rightarrow> emulator \<Rightarrow> emulator option" where
  "run_event Main e = (if phase_of e = Prompt \<or> phase_of e = Done then None else Some (execute_phase e))"
| "run_event (Debug c) e = (if phase_of e = Prompt then Some (debug_input c e) else None)"
| "run_event (Key c) e =
     (if input_thread_done e then None else Some (input_event c e))"

lemma run_event_iff: "run_event ev e = Some e' \<longleftrightarrow> emu_step e ev e'"
  by (cases ev) (auto simp: emu_step.simps)

fun run_events :: "event list \<Rightarrow> emulator \<Rightarrow> emulator option" where
  "run_events [] e = Some e"
| "run_events (ev # evs) e = (case run_event ev e of None \<Rightarrow> None | Some e' \<Rightarrow> run_events evs e')"

lemma run_events_append:
  "run_events (xs @ ys) e = (case run_events xs e of None \<Rightarrow> None | Some e' \<Rightarrow> run_events ys e')"
  by (induction xs arbitrary: e) (auto split: option.splits)

lemma reaches_imp_run: "reaches e evs e' \<Longrightarrow> run_events evs e = Some e'"
  by (induction rule: reaches.induct) (simp_all add: run_events_append flip: run_event_iff)

lemma run_imp_reaches: "run_events evs e = Some e' \<Longrightarrow> reaches e evs e'"
proof (induction evs arbitrary: e' rule: rev_induct)
  case Nil
  then show ?case by (simp add: reaches.none)
next
  case (snoc ev evs)
  then obtain e1 where "run_events evs e = Some e1" "run_event ev e1 = Some e'"
    by (auto simp: run_events_append split: option.splits)
  with snoc.IH show ?case by (auto simp: run_event_iff intro: reaches.more)
qed

lemma reaches_iff: "reaches e evs e' \<longleftrightarrow> run_events evs e = Some e'"
  by (blast intro: reaches_imp_run run_imp_reaches)

lemma emu_step_print_ins: "emu_step e ev e' \<Longrightarrow> print_ins e' = print_ins e"
  by (auto elim!: emu_stepE simp: execute_phase_def debug_input_def input_event_def Let_def split: phase.splits if_splits)

lemma reaches_print_ins: "reaches e evs e' \<Longrightarrow> print_ins e' = print_ins e"
  by (induction rule: reaches.induct) (simp_all add: emu_step_print_ins)

section \<open>Invariants and frames of the whole emulator\<close>

locale emulator_invariant = machine_invariant +
  assumes inv_acia: "P m \<Longrightarrow> P (m\<lparr>acia := c\<rparr>)"
    and inv_pending: "P m \<Longrightarrow> P (m\<lparr>interrupt_pending := t\<rparr>)"
begin

lemma inv_input_char: "P m \<Longrightarrow> P (input_char c m)"
  by (simp add: input_char_def Let_def inv_acia inv_pending)

lemma inv_emu_step:
  assumes "emu_step e ev e'" and "P (mach e)"
  shows "P (mach e')"
  using assms(1)
proof cases
  case main
  then show ?thesis
    using assms(2) preservesD [OF pres_step assms(2)] preservesD [OF pres_interrupt assms(2)]
    by (auto simp: execute_phase_def Let_def inv_halt inv_pending split: phase.splits)
next
  case (debug c)
  then show ?thesis using assms(2) by (simp add: debug_input_def inv_halt)
next
  case (key c)
  then show ?thesis using assms(2) by (simp add: input_event_def inv_input_char)
qed

lemma inv_reaches: "reaches e evs e' \<Longrightarrow> P (mach e) \<Longrightarrow> P (mach e')"
  by (induction rule: reaches.induct) (auto intro: inv_emu_step)

end

interpretation rom_emu: emulator_invariant "rom_is n rom" for n rom
  by unfold_locales (simp_all add: rom_is_def)

locale emulator_frame = machine_frame +
  assumes fr_set_interrupt_pending:
    "(U m)\<lparr>interrupt_pending := t\<rparr> = U (m\<lparr>interrupt_pending := t\<rparr>)"
begin

lemma fr_input_char: "input_char c (U m) = U (input_char c m)"
  by (simp add: input_char_def Let_def fr_prims fr_set_interrupt_pending)

lemma fr_exec: "commutes U f \<Longrightarrow> exec f (U m) = U (exec f m)"
  by (simp add: commutes_def exec_def)

lemma fr_eval: "commutes U f \<Longrightarrow> eval f (U m) = eval f m"
  by (simp add: commutes_def eval_def)

lemma fr_memory: "unat a < MEM_SIZE \<Longrightarrow> memory (U m) a = memory m a"
  using fr_mread8 [of a m] by (simp add: mread8_def)

text \<open>The state and the stack are printed without looking at what \<open>U\<close> changes.\<close>

lemma fr_print_cpu_state: "print_cpu_state (U m) = print_cpu_state m"
  by (simp add: print_cpu_state_def fr_prims fr_pairs)

lemma fr_stack_trace: "stack_trace (U m) n = stack_trace m n"
proof -
  have "stack_loop (U m) n a = stack_loop m n a" for n a
    by (induction m n a rule: stack_loop.induct) (simp_all add: fr_memory unat_of_nat MEM_SIZE_def del: of_nat_Suc)
  then show ?thesis by (simp add: stack_trace_def fr_prims)
qed

lemma fr_execute_phase:
  "\<not> print_ins e \<Longrightarrow> execute_phase (e\<lparr>mach := U (mach e)\<rparr>) = (execute_phase e)\<lparr>mach := U (mach (execute_phase e))\<rparr>"
  by (simp add: execute_phase_def Let_def fr_prims fr_set_interrupt_pending
      fr_exec [OF com_step] fr_exec [OF com_interrupt] fr_eval [OF com_step] split: phase.split)

text \<open>Printing the memory and the instructions is left out.\<close>

lemma fr_emu_step:
  assumes "emu_step e ev e'" and "\<not> print_ins e" and "ev \<noteq> Debug 0x6D"
  shows "emu_step (e\<lparr>mach := U (mach e)\<rparr>) ev (e'\<lparr>mach := U (mach e')\<rparr>)"
  using assms(1)
proof cases
  case main
  then show ?thesis using emu_step.main [of "e\<lparr>mach := U (mach e)\<rparr>"] assms(2)
    by (simp add: fr_execute_phase)
next
  case (debug c)
  have "debug_input c (e\<lparr>mach := U (mach e)\<rparr>) = e'\<lparr>mach := U (mach e')\<rparr>"
    using debug assms(3) by (simp add: debug_input_def fr_prims fr_print_cpu_state fr_stack_trace)
  then show ?thesis using debug emu_step.debug [of "e\<lparr>mach := U (mach e)\<rparr>" c] by simp
next
  case (key c)
  then show ?thesis using emu_step.key [of "e\<lparr>mach := U (mach e)\<rparr>" c]
    by (simp add: input_event_def fr_input_char)
qed

lemma fr_reaches:
  "reaches e evs e' \<Longrightarrow> \<not> print_ins e \<Longrightarrow> Debug 0x6D \<notin> set evs \<Longrightarrow>
   reaches (e\<lparr>mach := U (mach e)\<rparr>) evs (e'\<lparr>mach := U (mach e')\<rparr>)"
proof (induction rule: reaches.induct)
  case (more e evs e' ev e'')
  then have "emu_step (e'\<lparr>mach := U (mach e')\<rparr>) ev (e''\<lparr>mach := U (mach e'')\<rparr>)"
    using reaches_print_ins [of e evs e'] by (intro fr_emu_step) auto
  then show ?case using more by (auto intro: reaches.more)
qed (rule reaches.none)

end

interpretation past_end_emu: emulator_frame "poke_past_end b" for b
  by unfold_locales (simp add: poke_past_end_def)

interpretation past_regs_emu: emulator_frame "poke_past_regs f g" for f g
  by unfold_locales (auto simp: poke_past_regs_def intro!: machine.equality)

end
