(* ===== verification/Clib.thy ===== *)
theory Clib
  imports Manux_Prelude "HOL-Library.Char_ord"
begin

text \<open>
  The parts of the C library the programs use on strings. A C string is the list of its characters
  before the terminator.
\<close>

section \<open>\<^verbatim>\<open>strtol\<close> with base 0\<close>

definition digit_value :: "char \<Rightarrow> nat option" where
  "digit_value c =
     (let n = (of_char c :: nat) in
      if 48 \<le> n \<and> n \<le> 57 then Some (n - 48)
      else if 97 \<le> n \<and> n \<le> 122 then Some (n - 87)
      else if 65 \<le> n \<and> n \<le> 90 then Some (n - 55)
      else None)"

fun digits :: "nat \<Rightarrow> nat \<Rightarrow> string \<Rightarrow> nat" where
  "digits base acc [] = acc"
| "digits base acc (c # cs) =
     (case digit_value c of None \<Rightarrow> acc
      | Some d \<Rightarrow> if d < base then digits base (acc * base + d) cs else acc)"

definition is_hex_prefix :: "string \<Rightarrow> bool" where
  "is_hex_prefix cs =
     (case cs of a # b # c # _ \<Rightarrow> a = CHR ''0'' \<and> (b = CHR ''x'' \<or> b = CHR ''X'') \<and>
        (case digit_value c of None \<Rightarrow> False | Some d \<Rightarrow> d < 16)
      | _ \<Rightarrow> False)"

definition magnitude :: "string \<Rightarrow> int" where
  "magnitude cs =
     int (if is_hex_prefix cs then digits 16 0 (drop 2 cs)
          else if cs \<noteq> [] \<and> hd cs = CHR ''0'' then digits 8 0 cs
          else digits 10 0 cs)"

definition is_space :: "char \<Rightarrow> bool" where
  "is_space c = (c = CHR '' '' \<or> 9 \<le> (of_char c :: nat) \<and> (of_char c :: nat) \<le> 13)"

text \<open>The value before the range of \<^verbatim>\<open>long\<close> is applied, and \<^verbatim>\<open>strtol(s, NULL, 0)\<close> for a
  \<^verbatim>\<open>long\<close> of \<open>w\<close> bits.\<close>

definition strtol_value :: "string \<Rightarrow> int" where
  "strtol_value s =
     (let t = dropWhile is_space s
      in if t \<noteq> [] \<and> hd t = CHR ''-'' then - magnitude (tl t)
         else if t \<noteq> [] \<and> hd t = CHR ''+'' then magnitude (tl t)
         else magnitude t)"

definition strtol_clip :: "nat \<Rightarrow> string \<Rightarrow> int" where
  "strtol_clip w s = max (- (2 ^ (w - 1))) (min (2 ^ (w - 1) - 1) (strtol_value s))"

section \<open>Characters and tokens\<close>

definition toupper :: "char \<Rightarrow> char" where
  "toupper c = (let n = (of_char c :: nat) in if 97 \<le> n \<and> n \<le> 122 then char_of (n - 32) else c)"

text \<open>One call of \<^verbatim>\<open>strtok\<close>: the token and the text the next call continues with.\<close>

definition strtok :: "'a list \<Rightarrow> 'a list \<Rightarrow> ('a list \<times> 'a list) option" where
  "strtok s delims =
     (let t = dropWhile (\<lambda>c. c \<in> set delims) s
      in if t = [] then None
         else Some (takeWhile (\<lambda>c. c \<notin> set delims) t, drop 1 (dropWhile (\<lambda>c. c \<notin> set delims) t)))"

section \<open>Decimal numerals\<close>

text \<open>\<^verbatim>\<open>%d\<close> of \<^verbatim>\<open>sprintf\<close>.\<close>

definition digit_char :: "nat \<Rightarrow> char" where
  "digit_char d = char_of (48 + d)"

fun show_nat :: "nat \<Rightarrow> string" where
  "show_nat n = (if n < 10 then [digit_char n] else show_nat (n div 10) @ [digit_char (n mod 10)])"

declare show_nat.simps [simp del]

definition show_int :: "int \<Rightarrow> string" where
  "show_int i = (if i < 0 then CHR ''-'' # show_nat (nat (- i)) else show_nat (nat i))"

lemma of_digit_char [simp]: "d < 10 \<Longrightarrow> (of_char (digit_char d) :: nat) = 48 + d"
  by (simp add: digit_char_def)

lemma digit_char_eq: "d < 10 \<Longrightarrow> digit_char d = c \<longleftrightarrow> 48 + d = (of_char c :: nat)"
    "d < 10 \<Longrightarrow> c = digit_char d \<longleftrightarrow> 48 + d = (of_char c :: nat)"
  using of_digit_char [of d] by (metis of_char_eq_iff)+

lemma digit_value_char [simp]: "d < 10 \<Longrightarrow> digit_value (digit_char d) = Some d"
  by (simp add: digit_value_def)

lemma show_nat_digits: "\<forall>c\<in>set (show_nat n). \<exists>d<10. c = digit_char d"
proof (induction n rule: show_nat.induct)
  case (1 n)
  have "n mod 10 < 10" by simp
  then show ?case using 1 by (subst show_nat.simps) (auto simp del: mod_less_divisor)
qed

lemma show_nat_not_Nil [simp]: "show_nat n \<noteq> []"
  by (subst show_nat.simps) simp

lemma digits_append:
  assumes "\<forall>c\<in>set xs. \<exists>d. digit_value c = Some d \<and> d < base"
  shows "digits base acc (xs @ ys) = digits base (digits base acc xs) ys"
  using assms by (induction xs arbitrary: acc) auto

lemma digits_show_nat: "digits 10 0 (show_nat n) = n"
proof (induction n rule: show_nat.induct)
  case (1 n)
  have d: "\<forall>c\<in>set (show_nat (n div 10)). \<exists>d. digit_value c = Some d \<and> d < 10"
    using show_nat_digits [of "n div 10"] by force
  show ?case
  proof (cases "n < 10")
    case True
    then show ?thesis by (subst show_nat.simps) simp
  next
    case False
    then show ?thesis using 1 by (subst show_nat.simps) (simp add: digits_append [OF d])
  qed
qed

lemma hd_show_nat: "0 < n \<Longrightarrow> \<exists>d. 0 < d \<and> d < 10 \<and> hd (show_nat n) = digit_char d"
proof (induction n rule: show_nat.induct)
  case (1 n)
  show ?case
  proof (cases "n < 10")
    case True
    then show ?thesis using 1 by (subst show_nat.simps) auto
  next
    case False
    then have "0 < n div 10" by simp
    then show ?thesis using 1 False by (subst show_nat.simps) simp
  qed
qed

text \<open>A printed number reads back.\<close>

lemma magnitude_show_nat: "magnitude (show_nat n) = int n"
proof (cases "n = 0")
  case True
  then show ?thesis by (subst show_nat.simps) (simp add: magnitude_def is_hex_prefix_def digit_value_def)
next
  case False
  then obtain d where d: "0 < d" "d < 10" "hd (show_nat n) = digit_char d" using hd_show_nat by blast
  have "digit_char d \<noteq> CHR ''0''" using d by (simp add: digit_char_eq)
  then show ?thesis
    using d digits_show_nat [of n]
    by (cases "show_nat n") (auto simp: magnitude_def is_hex_prefix_def split: list.splits)
qed

lemma digit_char_not_space: "d < 10 \<Longrightarrow> \<not> is_space (digit_char d)"
  by (simp add: is_space_def digit_char_eq)

lemma strtol_show_int:
  assumes "- (2 ^ (w - 1)) \<le> i" and "i < 2 ^ (w - 1)"
  shows "strtol_clip w (show_int i) = i"
proof -
  have hd: "\<exists>d<10. hd (show_nat n) = digit_char d" for n using show_nat_digits [of n] by (cases "show_nat n") auto
  have sp: "dropWhile is_space (show_nat n @ xs) = show_nat n @ xs" for n xs
    using hd [of n] digit_char_not_space by (cases "show_nat n") auto
  have ne: "hd (show_nat n) \<noteq> CHR ''-''" "hd (show_nat n) \<noteq> CHR ''+''" for n
    using hd [of n] by (auto simp: digit_char_eq dest: sym)
  have "strtol_value (show_int i) = i"
  proof (cases "i < 0")
    case True
    then show ?thesis
      by (simp add: strtol_value_def show_int_def Let_def magnitude_show_nat is_space_def)
  next
    case False
    then show ?thesis
      using sp [of "nat i" "[]"] ne [of "nat i"] by (simp add: strtol_value_def show_int_def Let_def magnitude_show_nat)
  qed
  then show ?thesis using assms by (simp add: strtol_clip_def)
qed

text \<open>The same digits by arithmetic on \<open>int\<close>, for evaluation.\<close>

function show_digits :: "int \<Rightarrow> string" where
  "show_digits i = (if i < 10 then [digit_char (nat i)] else show_digits (i div 10) @ [digit_char (nat (i mod 10))])"
  by pat_completeness auto
termination
  by (relation "measure nat") auto

declare show_digits.simps [simp del]

lemma show_digits_nat: "show_digits (int n) = show_nat n"
proof (induction n rule: show_nat.induct)
  case (1 n)
  have "int n div 10 = int (n div 10)" "nat (int n mod 10) = n mod 10" by (simp_all add: zdiv_int nat_mod_distrib)
  with 1 show ?case by (subst show_digits.simps, subst show_nat.simps) auto
qed

lemma show_int_code [code]: "show_int i = (if i < 0 then CHR ''-'' # show_digits (- i) else show_digits i)"
  using show_digits_nat [of "nat i"] show_digits_nat [of "nat (- i)"] by (auto simp: show_int_def split: if_splits)

end
