(* ===== verification/Bemu_Main.thy ===== *)
theory Bemu_Main
  imports Bemu_Machine Clib
begin

text \<open>
  Start-up of the emulator: the option loop and the initialisation of \<^verbatim>\<open>main\<close>. The host
  files are an argument \<open>files\<close>, a map from paths to contents (\<open>None\<close>: \<^verbatim>\<open>fopen\<close> fails).
  \<open>Undefined\<close> stands for undefined behaviour of C: a missing option argument, a division by the
  target speed 0, a ROM image larger than the allocated memory. The terminal settings, the
  messages and the clean-up after \<^verbatim>\<open>execute\<close> are not modelled.
\<close>

definition strtol0 :: "string \<Rightarrow> int" where
  "strtol0 s = strtol_clip 64 s"

section \<open>The option loop\<close>

record options =
  start_pc :: u16
  opt_rom_size :: u16
  opt_rom :: "u8 list option"
  opt_breakpoint :: u16
  opt_enable_breakpoint :: bool
  opt_fdc :: FDC_t
  target_speed :: int
  opt_old_format :: bool
  opt_debug :: bool

definition default_options :: options where
  "default_options =
     \<lparr>start_pc = 0, opt_rom_size = 0x2000, opt_rom = None, opt_breakpoint = 0,
      opt_enable_breakpoint = False,
      opt_fdc = \<lparr>fdc_status = 0, fdc_count = 0, lba = 0, dma = 0, disk = None\<rparr>,
      target_speed = 4000000, opt_old_format = True, opt_debug = False\<rparr>"

datatype 'a outcome = Exit int | Undefined | Continue 'a

text \<open>
  \<^verbatim>\<open>argv[i+1]\<close> is the next argument; the loop does not skip it, so it is examined again as
  an option of its own.
\<close>

fun parse_options :: "(string \<Rightarrow> u8 list option) \<Rightarrow> string list \<Rightarrow> options \<Rightarrow> options outcome" where
  "parse_options files [] o1 = Continue o1"
| "parse_options files (a # rest) o1 =
     (let number = (\<lambda>upd. if rest = [] then Undefined
                          else parse_options files rest (upd (strtol0 (hd rest))))
      in
      if a = ''--debug'' then parse_options files rest (o1\<lparr>opt_debug := True\<rparr>)
      else if a = ''-pc'' then number (\<lambda>n. o1\<lparr>start_pc := of_int n\<rparr>)
      else if a = ''--romsize'' then number (\<lambda>n. o1\<lparr>opt_rom_size := of_int n\<rparr>)
      else if a = ''--ramsize'' then number (\<lambda>n. o1)
      else if a = ''--rom'' then
        (if rest = [] then Undefined
         else case files (hd rest) of None \<Rightarrow> Exit 1
              | Some f \<Rightarrow> parse_options files rest (o1\<lparr>opt_rom := Some f\<rparr>))
      else if a = ''-bp'' then
        number (\<lambda>n. o1\<lparr>opt_breakpoint := of_int n, opt_enable_breakpoint := True\<rparr>)
      else if a = ''-fd'' then
        (if rest = [] then Undefined
         else case fdc_init (files (hd rest)) of None \<Rightarrow> Exit 1
              | Some f \<Rightarrow> parse_options files rest (o1\<lparr>opt_fdc := f\<rparr>))
      else if a = ''--speed'' then number (\<lambda>n. o1\<lparr>target_speed := n\<rparr>)
      else if a = ''--newformat'' then parse_options files rest (o1\<lparr>opt_old_format := False\<rparr>)
      else if a = ''--help'' \<or> a = ''-h'' then Exit 0
      else parse_options files rest o1)"

section \<open>Power-on\<close>

definition load_image :: "u8 list \<Rightarrow> u16 \<Rightarrow> u8" where
  "load_image img a = (if unat a < length img then img ! unat a else 0)"

definition power_on :: "options \<Rightarrow> u8 list \<Rightarrow> machine" where
  "power_on o1 img =
     \<lparr>regs = (\<lambda>_. 0), shadow_regs = (\<lambda>_. 0), flags = 0, shadow_flags = 0, ix = 0, iy = 0,
      pc = start_pc o1, sp = 0, wz = 0, i_reg = 0, r_reg = 0, im = 0, iff1 = False, iff2 = False,
      halt = False, cycles = 0, memory = load_image img, rom_size = opt_rom_size o1,
      fdc = opt_fdc o1, acia = ACIA_init, interrupt_pending = False,
      old_format = opt_old_format o1, out_chars = []\<rparr>"

definition main_start :: "(string \<Rightarrow> u8 list option) \<Rightarrow> string list \<Rightarrow> emulator outcome" where
  "main_start files args =
     (if args = [] then Exit 1
      else case parse_options files args default_options of
        Exit n \<Rightarrow> Exit n
      | Undefined \<Rightarrow> Undefined
      | Continue o1 \<Rightarrow>
          (case opt_rom o1 of None \<Rightarrow> Exit 1
           | Some img \<Rightarrow>
               if target_speed o1 = 0 \<or> MEM_SIZE < length img then Undefined
               else Continue
                 \<lparr>mach = power_on o1 img, phase_of = Loop, total_cycles = 0,
                  breakpoint = opt_breakpoint o1, enable_breakpoint = opt_enable_breakpoint o1,
                  input_thread_stop = False, input_thread_done = False, print_ins = opt_debug o1, debug_out = []\<rparr>))"

section \<open>Safety of every run\<close>

lemma main_start_Continue:
  assumes "main_start files args = Continue e"
  obtains o1 img where "parse_options files args default_options = Continue o1"
    and "opt_rom o1 = Some img" and "length img \<le> MEM_SIZE" and "mach e = power_on o1 img"
  using assms
  by (auto simp: main_start_def split: if_splits outcome.splits option.splits)

text \<open>
  C1: the ROM is read-only. Started by \<^verbatim>\<open>main\<close> from a ROM file, the emulator holds in the
  ROM area the bytes of that file (zero after its end) in every state that any interleaving of the
  main thread, the input thread and the debugger reaches: no instruction, no interrupt entry and
  no DMA transfer of the floppy controller changes them.
\<close>

theorem rom_protected:
  assumes "main_start files args = Continue e" and "reaches e evs e'"
  shows "\<exists>o1 img. parse_options files args default_options = Continue o1 \<and> opt_rom o1 = Some img \<and>
    rom_size (mach e') = opt_rom_size o1 \<and>
    (\<forall>a. a < opt_rom_size o1 \<longrightarrow> memory (mach e') a = load_image img a)"
proof -
  obtain o1 img where o1: "parse_options files args default_options = Continue o1"
    "opt_rom o1 = Some img" "mach e = power_on o1 img"
    using main_start_Continue [OF assms(1)] by metis
  have "rom_is (opt_rom_size o1) (load_image img) (mach e)"
    by (simp add: o1(3) power_on_def rom_is_def)
  from rom_emu.inv_reaches [OF assms(2) this] show ?thesis
    using o1 by (auto simp: rom_is_def)
qed

definition demo_files :: "string \<Rightarrow> u8 list option" where
  "demo_files path = (if path = ''manux.rom'' then Some [0x32, 0x00, 0x00, 0x76] else None)"

text \<open>The emulator before the first instruction of a program in the ROM.\<close>

definition emulator_with :: "u8 list \<Rightarrow> emulator" where
  "emulator_with img =
     \<lparr>mach = power_on (default_options\<lparr>opt_rom := Some img\<rparr>) img,
      phase_of = Loop, total_cycles = 0, breakpoint = 0, enable_breakpoint = False,
      input_thread_stop = False, input_thread_done = False, print_ins = False, debug_out = []\<rparr>"

definition demo_emulator :: emulator where
  "demo_emulator = emulator_with [0x32, 0x00, 0x00, 0x76]"

lemma run_first: "run_events [Main, Main, Main] (emulator_with img) \<noteq> None \<and>
    (\<forall>e'. run_events [Main, Main, Main] (emulator_with img) = Some e' \<longrightarrow> mach e' = exec step (mach (emulator_with img)))"
  by (simp add: emulator_with_def execute_phase_def power_on_def default_options_def Let_def)

lemma demo_start: "main_start demo_files [''--rom'', ''manux.rom''] = Continue demo_emulator"
  by (simp add: main_start_def default_options_def demo_files_def demo_emulator_def emulator_with_def Let_def MEM_SIZE_def)

text \<open>The first instruction of the program, \<^verbatim>\<open>LD (0),A\<close>, stores into the ROM.\<close>

theorem rom_protected_witness:
  "\<exists>e'. run_events [Main, Main, Main] demo_emulator = Some e' \<and> mach e' = exec step (mach demo_emulator) \<and>
     memory (mach e') 0 = 0x32"
proof -
  obtain e' where e': "run_events [Main, Main, Main] demo_emulator = Some e'"
    "mach e' = exec step (mach demo_emulator)"
    using run_first unfolding demo_emulator_def by blast
  from e'(1) have "reaches demo_emulator [Main, Main, Main] e'" by (simp only: reaches_iff)
  from rom_protected [OF demo_start this] have "memory (mach e') 0 = 0x32"
    by (auto simp: default_options_def demo_files_def Let_def load_image_def)
  with e' show ?thesis by blast
qed

text \<open>
  C2: no access outside the arrays. A run of the emulator without instruction printing
  (\<^verbatim>\<open>--debug\<close>) and without a memory dump at the breakpoint prompt (\<^verbatim>\<open>m\<close>) is the same, event for
  event, state for state and line for line of the debugger's output, whatever stands in the byte
  after the \<open>MEM_SIZE\<close> bytes allocated for the memory and in the cells after the eight registers of
  the two register files: no instruction reads or writes there, and neither do the interrupt
  entry, the DMA transfers, the stack trace and the printed registers.
\<close>

theorem no_access_past_the_arrays:
  assumes "reaches e evs e'" and "\<not> print_ins e" and "Debug 0x6D \<notin> set evs"
  shows "reaches (e\<lparr>mach := poke_past_regs f g (poke_past_end b (mach e))\<rparr>) evs
                 (e'\<lparr>mach := poke_past_regs f g (poke_past_end b (mach e'))\<rparr>)"
  using past_regs_emu.fr_reaches [OF past_end_emu.fr_reaches [OF assms]] assms(2,3) by simp

text \<open>\<^verbatim>\<open>LD A,(0FFFFH)\<close> addresses the byte after the memory, which holds 3 here, and loads 0.\<close>

theorem no_access_past_the_arrays_witness:
  "\<exists>e'. run_events [Main, Main, Main] (let e = emulator_with [0x3A, 0xFF, 0xFF] in
       e\<lparr>mach := poke_past_regs (\<lambda>_. 1) (\<lambda>_. 2) (poke_past_end 3 (mach e))\<rparr>) = Some e' \<and>
     pc (mach e') = 3 \<and> regs (mach e') REG_A = 0 \<and> memory (mach e') 0xFFFF = 3"
proof -
  let ?e = "emulator_with [0x3A, 0xFF, 0xFF]"
  obtain e' where e': "run_events [Main, Main, Main] ?e = Some e'" "mach e' = exec step (mach ?e)" using run_first by blast
  have m: "pc (mach e') = 3" "regs (mach e') REG_A = 0"
    unfolding e'(2) by (simp_all add: emulator_with_def power_on_def default_options_def step_def fByte_def fWord_def mread8_def mread16_def
        load_image_def MEM_SIZE_def mk16_def dispatch_def group_x0_def group_x0_z2_def op_field_defs put_reg_def set_reg_def add_cycles_def)
  from e'(1) have "reaches ?e [Main, Main, Main] e'" by (simp only: reaches_iff)
  from no_access_past_the_arrays [OF this, of "\<lambda>_. 1" "\<lambda>_. 2" 3] have
    "run_events [Main, Main, Main] (?e\<lparr>mach := poke_past_regs (\<lambda>_. 1) (\<lambda>_. 2) (poke_past_end 3 (mach ?e))\<rparr>) =
      Some (e'\<lparr>mach := poke_past_regs (\<lambda>_. 1) (\<lambda>_. 2) (poke_past_end 3 (mach e'))\<rparr>)"
    by (simp only: reaches_iff) (simp add: emulator_with_def)
  then show ?thesis using m by (simp add: Let_def poke_past_regs_def poke_past_end_def)
qed

text \<open>The memory dump does read that byte: its last row ends with it.\<close>

lemma print_memory_past_end: "b \<noteq> c \<Longrightarrow> print_memory (poke_past_end b m) \<noteq> print_memory (poke_past_end c m)"
proof
  assume "b \<noteq> c" "print_memory (poke_past_end b m) = print_memory (poke_past_end c m)"
  moreover have "0xFFF \<in> set [0..<(MEM_SIZE + 15) div 16]" unfolding set_upt by (simp add: MEM_SIZE_def)
  ultimately have "memory_row (poke_past_end b m) 0xFFF = memory_row (poke_past_end c m) 0xFFF"
    unfolding print_memory_def map_eq_conv by blast
  moreover have "15 \<in> set [0..<16 :: nat]" by simp
  ultimately have "memory (poke_past_end b m) (of_nat (16 * 0xFFF + 15)) = memory (poke_past_end c m) (of_nat (16 * 0xFFF + 15))"
    unfolding memory_row_def debug_line.inject map_eq_conv by blast
  then show False using \<open>b \<noteq> c\<close> by (simp add: poke_past_end_def)
qed

end
