(* ===== verification/Bemu_Instr.thy ===== *)
theory Bemu_Instr
  imports Bemu_Main
begin

text \<open>
  What single instructions and short runs of them do: the decoder, the stack, the block copy,
  the register exchanges, the interrupt entry and the serial input path.
\<close>

text \<open>An address that a write reaches: in the allocated memory and not in the ROM.\<close>

definition writable :: "machine \<Rightarrow> u16 \<Rightarrow> bool" where
  "writable m a \<longleftrightarrow> rom_size m \<le> a \<and> unat a < MEM_SIZE"

text \<open>The state after \<open>k\<close> rounds of a block copy.\<close>

definition copied :: "nat \<Rightarrow> machine \<Rightarrow> machine \<Rightarrow> bool" where
  "copied k m m' \<longleftrightarrow>
     HL m' = HL m + of_nat k \<and> DE m' = DE m + of_nat k \<and> BC m' = BC m - of_nat k \<and>
     rom_size m' = rom_size m \<and>
     (\<forall>i<k. memory m' (DE m + of_nat i) = mread8 (HL m + of_nat i) m) \<and>
     (\<forall>a. (\<forall>i<k. a \<noteq> DE m + of_nat i) \<longrightarrow> memory m' a = memory m a)"

section \<open>Symbolic execution\<close>

lemma prim_simps [simp]:
  "exec fByte m = m\<lparr>pc := pc m + 1\<rparr>" "eval fByte m = mread8 (pc m) m"
  "exec fWord m = m\<lparr>pc := pc m + 2\<rparr>" "eval fWord m = mread16 (pc m) m"
  "exec (push w) m = mwrite16 (sp m - 2) w (m\<lparr>sp := sp m - 2\<rparr>)"
  "exec pop m = m\<lparr>sp := sp m + 2\<rparr>" "eval pop m = mread16 (sp m) m"
  "exec (add_cycles n) m = m\<lparr>cycles := cycles m + n\<rparr>"
  "exec (jump_to a) m = m\<lparr>pc := a\<rparr>" "exec (jump_rel d) m = m\<lparr>pc := pc m + scast d\<rparr>"
  "exec (get_reg k) m = m" "eval (get_reg k) m = regs m k" "exec (put_reg k b) m = set_reg k b m"
  by (simp_all add: fByte_def fWord_def push_def pop_def add_cycles_def jump_to_def jump_rel_def
      get_reg_def put_reg_def mread8_def)

lemma exec_step:
  "exec step m = exec (dispatch (mread8 (pc m) m)) (m\<lparr>pc := pc m + 1, r_reg := (r_reg m + 1) AND 0x7F\<rparr>)"
  by (simp add: step_def)


lemma set_pairs_sel [simp]:
  "memory (set_hl v m) = memory m" "memory (set_de v m) = memory m" "memory (set_bc v m) = memory m"
  "rom_size (set_hl v m) = rom_size m" "rom_size (set_de v m) = rom_size m" "rom_size (set_bc v m) = rom_size m"
  "pc (set_hl v m) = pc m" "pc (set_de v m) = pc m" "pc (set_bc v m) = pc m"
  "HL (set_hl v m) = v" "HL (set_de v m) = HL m" "HL (set_bc v m) = HL m"
  "DE (set_hl v m) = DE m" "DE (set_de v m) = v" "DE (set_bc v m) = DE m"
  "BC (set_hl v m) = BC m" "BC (set_de v m) = BC m" "BC (set_bc v m) = v"
  by (simp_all add: set_hl_def set_de_def set_bc_def pair_defs)

lemma pairs_frame [simp]:
  "HL (mwrite8 a b m) = HL m" "DE (mwrite8 a b m) = DE m" "BC (mwrite8 a b m) = BC m"
  "HL (setFlag k t m) = HL m" "DE (setFlag k t m) = DE m" "BC (setFlag k t m) = BC m"
  "HL (m\<lparr>pc := w\<rparr>) = HL m" "DE (m\<lparr>pc := w\<rparr>) = DE m" "BC (m\<lparr>pc := w\<rparr>) = BC m"
  "HL (m\<lparr>r_reg := b\<rparr>) = HL m" "DE (m\<lparr>r_reg := b\<rparr>) = DE m" "BC (m\<lparr>r_reg := b\<rparr>) = BC m"
  "HL (m\<lparr>cycles := n\<rparr>) = HL m" "DE (m\<lparr>cycles := n\<rparr>) = DE m" "BC (m\<lparr>cycles := n\<rparr>) = BC m"
  by (simp_all add: pair_defs)

lemma mread8_frame [simp]:
  "mread8 a (m\<lparr>pc := w\<rparr>) = mread8 a m" "mread8 a (m\<lparr>r_reg := b\<rparr>) = mread8 a m"
  "mread8 a (m\<lparr>sp := w\<rparr>) = mread8 a m" "mread8 a (m\<lparr>cycles := n\<rparr>) = mread8 a m"
  by (simp_all add: mread8_def)

lemma memory_mwrite8:
  "memory (mwrite8 a b m) =
     (if MEM_SIZE \<le> unat a \<or> a < rom_size m then memory m else (memory m)(a := b))"
  by (simp add: mwrite8_def)

lemma memory_mwrite8_writable: "writable m a \<Longrightarrow> memory (mwrite8 a b m) = (memory m)(a := b)"
  by (auto simp: writable_def memory_mwrite8)

lemma ldir_step:
  assumes "mread8 (pc m) m = 0xED" "mread8 (pc m + 1) m = 0xB0"
  shows "memory (exec step m) = memory (mwrite8 (DE m) (mread8 (HL m) m) m)"
    and "HL (exec step m) = HL m + 1" and "DE (exec step m) = DE m + 1" and "BC (exec step m) = BC m - 1"
    and "pc (exec step m) = (if BC m = 1 then pc m + 2 else pc m)"
    and "rom_size (exec step m) = rom_size m"
  using assms
  by (simp_all add: exec_step dispatch_def group_x3_def prefix_ed_def op_block_instruction_def op_field_defs
     step_hl_def step_de_def inc16_def dec16_def repeat_op_def exec_if Let_def memory_mwrite8)

lemma ldir_prefix:
  fixes m :: machine
  defines "n \<equiv> (if BC m = 0 then 0x10000 else unat (BC m))"
  assumes code: "mread8 (pc m) m = 0xED" "mread8 (pc m + 1) m = 0xB0"
    and dst: "\<And>i. i < n \<Longrightarrow> writable m (DE m + of_nat i) \<and>
      DE m + of_nat i \<noteq> pc m \<and> DE m + of_nat i \<noteq> pc m + 1"
    and src: "\<And>i j. i < j \<Longrightarrow> j < n \<Longrightarrow> DE m + of_nat i \<noteq> HL m + of_nat j"
  shows "k \<le> n \<Longrightarrow> copied k m ((exec step ^^ k) m) \<and>
      pc ((exec step ^^ k) m) = (if k = n then pc m + 2 else pc m)"
proof (induction k)
  case 0
  then show ?case by (auto simp: copied_def n_def unat_gt_0)
next
  case (Suc k)
  have n: "n \<le> 0x10000" "BC m = of_nat n"
    using unat_u16_less [of "BC m"] by (auto simp: n_def)
  have inj: "DE m + of_nat i \<noteq> DE m + of_nat j" if "i < j" "j < n" for i j
    using that n of_nat_u16_eq [of i j] by simp
  define s where "s = (exec step ^^ k) m"
  have kn: "k < n" using Suc.prems by simp
  have cs: "copied k m s" and pcs: "pc s = pc m" using Suc kn by (simp_all add: s_def)
  have frame: "memory s a = memory m a" if "\<And>i. i < k \<Longrightarrow> a \<noteq> DE m + of_nat i" for a
    using cs that by (simp add: copied_def)
  have frame8: "mread8 a s = mread8 a m" if "\<And>i. i < k \<Longrightarrow> a \<noteq> DE m + of_nat i" for a
    using frame [OF that] by (simp add: mread8_def)
  have codes: "mread8 (pc s) s = 0xED" "mread8 (pc s + 1) s = 0xB0"
    using code dst kn frame8 pcs by (metis order.strict_trans)+
  note st = ldir_step [OF codes]
  have hl: "HL s = HL m + of_nat k" and de: "DE s = DE m + of_nat k" and bc: "BC s = BC m - of_nat k"
    and rs: "rom_size s = rom_size m" using cs by (simp_all add: copied_def)
  have rd: "mread8 (HL s) s = mread8 (HL m + of_nat k) m"
    unfolding hl using src [OF _ kn] by (intro frame8) metis
  have "writable s (DE s)" using dst [OF kn] rs de by (simp add: writable_def)
  then have mem: "memory (exec step s) = (memory s)(DE m + of_nat k := mread8 (HL m + of_nat k) m)"
    by (simp only: st(1) memory_mwrite8_writable rd de)
  have "copied (Suc k) m (exec step s)"
    unfolding copied_def mem using st(2-4,6) hl de bc rs cs inj [OF _ kn]
    by (auto simp: copied_def less_Suc_eq)
  moreover have "BC s = 1 \<longleftrightarrow> (of_nat (Suc k) :: u16) = of_nat n"
    unfolding bc n(2) by (auto simp: algebra_simps)
  then have "BC s = 1 \<longleftrightarrow> Suc k = n"
    using of_nat_u16_eq_pos [of "Suc k" n] n(1) kn by simp
  then have "pc (exec step s) = (if Suc k = n then pc m + 2 else pc m)" using st(5) pcs by simp
  ultimately show ?case by (simp add: s_def)
qed

section \<open>Block copy\<close>

text \<open>
  C7: LDIR is a memory copy. If the destination is writable, does not cover the instruction and
  does not overwrite source bytes before they are read, then \<open>BC\<close> steps (65536 if BC = 0)
  copy \<open>BC\<close> bytes from HL to DE, change no other byte, and only then move on to the next
  instruction.
\<close>

theorem ldir_copies:
  assumes "mread8 (pc m) m = 0xED" and "mread8 (pc m + 1) m = 0xB0"
    and "n = (if BC m = 0 then 0x10000 else unat (BC m))"
    and "\<And>i. i < n \<Longrightarrow> writable m (DE m + of_nat i) \<and>
      DE m + of_nat i \<noteq> pc m \<and> DE m + of_nat i \<noteq> pc m + 1"
    and "\<And>i j. i < j \<Longrightarrow> j < n \<Longrightarrow> DE m + of_nat i \<noteq> HL m + of_nat j"
  shows "copied n m ((exec step ^^ n) m) \<and> pc ((exec step ^^ n) m) = pc m + 2 \<and>
    (\<forall>k<n. pc ((exec step ^^ k) m) = pc m)"
  using ldir_prefix [OF assms(1,2), folded assms(3), OF assms(4,5)] by auto

definition ldir_example :: machine where
  "ldir_example = (power_on default_options [0xED, 0xB0, 7, 9])
     \<lparr>regs := (\<lambda>_. 0)(REG_C := 2, REG_D := 0x30, REG_L := 2)\<rparr>"

lemma ldir_example_regs:
  "BC ldir_example = 2" "DE ldir_example = 0x3000" "HL ldir_example = 2" "pc ldir_example = 0"
  "rom_size ldir_example = 0x2000" "memory ldir_example = load_image [0xED, 0xB0, 7, 9]"
  by (simp_all add: ldir_example_def pair_defs mk16_def power_on_def default_options_def)

theorem ldir_copies_witness:
  "copied 2 ldir_example ((exec step ^^ 2) ldir_example)"
proof -
  have "i = 0 \<or> i = 1" if "i < 2" for i :: nat using that by auto
  then show ?thesis
    using ldir_copies [of ldir_example 2]
    by (force simp: ldir_example_regs mread8_def MEM_SIZE_def load_image_def writable_def)
qed

section \<open>Stack\<close>

lemma memory_mwrite16:
  "memory (mwrite16 a w m) =
     (if MEM_SIZE \<le> unat a + 1 \<or> a < rom_size m then memory m
      else (memory m)(a := GET_LOW w, a + 1 := GET_HIGH w))"
  by (simp add: mwrite16_def)

lemma mread16_mwrite16:
  assumes "rom_size m \<le> a" and "unat a + 1 < MEM_SIZE"
  shows "mread16 a (mwrite16 a w m) = w"
  using assms by (auto simp: mread16_def memory_mwrite16)

lemma mread8_mwrite16_other:
  "b \<noteq> a \<Longrightarrow> b \<noteq> a + 1 \<Longrightarrow> mread8 b (mwrite16 a w m) = mread8 b m"
  by (simp add: mread8_def memory_mwrite16)

lemma mread16_frame [simp]:
  "mread16 a (m\<lparr>pc := w\<rparr>) = mread16 a m" "mread16 a (m\<lparr>r_reg := b\<rparr>) = mread16 a m"
  "mread16 a (m\<lparr>sp := w\<rparr>) = mread16 a m" "mread16 a (m\<lparr>cycles := n\<rparr>) = mread16 a m"
  by (simp_all add: mread16_def)

lemma ret_step:
  assumes "mread8 (pc m) m = 0xC9"
  shows "pc (exec step m) = mread16 (sp m) m" and "sp (exec step m) = sp m + 2"
    and "regs (exec step m) = regs m" and "flags (exec step m) = flags m"
  using assms by (simp_all add: exec_step dispatch_def group_x3_def group_x3_z1_def op_field_defs)

text \<open>
  C8: a CALL to a routine that returns at once comes back to the instruction after the call with
  the stack pointer, the registers and the flags it had, provided the two stack bytes are RAM and
  are not the RET instruction itself.
\<close>

theorem call_ret:
  assumes "mread8 (pc m) m = 0xCD" and "mread16 (pc m + 1) m = target"
    and "mread8 target m = 0xC9" and "target \<noteq> sp m - 2" and "target \<noteq> sp m - 1"
    and "rom_size m \<le> sp m - 2" and "unat (sp m - 2) + 1 < MEM_SIZE"
  shows "let m' = exec step (exec step m) in
    pc m' = pc m + 3 \<and> sp m' = sp m \<and> regs m' = regs m \<and> flags m' = flags m"
proof -
  have call: "exec step m = mwrite16 (sp m - 2) (3 + pc m)
      (m\<lparr>r_reg := (r_reg m + 1) AND 0x7F, pc := 3 + pc m, sp := sp m - 2\<rparr>)
        \<lparr>pc := target, cycles := cycles m + 17\<rparr>"
    using assms(1,2) by (simp add: exec_step dispatch_def group_x3_def op_field_defs)
  have "target \<noteq> sp m - 2 + 1" using assms(5) by (simp add: algebra_simps)
  then have "mread8 (pc (exec step m)) (exec step m) = 0xC9"
    using assms(3,4) by (simp add: call mread8_mwrite16_other)
  moreover have "mread16 (sp m - 2) (exec step m) = 3 + pc m"
    using assms(6,7) by (simp add: call mread16_mwrite16)
  ultimately show ?thesis
    using ret_step [of "exec step m"] by (simp add: Let_def) (simp add: call add.commute)
qed

definition call_example :: machine where
  "call_example = (power_on default_options [0xCD, 4, 0, 0, 0xC9])\<lparr>sp := 0x4000\<rparr>"

theorem call_ret_witness:
  "pc (exec step (exec step call_example)) = 3"
  using call_ret [of call_example 4]
  by (simp add: call_example_def power_on_def default_options_def mread8_def mread16_def MEM_SIZE_def
      load_image_def mk16_def Let_def)

section \<open>Register exchanges\<close>

definition exx :: "machine \<Rightarrow> machine" where
  "exx m = exchange REG_HL REG_HL True (exchange REG_DE REG_DE True (exchange REG_BC REG_BC True m))"

lemma exec_exx: "exec (group_x3_z1 True 1) m = (exx m)\<lparr>cycles := cycles (exx m) + 4\<rparr>"
  by (simp add: group_x3_z1_def exx_def)

lemma less_6: "(k :: nat) < 6 \<longleftrightarrow> k = 0 \<or> k = 1 \<or> k = 2 \<or> k = 3 \<or> k = 4 \<or> k = 5"
  by presburger

lemma exx_regs:
  "regs (exx m) = (\<lambda>k. if k < 6 then shadow_regs m k else regs m k)"
  "shadow_regs (exx m) = (\<lambda>k. if k < 6 then regs m k else shadow_regs m k)"
  by (auto simp: exx_def exchange_def Let_def fun_eq_iff less_6)

lemma exx_eq:
  "exx m = m\<lparr>regs := \<lambda>k. if k < 6 then shadow_regs m k else regs m k,
     shadow_regs := \<lambda>k. if k < 6 then regs m k else shadow_regs m k\<rparr>"
proof -
  have "exx m = m\<lparr>regs := regs (exx m), shadow_regs := shadow_regs (exx m)\<rparr>"
    by (simp add: exx_def exchange_def Let_def)
  then show ?thesis by (simp only: exx_regs)
qed

lemma exchange_af_twice: "exchange_af (exchange_af (m :: machine)) = m"
  by (auto simp: exchange_af_def set_af_def set_reg_def AF_def Let_def intro!: machine.equality)

lemma exchange_de_hl_twice:
  "exchange REG_DE REG_HL False (exchange REG_DE REG_HL False (m :: machine)) = m"
  by (auto simp: exchange_main_eq set_reg_def intro!: machine.equality)

text \<open>
  the exchange instructions are involutions. EXX swaps exactly the six registers B to L with
  their shadows; EXX, EX AF,AF' and EX DE,HL executed twice restore the machine (EXX up to the
  eight cycles counted).
\<close>

theorem exchanges_involutive:
  "regs (exec (group_x3_z1 True 1) m) k = (if k < 6 then shadow_regs m k else regs m k) \<and>
   shadow_regs (exec (group_x3_z1 True 1) m) k = (if k < 6 then regs m k else shadow_regs m k) \<and>
   exec (group_x3_z1 True 1) (exec (group_x3_z1 True 1) m) = m\<lparr>cycles := cycles m + 8\<rparr> \<and>
   exchange_af (exchange_af m) = m \<and>
   exchange REG_DE REG_HL False (exchange REG_DE REG_HL False m) = m"
  unfolding exec_exx
  by (auto simp: exx_eq exchange_af_twice exchange_de_hl_twice fun_eq_iff intro!: machine.equality)

section \<open>Interrupts\<close>

lemma exec_interrupt:
  "exec interrupt m =
     (if iff1 m \<and> im m = 1
      then (mwrite16 (sp m - 2) (pc m) (m\<lparr>iff1 := False, iff2 := False, sp := sp m - 2\<rparr>))\<lparr>pc := 0x38\<rparr>
      else m)"
  by (simp add: interrupt_def exec_if)

text \<open>
  C9: how a pending interrupt is served. Enabled and in mode 1, the next three phases of the loop
  disable further interrupts, save the program counter on the stack (when it is RAM) and continue
  at 0x38. Disabled, or in another mode, the request is cleared as well and nothing else changes:
  the emulator drops it instead of keeping it until interrupts are enabled.
\<close>

theorem interrupt_service:
  assumes "phase_of e = Pending" and "interrupt_pending (mach e)"
  shows "\<exists>e'. run_events [Main, Main, Main] e = Some e' \<and> phase_of e' = Run \<and>
    (if iff1 (mach e) \<and> im (mach e) = 1 then
       pc (mach e') = 0x38 \<and> sp (mach e') = sp (mach e) - 2 \<and>
       \<not> iff1 (mach e') \<and> \<not> iff2 (mach e') \<and> \<not> interrupt_pending (mach e') \<and>
       (rom_size (mach e) \<le> sp (mach e) - 2 \<and> unat (sp (mach e) - 2) + 1 < MEM_SIZE \<longrightarrow>
        mread16 (sp (mach e')) (mach e') = pc (mach e))
     else mach e' = (mach e)\<lparr>interrupt_pending := False\<rparr>)"
  using assms
  by (auto simp: execute_phase_def Let_def exec_interrupt mread16_def memory_mwrite16)

definition irq_example :: emulator where
  "irq_example =
     \<lparr>mach = (power_on default_options [])\<lparr>sp := 0x4000, pc := 0x1234, iff1 := True, im := 1,
        interrupt_pending := True\<rparr>,
      phase_of = Pending, total_cycles = 0, breakpoint = 0, enable_breakpoint = False,
      input_thread_stop = False, input_thread_done = False, print_ins = False, debug_out = []\<rparr>"

theorem interrupt_service_witness:
  "\<exists>e'. run_events [Main, Main, Main] irq_example = Some e' \<and>
     mread16 (sp (mach e')) (mach e') = 0x1234"
  using interrupt_service [of irq_example]
  by (fastforce simp: irq_example_def power_on_def default_options_def MEM_SIZE_def)

text \<open>
  C10: the two threads race on \<^verbatim>\<open>interrupt_pending\<close>. A character that arrives after
  \<^verbatim>\<open>interrupt\<close> has run and before the main loop clears the flag requests an interrupt that
  is lost: the character is in the receive register with its flag set, and no interrupt is pending.
\<close>

theorem interrupt_lost_in_race:
  assumes "phase_of e = Clear" and "\<not> input_thread_done e" and "ctrl (acia (mach e)) AND ACIA_RIE \<noteq> 0"
  shows "\<exists>e1 e2. run_events [Key c] e = Some e1 \<and> interrupt_pending (mach e1) \<and>
    run_events [Main] e1 = Some e2 \<and> phase_of e2 = Run \<and> \<not> interrupt_pending (mach e2) \<and>
    status (acia (mach e2)) AND ACIA_RDRF \<noteq> 0"
  using assms
  by (auto simp: execute_phase_def Let_def input_event_def input_char_def ACIA_RDRF_def u8_mask_bits bit_or_iff)

theorem interrupt_lost_in_race_witness:
  "\<exists>e2. run_events [Key 0x41, Main]
     (irq_example\<lparr>phase_of := Clear, mach := (mach irq_example)\<lparr>acia := ACIA_init\<lparr>ctrl := 0x80\<rparr>\<rparr>\<rparr>) = Some e2 \<and>
     \<not> interrupt_pending (mach e2)"
  using interrupt_lost_in_race [where c = 65 and
      e = "irq_example\<lparr>phase_of := Clear, mach := (mach irq_example)\<lparr>acia := ACIA_init\<lparr>ctrl := 0x80\<rparr>\<rparr>\<rparr>"]
  by (auto simp: irq_example_def ACIA_RIE_def split: option.splits)

section \<open>Serial input\<close>

text \<open>The receiver as a one-character buffer.\<close>

definition rx_abs :: "ACIA_t \<Rightarrow> u8 option" where
  "rx_abs a = (if status a AND ACIA_RDRF \<noteq> 0 then Some (receive a) else None)"

text \<open>
  the ACIA receiver refines a one-character buffer. A character typed on the host (newline
  converted to carriage return in the old format) is what the buffer holds next, whether or not
  it held one; if it held one the overrun bit is set; reading port 0x81 returns the character and
  empties the buffer and the overrun bit, and reading the status port changes nothing.
\<close>

theorem acia_receive_buffer:
  "rx_abs (acia (input_char c m)) = Some (if old_format m \<and> c = 10 then 13 else c) \<and>
   (rx_abs (acia m) \<noteq> None \<longrightarrow> status (acia (input_char c m)) AND ACIA_OVRN \<noteq> 0) \<and>
   (rx_abs (acia m) = Some x \<longrightarrow> eval (input_handler 0x81) m = x) \<and>
   rx_abs (acia (exec (input_handler 0x81) m)) = None \<and>
   status (acia (exec (input_handler 0x81) m)) AND ACIA_OVRN = 0 \<and>
   exec (input_handler 0x80) m = m"
  by (auto simp: rx_abs_def input_char_def Let_def input_handler_def ACIA_read_data_def ACIA_RDRF_def
      ACIA_OVRN_def u8_mask_bits bit_or_iff bit_and_iff bit_not_iff)

theorem acia_receive_buffer_witness:
  "eval (input_handler 0x81) (input_char 0x41 (power_on default_options [])) = 0x41"
  using acia_receive_buffer [where c = 65 and m = "power_on default_options []"]
    acia_receive_buffer [where m = "input_char 0x41 (power_on default_options [])" and x = 65]
  by simp

section \<open>Instructions that do not do what they name\<close>

text \<open>
  ADC HL,rr never reports a signed overflow: whenever the signed sum with carry leaves the
  16-bit range, the overflow flag is clear, because \<open>adc16\<close> uses the overflow condition of a
  subtraction.
\<close>

theorem adc16_never_reports_overflow:
  assumes "sint x + sint y + int (unat (getFlag FLAG_C m)) \<notin> {- 32768..<32768}"
  shows "getFlag FLAG_PV (exec (adc16 x y) m) = 0"
proof -
  let ?c = "ucast (getFlag FLAG_C m) :: u16"
  have "bit x 15 = bit y 15"
    using signed_add_overflow [of ?c x y] getFlag_u16_le_1 [of FLAG_C m] assms
    by (simp add: unat_ucast_up)
  then have "getFlag FLAG_PV (exec (adc16 x y) m) \<noteq> 1"
    using adc16_flags [of x y m] by (simp add: flags_are_def)
  then show ?thesis by (simp add: getFlag_def split: if_splits)
qed

theorem adc16_never_reports_overflow_witness:
  "getFlag FLAG_PV (exec (adc16 0x7FFF 1) (power_on default_options [])) = 0"
  by (rule adc16_never_reports_overflow) (simp add: power_on_def getFlag_def)

text \<open>
  the CB-prefixed RR is RL. Entry 3 of the shift table (opcodes CB 18 to CB 1F) performs the
  left rotation through carry: RR of 1 with a clear carry leaves 2 instead of 0, in the plain and
  in the indexed table alike.
\<close>

theorem cb_rr_rotates_left:
  "cb_shift 3 v = rl8 v \<and>
   (bit (eval (cb_shift 3 v) m) n \<longleftrightarrow> n < 8 \<and> (if n = 0 then getFlag FLAG_C m = 1 else bit v (n - 1))) \<and>
   eval (cb_shift 3 1) (power_on default_options []) = 2 \<and>
   eval (rr8 1) (power_on default_options []) = 0"
  using shift_results(2) [of v m n] by (simp add: cb_shift_def rl8_def rr8_def getFlag_def power_on_def Let_def)

lemma only_flags_sel:
  assumes "only_flags f"
  shows "memory (exec f m) = memory m" and "regs (exec f m) = regs m"
    and "ix (exec f m) = ix m" and "iy (exec f m) = iy m"
proof -
  obtain F where "exec f m = m\<lparr>flags := F\<rparr>" using assms by (auto simp: only_flags_def)
  then show "memory (exec f m) = memory m" "regs (exec f m) = regs m"
    "ix (exec f m) = ix m" "iy (exec f m) = iy m" by simp_all
qed

lemma cb_shift_only_flags: "only_flags (cb_shift y v)"
  by (simp add: cb_shift_def alu_only_flags)

text \<open>
  the indexed CB instructions never write their result: shifts, RES and SET on (IX+d) or
  (IY+d) leave memory, registers and index registers as they were.
\<close>

theorem cb_index_has_no_effect:
  "memory (exec (prefix_cb_index ip) m) = memory m \<and> regs (exec (prefix_cb_index ip) m) = regs m \<and>
   ix (exec (prefix_cb_index ip) m) = ix m \<and> iy (exec (prefix_cb_index ip) m) = iy m"
  by (simp add: prefix_cb_index_def Let_def get_index_addr_def exec_if
      only_flags_sel [OF cb_shift_only_flags] only_flags_sel [OF bit8_only_flags])

end
