(* ===== verification/Bemu_Fdc.thy ===== *)
theory Bemu_Fdc
  imports Bemu_Instr
begin

text \<open>
  The floppy controller as a disk. \<open>fdc_cmd\<close> moves sectors between the image and memory; the
  lemmas give its exact effect on both, sector by sector and for a whole command, and the
  properties state it for the port protocol of the kernel's driver (\<^verbatim>\<open>driver/disk.asm\<close>).
\<close>

section \<open>Specification\<close>

definition mem_bytes :: "machine \<Rightarrow> u16 \<Rightarrow> nat \<Rightarrow> u8 list" where
  "mem_bytes m a n = map (\<lambda>i. mread8 (a + of_nat i) m) [0..<n]"

text \<open>Memory after bytes arrived from address \<open>a\<close> on: only writable addresses take them.\<close>

definition store_bytes :: "u16 \<Rightarrow> u8 list \<Rightarrow> machine \<Rightarrow> u16 \<Rightarrow> u8" where
  "store_bytes a bs m b =
     (if unat (b - a) < length bs \<and> writable m b then bs ! unat (b - a) else memory m b)"

text \<open>The driver's port writes: count, block address, DMA address, command.\<close>

definition disk_ports :: "u8 \<Rightarrow> u8 \<Rightarrow> u16 \<Rightarrow> u16 \<Rightarrow> unit z80" where
  "disk_ports cmd count de hl = do {
     output_handler 0x16 count;
     output_handler 0x11 (GET_LOW de);
     output_handler 0x12 (GET_HIGH de);
     output_handler 0x13 (GET_LOW hl);
     output_handler 0x14 (GET_HIGH hl);
     output_handler 0x10 cmd
   }"

section \<open>One sector\<close>

lemma writable_mwrite8 [simp]: "writable (mwrite8 a x m) b = writable m b"
  by (simp add: writable_def)

lemma store_bytes_Nil [simp]: "store_bytes a [] m = memory m"
  by (simp add: store_bytes_def fun_eq_iff)

lemma unat_sub_1: "(x :: u16) \<noteq> 0 \<Longrightarrow> unat x = Suc (unat (x - 1))"
  using unat_minus_one [of x] by (simp add: unat_gt_0)

lemma store_bytes_Cons:
  assumes "length bs < 0xFFFF"
  shows "store_bytes a (x # bs) m = store_bytes (a + 1) bs (mwrite8 a x m)"
proof
  fix b
  have wr: "\<not> (MEM_SIZE \<le> unat a \<or> a < rom_size m) \<longleftrightarrow> writable m a"
    by (auto simp: writable_def)
  show "store_bytes a (x # bs) m b = store_bytes (a + 1) bs (mwrite8 a x m) b"
  proof (cases "b = a")
    case True
    have "unat (a - (a + 1)) = unat (0xFFFF :: u16)"
      by (rule arg_cong [of _ _ unat]) simp
    then have "unat (a - (a + 1)) = 0xFFFF" by simp
    then show ?thesis using True assms wr by (auto simp: store_bytes_def memory_mwrite8)
  next
    case False
    then have "unat (b - a) = Suc (unat (b - (a + 1)))"
      using unat_sub_1 [of "b - a"] by (simp add: algebra_simps)
    then show ?thesis using False by (simp add: store_bytes_def memory_mwrite8)
  qed
qed

lemma store_bytes_append:
  assumes "length xs + length ys \<le> 0x10000"
    and "memory m' = store_bytes a xs m" and "rom_size m' = rom_size m"
  shows "store_bytes (a + of_nat (length xs)) ys m' = store_bytes a (xs @ ys) m"
proof
  fix b
  let ?k = "unat (b - a)" and ?n = "length xs"
  have k: "b - (a + of_nat ?n) = of_nat ?k - of_nat ?n" by (simp add: algebra_simps)
  have w: "writable m' b = writable m b" using assms(3) by (simp add: writable_def)
  show "store_bytes (a + of_nat ?n) ys m' b = store_bytes a (xs @ ys) m b"
  proof (cases "?n \<le> ?k")
    case True
    then have "b - (a + of_nat ?n) = of_nat (?k - ?n)" unfolding k by (simp add: of_nat_diff)
    then have "unat (b - (a + of_nat ?n)) = ?k - ?n"
      using unat_u16_less [of "b - a"] by (simp add: unat_of_nat)
    then show ?thesis using True w assms(2) by (auto simp: store_bytes_def nth_append)
  next
    case False
    then have "b - (a + of_nat ?n) = of_nat (0x10000 - (?n - ?k))"
      unfolding k using assms(1) by (simp add: of_nat_diff)
    then have "unat (b - (a + of_nat ?n)) = (0x10000 - (?n - ?k)) mod 0x10000"
      by (simp only: unat_of_nat) simp
    then have "unat (b - (a + of_nat ?n)) = 0x10000 - (?n - ?k)"
      using False assms(1) by simp
    then have "\<not> unat (b - (a + of_nat ?n)) < length ys" using False assms(1) by simp
    then show ?thesis using False w assms(2) by (auto simp: store_bytes_def nth_append)
  qed
qed

lemma fdc_read_loop_fields [simp]:
  "rom_size (fdc_read_loop i d bs m) = rom_size m" "fdc (fdc_read_loop i d bs m) = fdc m"
  by (induction i d bs m rule: fdc_read_loop.induct) simp_all

lemma fdc_read_loop_memory:
  "i \<le> FDC_SECTOR_SIZE \<Longrightarrow>
   memory (fdc_read_loop i d bs m) = store_bytes (d + of_nat i) (take (FDC_SECTOR_SIZE - i) bs) m"
proof (induction i d bs m rule: fdc_read_loop.induct)
  case (2 i d x rest m)
  then show ?case
    by (cases "i < FDC_SECTOR_SIZE")
      (simp_all add: take_Cons' store_bytes_Cons FDC_SECTOR_SIZE_def algebra_simps)
qed simp

lemma fputc_at_patch: "fputc_at pos v img = patch pos [v] img"
  by (auto simp: fputc_at_def patch_def upd_conv_take_nth_drop)

lemma fdc_write_loop_patch:
  "i \<le> FDC_SECTOR_SIZE \<Longrightarrow>
   fdc_write_loop i d pos m img =
     (if i < FDC_SECTOR_SIZE
      then patch pos (map (\<lambda>j. mread8 (d + of_nat j) m) [i..<FDC_SECTOR_SIZE]) img else img)"
proof (induction i d pos m img rule: fdc_write_loop.induct)
  case (1 i d pos m img)
  show ?case
  proof (cases "i < FDC_SECTOR_SIZE")
    case True
    let ?v = "mread8 (d + of_nat i) m" and ?f = "\<lambda>j. mread8 (d + of_nat j) m"
    have IH: "fdc_write_loop i d pos m img =
        (if Suc i < FDC_SECTOR_SIZE
         then patch (Suc pos) (map ?f [Suc i..<FDC_SECTOR_SIZE]) (patch pos [?v] img)
         else patch pos [?v] img)"
      using 1 True by (subst fdc_write_loop.simps) (simp add: fputc_at_patch)
    have "map ?f [i..<FDC_SECTOR_SIZE] = [?v] @ map ?f [Suc i..<FDC_SECTOR_SIZE]"
      using True by (simp add: upt_conv_Cons)
    then show ?thesis
      using IH True patch_append [of pos "[?v]" "map ?f [Suc i..<FDC_SECTOR_SIZE]" img] by auto
  next
    case False
    then show ?thesis by (subst fdc_write_loop.simps) simp
  qed
qed

corollary fdc_write_sector:
  "fdc_write_loop 0 d pos m img = patch pos (mem_bytes m d FDC_SECTOR_SIZE) img"
  by (simp add: fdc_write_loop_patch mem_bytes_def FDC_SECTOR_SIZE_def)

section \<open>A whole command\<close>

lemma fdc_loop_frame:
  "rom_size (fdc_loop c cmd l d m) = rom_size m"
proof (induction c cmd l d m rule: fdc_loop.induct)
  case (2 c cmd l d m)
  have "rom_size (fdc_sector cmd l d m) = rom_size m"
    by (simp add: fdc_sector_def Let_def split: option.split)
  then show ?case using 2 by simp
qed simp

lemma fdc_loop_read:
  assumes "disk (fdc m) = Some img" and "unat l + c \<le> 0x10000" and "c * FDC_SECTOR_SIZE \<le> 0x10000"
  shows "memory (fdc_loop c FDC_CMD_READ l d m) =
      store_bytes d (take (c * FDC_SECTOR_SIZE) (drop (unat l * FDC_SECTOR_SIZE) img)) m
    \<and> fdc (fdc_loop c FDC_CMD_READ l d m) = fdc m"
  using assms
proof (induction c arbitrary: l d m)
  case (Suc c)
  let ?S = "FDC_SECTOR_SIZE"
  let ?rest = "drop (unat l * ?S) img"
  let ?m1 = "fdc_sector FDC_CMD_READ l d m"
  have m1: "memory ?m1 = store_bytes d (take ?S ?rest) m" "fdc ?m1 = fdc m" "rom_size ?m1 = rom_size m"
    using Suc.prems(1) by (simp_all add: fdc_sector_def fdc_read_loop_memory)
  show ?case
  proof (cases c)
    case 0
    then show ?thesis using m1 by simp
  next
    case (Suc c')
    then have l1: "unat (l + 1) = Suc (unat l)" using Suc.prems(2) by (simp add: unat_word_ariths)
    let ?ys = "take (c * ?S) (drop ?S ?rest)"
    have f: "fdc (fdc_loop (Suc c) FDC_CMD_READ l d m) = fdc m"
      using Suc.IH [of ?m1 "l + 1" "d + of_nat ?S"] Suc.prems m1 l1 by simp
    have "memory (fdc_loop (Suc c) FDC_CMD_READ l d m) = store_bytes (d + of_nat ?S) ?ys ?m1"
      using Suc.IH [of ?m1 "l + 1" "d + of_nat ?S"] Suc.prems m1 l1 by (simp add: add.commute)
    also have "store_bytes (d + of_nat ?S) ?ys ?m1 = store_bytes d (take ?S ?rest @ ?ys) m"
    proof (cases "?S \<le> length ?rest")
      case True
      then have len: "length (take ?S ?rest) = ?S" by simp
      have "length ?ys \<le> c * ?S" by simp
      then have "length (take ?S ?rest) + length ?ys \<le> 0x10000" using len Suc.prems(3) by simp
      from store_bytes_append [OF this m1(1,3)] show ?thesis unfolding len .
    next
      case False
      then show ?thesis using m1 by simp
    qed
    also have "take ?S ?rest @ ?ys = take (Suc c * ?S) ?rest"
      by (simp add: take_add)
    finally show ?thesis using f by simp
  qed
qed simp

lemma mem_bytes_append:
  "mem_bytes m a (i + j) = mem_bytes m a i @ mem_bytes m (a + of_nat i) j"
  by (rule nth_equalityI) (auto simp: mem_bytes_def nth_append of_nat_diff)

lemma length_mem_bytes [simp]: "length (mem_bytes m a n) = n"
  by (simp add: mem_bytes_def)

lemma mem_bytes_cong: "memory m' = memory m \<Longrightarrow> mem_bytes m' a n = mem_bytes m a n"
  by (simp add: mem_bytes_def mread8_def)

lemma fdc_loop_write:
  assumes "disk (fdc m) = Some img" and "unat l + c \<le> 0x10000" and "0 < c"
  shows "fdc_loop c FDC_CMD_WRITE l d m =
    m\<lparr>fdc := (fdc m)\<lparr>disk :=
      Some (patch (unat l * FDC_SECTOR_SIZE) (mem_bytes m d (c * FDC_SECTOR_SIZE)) img)\<rparr>\<rparr>"
  using assms
proof (induction c arbitrary: l d m img)
  case 0
  from 0(3) have False by simp
  then show ?case ..
next
  case (Suc c)
  let ?S = "FDC_SECTOR_SIZE"
  let ?img1 = "patch (unat l * ?S) (mem_bytes m d ?S) img"
  have m1: "fdc_sector FDC_CMD_WRITE l d m = m\<lparr>fdc := (fdc m)\<lparr>disk := Some ?img1\<rparr>\<rparr>"
    using Suc.prems(1) by (simp add: fdc_sector_def FDC_CMD_READ_def FDC_CMD_WRITE_def fdc_write_sector)
  show ?case
  proof (cases "c = 0")
    case True
    then show ?thesis using m1 by simp
  next
    case False
    then have l1: "unat (l + 1) = Suc (unat l)" using Suc.prems(2) by (simp add: unat_word_ariths)
    have mb: "mem_bytes (m\<lparr>fdc := f\<rparr>) a n = mem_bytes m a n" for f a n
      by (rule mem_bytes_cong) simp
    have "patch (?S + unat l * ?S) (mem_bytes m (d + of_nat ?S) (c * ?S)) ?img1 =
        patch (unat l * ?S) (mem_bytes m d (?S + c * ?S)) img"
      using patch_append [of "unat l * ?S" "mem_bytes m d ?S"] by (simp add: mem_bytes_append add.commute)
    then show ?thesis
      using Suc.IH [of "fdc_sector FDC_CMD_WRITE l d m" ?img1 "l + 1" "d + of_nat ?S"] Suc.prems False l1
      by (simp add: m1 mb)
  qed
qed

section \<open>The port protocol\<close>

definition sectors :: "u8 \<Rightarrow> nat" where
  "sectors count = (if count = 0 then 1 else unat count)"

lemma sectors_pos [simp]: "0 < sectors count"
  by (simp add: sectors_def unat_gt_0)

lemma exec_disk_ports:
  "exec (disk_ports cmd count de hl) m =
     fdc_cmd cmd (m\<lparr>fdc := (fdc m)\<lparr>fdc_count := (if count = 0 then 1 else count), lba := de, dma := hl\<rparr>\<rparr>)"
  by (simp add: disk_ports_def output_handler_def set_low_eq set_high_eq)

lemma eval_status: "eval (input_handler 0x15) m = fdc_status (fdc m)"
  by (simp add: input_handler_def)

lemma sectors_count: "unat (if count = 0 then 1 else count) = sectors count"
  by (simp add: sectors_def)

lemma store_bytes_cong: "memory m' = memory m \<Longrightarrow> rom_size m' = rom_size m \<Longrightarrow> store_bytes a bs m' = store_bytes a bs m"
  by (simp add: store_bytes_def writable_def fun_eq_iff)

lemma disk_ports_attached:
  assumes "disk (fdc m) = Some img"
  shows "exec (disk_ports cmd count de hl) m =
    (let m2 = fdc_loop (sectors count) cmd de hl
       (m\<lparr>fdc := \<lparr>fdc_status = FDC_STATUS_BUSY, fdc_count = 0, lba = 0, dma = 0, disk = Some img\<rparr>\<rparr>)
     in m2\<lparr>fdc := (fdc m2)\<lparr>fdc_status := FDC_STATUS_OK\<rparr>\<rparr>)"
proof -
  have f: "(fdc m)\<lparr>fdc_status := FDC_STATUS_BUSY, lba := 0, dma := 0, fdc_count := 0\<rparr> =
      \<lparr>fdc_status = FDC_STATUS_BUSY, fdc_count = 0, lba = 0, dma = 0, disk = Some img\<rparr>"
    using assms by (cases "fdc m") simp
  show ?thesis
    using assms by (simp add: exec_disk_ports fdc_cmd_def Let_def sectors_count f)
qed

lemma disk_ports_read:
  assumes "disk (fdc m) = Some img" and "unat de + sectors count \<le> 0x10000"
    and "sectors count * FDC_SECTOR_SIZE \<le> 0x10000"
  shows "memory (exec (disk_ports FDC_CMD_READ count de hl) m) =
      store_bytes hl (take (sectors count * FDC_SECTOR_SIZE) (drop (unat de * FDC_SECTOR_SIZE) img)) m"
    and "fdc (exec (disk_ports FDC_CMD_READ count de hl) m) =
      \<lparr>fdc_status = FDC_STATUS_OK, fdc_count = 0, lba = 0, dma = 0, disk = Some img\<rparr>"
    and "rom_size (exec (disk_ports FDC_CMD_READ count de hl) m) = rom_size m"
proof -
  let ?m1 = "m\<lparr>fdc := \<lparr>fdc_status = FDC_STATUS_BUSY, fdc_count = 0, lba = 0, dma = 0, disk = Some img\<rparr>\<rparr>"
  let ?m2 = "fdc_loop (sectors count) FDC_CMD_READ de hl ?m1"
  have ex: "exec (disk_ports FDC_CMD_READ count de hl) m = ?m2\<lparr>fdc := (fdc ?m2)\<lparr>fdc_status := FDC_STATUS_OK\<rparr>\<rparr>"
    by (simp add: disk_ports_attached [OF assms(1)] Let_def)
  have st: "store_bytes a bs ?m1 = store_bytes a bs m" for a bs
    by (rule store_bytes_cong) simp_all
  note rd = fdc_loop_read [of ?m1 img de "sectors count" hl]
  show "memory (exec (disk_ports FDC_CMD_READ count de hl) m) =
      store_bytes hl (take (sectors count * FDC_SECTOR_SIZE) (drop (unat de * FDC_SECTOR_SIZE) img)) m"
    "fdc (exec (disk_ports FDC_CMD_READ count de hl) m) =
      \<lparr>fdc_status = FDC_STATUS_OK, fdc_count = 0, lba = 0, dma = 0, disk = Some img\<rparr>"
    "rom_size (exec (disk_ports FDC_CMD_READ count de hl) m) = rom_size m"
    using rd assms(2,3) by (simp_all add: ex st fdc_loop_frame)
qed

lemma disk_ports_write:
  assumes "disk (fdc m) = Some img" and "unat de + sectors count \<le> 0x10000"
  shows "exec (disk_ports FDC_CMD_WRITE count de hl) m =
      m\<lparr>fdc := \<lparr>fdc_status = FDC_STATUS_OK, fdc_count = 0, lba = 0, dma = 0,
        disk = Some (patch (unat de * FDC_SECTOR_SIZE)
                       (mem_bytes m hl (sectors count * FDC_SECTOR_SIZE)) img)\<rparr>\<rparr>"
proof -
  let ?m1 = "m\<lparr>fdc := \<lparr>fdc_status = FDC_STATUS_BUSY, fdc_count = 0, lba = 0, dma = 0, disk = Some img\<rparr>\<rparr>"
  have mb: "mem_bytes ?m1 a n = mem_bytes m a n" for a n
    by (rule mem_bytes_cong) simp
  show ?thesis
    using fdc_loop_write [of ?m1 img de "sectors count" hl] assms(2)
    by (simp add: disk_ports_attached [OF assms(1)] mb Let_def)
qed

text \<open>
  the driver's read protocol loads sectors. With a disk attached, writing count, block
  address, DMA address and the read command to the ports stores the addressed sectors of the image
  in memory from the DMA address on (writable addresses only, and only as far as the image
  reaches; a count of 0 means 1), leaves the image and all other memory alone, and the status port
  then reads 0.
\<close>

theorem disk_read_protocol:
  assumes "disk (fdc m) = Some img" and "unat de + sectors count \<le> 0x10000"
    and "sectors count * FDC_SECTOR_SIZE \<le> 0x10000"
  shows "let m' = exec (disk_ports FDC_CMD_READ count de hl) m in
    memory m' = store_bytes hl
      (take (sectors count * FDC_SECTOR_SIZE) (drop (unat de * FDC_SECTOR_SIZE) img)) m \<and>
    disk (fdc m') = Some img \<and> eval (input_handler 0x15) m' = FDC_STATUS_OK"
  using disk_ports_read [OF assms] by (simp add: Let_def eval_status)

definition disk_example :: machine where
  "disk_example = (power_on default_options [])\<lparr>fdc := \<lparr>fdc_status = 0, fdc_count = 0, lba = 0, dma = 0,
     disk = Some [1, 2, 3]\<rparr>\<rparr>"

theorem disk_read_protocol_witness:
  "memory (exec (disk_ports FDC_CMD_READ 1 0 0x4000) disk_example) 0x4001 = 2"
  using disk_read_protocol [of disk_example "[1, 2, 3]" 0 1 "0x4000"]
  by (simp add: disk_example_def power_on_def default_options_def sectors_def FDC_SECTOR_SIZE_def Let_def
      store_bytes_def writable_def MEM_SIZE_def)

text \<open>
  the driver's write protocol stores sectors. The bytes of memory from the DMA address on
  replace the addressed sectors of the image (which grows, zero-filled, if they lie past its end),
  every other byte of the image is kept, nothing else of the machine changes but the registers of
  the controller, which are reset.
\<close>

theorem disk_write_protocol:
  assumes "disk (fdc m) = Some img" and "unat de + sectors count \<le> 0x10000"
  shows "exec (disk_ports FDC_CMD_WRITE count de hl) m =
      m\<lparr>fdc := \<lparr>fdc_status = FDC_STATUS_OK, fdc_count = 0, lba = 0, dma = 0,
        disk = Some (patch (unat de * FDC_SECTOR_SIZE)
                       (mem_bytes m hl (sectors count * FDC_SECTOR_SIZE)) img)\<rparr>\<rparr>"
  by (rule disk_ports_write [OF assms])

theorem disk_write_protocol_witness:
  "fdc_status (fdc (exec (disk_ports FDC_CMD_WRITE 1 0 0x4000) disk_example)) = FDC_STATUS_OK"
  using disk_write_protocol [of disk_example "[1, 2, 3]" 0 1 "0x4000"]
  by (simp add: disk_example_def sectors_def)

text \<open>
  C13: what is written to disk can be read back: writing sectors from one buffer and reading the
  same sectors into another puts the first buffer's bytes into every writable byte of the second.
\<close>

theorem disk_write_read_roundtrip:
  assumes "disk (fdc m) = Some img" and "unat de + sectors count \<le> 0x10000"
    and "sectors count * FDC_SECTOR_SIZE \<le> 0x10000"
    and "i < sectors count * FDC_SECTOR_SIZE" and "writable m (hl2 + of_nat i)"
  shows "memory (exec (disk_ports FDC_CMD_READ count de hl2)
      (exec (disk_ports FDC_CMD_WRITE count de hl) m)) (hl2 + of_nat i) = mread8 (hl + of_nat i) m"
proof -
  let ?n = "sectors count * FDC_SECTOR_SIZE"
  let ?m1 = "exec (disk_ports FDC_CMD_WRITE count de hl) m"
  let ?img1 = "patch (unat de * FDC_SECTOR_SIZE) (mem_bytes m hl ?n) img"
  have d1: "disk (fdc ?m1) = Some ?img1" using disk_ports_write [OF assms(1,2)] by simp
  have "memory (exec (disk_ports FDC_CMD_READ count de hl2) ?m1) = store_bytes hl2 (mem_bytes m hl ?n) ?m1"
    using disk_ports_read(1) [OF d1 assms(2,3)] take_drop_patch [of "mem_bytes m hl ?n"] by simp
  moreover have "unat (hl2 + of_nat i - hl2) = i" using assms(3,4) by (simp add: unat_of_nat)
  moreover have "writable ?m1 b = writable m b" for b
    using disk_ports_write [OF assms(1,2)] by (simp add: writable_def)
  ultimately show ?thesis using assms(4,5) by (simp add: store_bytes_def mem_bytes_def)
qed

theorem disk_write_read_roundtrip_witness:
  "memory (exec (disk_ports FDC_CMD_READ 1 0 0x4000)
      (exec (disk_ports FDC_CMD_WRITE 1 0 0x3000) disk_example)) (0x4000 + of_nat 5) =
    mread8 (0x3000 + of_nat 5) disk_example"
  by (rule disk_write_read_roundtrip [of _ "[1, 2, 3]"])
    (simp_all add: disk_example_def power_on_def default_options_def sectors_def FDC_SECTOR_SIZE_def
      writable_def MEM_SIZE_def)

end
