(* ===== verification/Mfs_Types.thy ===== *)
theory Mfs_Types
  imports Manux_Prelude
begin

text \<open>
  The on-disk format of MFS (\<^verbatim>\<open>include/fs/mfs.h\<close>): the structs of the root sector and of the
  file entries with their byte layout, sectors of a disk image, the block bitmap, and the C string
  functions the kernel uses on file names. A disk is the byte list of the image, read and written
  through the controller as theory \<^verbatim>\<open>Bemu_Fdc\<close> describes: reading past the end of the image
  leaves the rest of the buffer as it was, writing past it extends the image with zeros.
\<close>

section \<open>Structs\<close>

record file_t =
  f_used :: u8
  f_flags :: u8
  f_id :: u8
  f_name :: "u8 list"
  f_size :: u16
  f_block_size :: u16
  f_block :: u16

record MFS_root =
  jmp :: "u8 list"
  checksum :: u16
  total_sectors :: u16
  bitmap_sector :: u16
  fentry_sector :: u16
  data_start_sector :: u16
  max_files :: u16
  filecount :: u8

definition BLOCK_SIZE :: nat where "BLOCK_SIZE = 512"
definition BLOCK_DATA :: nat where "BLOCK_DATA = BLOCK_SIZE - 4"
definition MAX_FNAME_LEN :: nat where "MAX_FNAME_LEN = 12"
definition CHECKSUM :: u16 where "CHECKSUM = 0xABCD"
definition FENTRY_SIZE :: nat where "FENTRY_SIZE = 21"
definition FENTRY_COUNT :: nat where "FENTRY_COUNT = BLOCK_SIZE div FENTRY_SIZE"

lemmas mfs_consts = BLOCK_SIZE_def BLOCK_DATA_def MAX_FNAME_LEN_def FENTRY_SIZE_def FENTRY_COUNT_def

section \<open>Layout\<close>

text \<open>Little-endian 16-bit fields, as \<^verbatim>\<open>*(uint16_t *)(p + i)\<close> reads and writes them.\<close>

definition get16 :: "u8 list \<Rightarrow> nat \<Rightarrow> u16" where
  "get16 bs i = mk16 (bs ! (i + 1)) (bs ! i)"

definition put16 :: "u8 list \<Rightarrow> nat \<Rightarrow> u16 \<Rightarrow> u8 list" where
  "put16 bs i v = bs[i := GET_LOW v, i + 1 := GET_HIGH v]"

definition bytes16 :: "u16 \<Rightarrow> u8 list" where
  "bytes16 v = [GET_LOW v, GET_HIGH v]"

definition encode_file :: "file_t \<Rightarrow> u8 list" where
  "encode_file f = [f_used f, f_flags f, f_id f] @ f_name f @ bytes16 (f_size f)
     @ bytes16 (f_block_size f) @ bytes16 (f_block f)"

definition decode_file :: "u8 list \<Rightarrow> file_t" where
  "decode_file bs =
     \<lparr>f_used = bs ! 0, f_flags = bs ! 1, f_id = bs ! 2, f_name = take 12 (drop 3 bs),
      f_size = get16 bs 15, f_block_size = get16 bs 17, f_block = get16 bs 19\<rparr>"

definition encode_root :: "MFS_root \<Rightarrow> u8 list" where
  "encode_root r = jmp r @ bytes16 (checksum r) @ bytes16 (total_sectors r) @ bytes16 (bitmap_sector r)
     @ bytes16 (fentry_sector r) @ bytes16 (data_start_sector r) @ bytes16 (max_files r) @ [filecount r]"

definition decode_root :: "u8 list \<Rightarrow> MFS_root" where
  "decode_root bs =
     \<lparr>jmp = take 3 bs, checksum = get16 bs 3, total_sectors = get16 bs 5, bitmap_sector = get16 bs 7,
      fentry_sector = get16 bs 9, data_start_sector = get16 bs 11, max_files = get16 bs 13,
      filecount = bs ! 15\<rparr>"

text \<open>The array \<^verbatim>\<open>files\<close> overlays the sector buffer: 24 entries and 8 spare bytes.\<close>

definition encode_files :: "file_t list \<Rightarrow> u8 list" where
  "encode_files fs = concat (map encode_file fs)"

fun decode_files :: "nat \<Rightarrow> u8 list \<Rightarrow> file_t list" where
  "decode_files 0 bs = []"
| "decode_files (Suc n) bs = decode_file (take FENTRY_SIZE bs) # decode_files n (drop FENTRY_SIZE bs)"

lemma get16_bytes16 [simp]: "get16 (bytes16 v @ bs) 0 = v"
  by (simp add: get16_def bytes16_def)

lemma length_bytes16 [simp]: "length (bytes16 v) = 2"
  by (simp add: bytes16_def)

lemma get16_skip: "length xs = n \<Longrightarrow> n \<le> i \<Longrightarrow> get16 (xs @ ys) i = get16 ys (i - n)"
  by (simp add: get16_def nth_append Suc_diff_le)

lemma length_encode_file: "length (f_name f) = 12 \<Longrightarrow> length (encode_file f) = FENTRY_SIZE"
  by (simp add: encode_file_def FENTRY_SIZE_def)

lemma decode_encode_file: "length (f_name f) = 12 \<Longrightarrow> decode_file (encode_file f @ rest) = f"
  by (cases f) (simp add: decode_file_def encode_file_def get16_skip nth_append bytes16_def get16_def)

lemma decode_encode_root: "length (jmp r) = 3 \<Longrightarrow> decode_root (encode_root r @ rest) = r"
  by (cases r) (simp add: decode_root_def encode_root_def nth_append bytes16_def get16_def)

lemma length_encode_root: "length (jmp r) = 3 \<Longrightarrow> length (encode_root r) = 16"
  by (simp add: encode_root_def)

lemma decode_encode_files:
  "\<forall>f\<in>set fs. length (f_name f) = 12 \<Longrightarrow> decode_files (length fs) (encode_files fs @ rest) = fs"
proof (induction fs)
  case (Cons f fs)
  then have "length (encode_file f) = FENTRY_SIZE" by (simp add: length_encode_file)
  then show ?case using Cons decode_encode_file [of f "[]"] by (simp add: encode_files_def)
qed (simp add: encode_files_def)

lemma length_encode_files:
  "\<forall>f\<in>set fs. length (f_name f) = 12 \<Longrightarrow> length (encode_files fs) = FENTRY_SIZE * length fs"
  by (induction fs) (simp_all add: encode_files_def length_encode_file)

section \<open>Sectors\<close>

definition has_sector :: "u8 list \<Rightarrow> u16 \<Rightarrow> bool" where
  "has_sector img s \<longleftrightarrow> (unat s + 1) * BLOCK_SIZE \<le> length img"

definition sector :: "u8 list \<Rightarrow> u16 \<Rightarrow> u8 list" where
  "sector img s = take BLOCK_SIZE (drop (unat s * BLOCK_SIZE) img)"

text \<open>\<^verbatim>\<open>disk_read(buf, s, 1)\<close> and \<^verbatim>\<open>disk_write(buf, s, 1)\<close> on the attached image.\<close>

definition disk_read :: "u8 list \<Rightarrow> u16 \<Rightarrow> u8 list \<Rightarrow> u8 list" where
  "disk_read img s buf = sector img s @ drop (length (sector img s)) buf"

definition disk_write :: "u8 list \<Rightarrow> u16 \<Rightarrow> u8 list \<Rightarrow> u8 list" where
  "disk_write img s buf = patch (unat s * BLOCK_SIZE) buf img"

text \<open>
  The interface the file system relies on: a store of sectors, of which some exist. Chains of
  blocks are followed through \<open>rd\<close> alone.
\<close>

text \<open>The block header: byte 0 is the used flag, bytes 1 and 2 the next block.\<close>

definition next_block :: "u8 list \<Rightarrow> u16" where
  "next_block b = get16 b 1"

definition block_data :: "u8 list \<Rightarrow> u8 list" where
  "block_data b = drop 4 b"

text \<open>\<open>chain rd n b bs\<close>: from block \<open>b\<close> the next pointers run through \<open>bs\<close>, all valid, to an end mark.\<close>

fun chain :: "(u16 \<Rightarrow> u8 list) \<Rightarrow> u16 \<Rightarrow> u16 \<Rightarrow> u16 list \<Rightarrow> bool" where
  "chain rd n b [] = (b = 0 \<or> n \<le> b)"
| "chain rd n b (x # xs) = (b = x \<and> x \<noteq> 0 \<and> x < n \<and> chain rd n (next_block (rd x)) xs)"

definition chain_bytes :: "(u16 \<Rightarrow> u8 list) \<Rightarrow> u16 list \<Rightarrow> u8 list" where
  "chain_bytes rd bs = concat (map (\<lambda>b. block_data (rd b)) bs)"

lemma chain_cong: "(\<And>x. x \<in> set bs \<Longrightarrow> rd x = rd' x) \<Longrightarrow> chain rd n b bs = chain rd' n b bs"
  by (induction bs arbitrary: b) auto

lemma chain_bytes_cong: "(\<And>x. x \<in> set bs \<Longrightarrow> rd x = rd' x) \<Longrightarrow> chain_bytes rd bs = chain_bytes rd' bs"
  by (induction bs) (simp_all add: chain_bytes_def)

lemma chain_bytes_simps [simp]:
  "chain_bytes rd [] = []" "chain_bytes rd (b # bs) = block_data (rd b) @ chain_bytes rd bs"
  by (simp_all add: chain_bytes_def)

lemma chain_valid: "chain rd n b bs \<Longrightarrow> x \<in> set bs \<Longrightarrow> x \<noteq> 0 \<and> x < n"
  by (induction bs arbitrary: b) auto

lemma chain_det: "chain rd n b bs \<Longrightarrow> chain rd n b cs \<Longrightarrow> bs = cs"
proof (induction bs arbitrary: b cs)
  case Nil
  then show ?case by (cases cs) auto
next
  case (Cons x xs)
  then show ?case by (cases cs) auto
qed

locale sector_store =
  fixes ok :: "'d \<Rightarrow> u16 \<Rightarrow> bool"
    and rd :: "'d \<Rightarrow> u16 \<Rightarrow> u8 list"
    and wr :: "'d \<Rightarrow> u16 \<Rightarrow> u8 list \<Rightarrow> 'd"
  assumes length_rd: "ok d s \<Longrightarrow> length (rd d s) = BLOCK_SIZE"
    and wr_ok: "ok d t \<Longrightarrow> length b = BLOCK_SIZE \<Longrightarrow> ok (wr d s b) t"
    and wr_ok_same: "length b = BLOCK_SIZE \<Longrightarrow> ok (wr d s b) s"
    and rd_wr_same: "length b = BLOCK_SIZE \<Longrightarrow> rd (wr d s b) s = b"
    and rd_wr_other: "ok d t \<Longrightarrow> s \<noteq> t \<Longrightarrow> length b = BLOCK_SIZE \<Longrightarrow> rd (wr d s b) t = rd d t"
begin

lemma rd_wr: "ok d t \<Longrightarrow> length b = BLOCK_SIZE \<Longrightarrow> rd (wr d s b) t = (if s = t then b else rd d t)"
  by (simp add: rd_wr_same rd_wr_other)

lemma chain_wr_other:
  assumes "\<And>x. x \<in> set bs \<Longrightarrow> ok d x" and "s \<notin> set bs" and "length b = BLOCK_SIZE"
  shows "chain (rd (wr d s b)) n c bs = chain (rd d) n c bs"
    and "chain_bytes (rd (wr d s b)) bs = chain_bytes (rd d) bs"
  using assms by (auto intro!: chain_cong chain_bytes_cong rd_wr_other)

text \<open>Rewriting the data of a block keeps every chain through it.\<close>

lemma chain_wr_same_next:
  assumes "\<And>x. x \<in> set bs \<Longrightarrow> ok d x" and "length b = BLOCK_SIZE"
    and "next_block b = next_block (rd d s)"
  shows "chain (rd (wr d s b)) n c bs = chain (rd d) n c bs"
  using assms
proof (induction bs arbitrary: c)
  case (Cons x xs)
  then show ?case by (cases "s = x") (simp_all add: rd_wr)
qed simp

lemma length_chain_bytes:
  "(\<And>x. x \<in> set bs \<Longrightarrow> ok d x) \<Longrightarrow> length (chain_bytes (rd d) bs) = BLOCK_DATA * length bs"
  by (induction bs) (simp_all add: block_data_def length_rd BLOCK_DATA_def BLOCK_SIZE_def)

end

lemma sector_bounds: "has_sector img s \<Longrightarrow> unat s * BLOCK_SIZE + BLOCK_SIZE \<le> length img"
  by (simp add: has_sector_def algebra_simps)

lemma sector_apart: "(s :: u16) \<noteq> t \<Longrightarrow>
    unat s * BLOCK_SIZE + BLOCK_SIZE \<le> unat t * BLOCK_SIZE \<or> unat t * BLOCK_SIZE + BLOCK_SIZE \<le> unat s * BLOCK_SIZE"
proof -
  assume "s \<noteq> t"
  then have "unat s < unat t \<or> unat t < unat s" by (auto simp: word_unat_eq_iff)
  then have "Suc (unat s) \<le> unat t \<or> Suc (unat t) \<le> unat s" by auto
  then have "Suc (unat s) * BLOCK_SIZE \<le> unat t * BLOCK_SIZE \<or> Suc (unat t) * BLOCK_SIZE \<le> unat s * BLOCK_SIZE"
    using mult_le_mono1 by blast
  then show ?thesis by (simp add: add.commute)
qed

lemma nth_patch:
  "i < length (patch off bs img) \<Longrightarrow>
   patch off bs img ! i = (if off \<le> i \<and> i < off + length bs then bs ! (i - off)
     else if i < length img then img ! i else 0)"
  by (auto simp: patch_def nth_append min_def)

lemma take_drop_patch_other:
  assumes "b + n \<le> length img" and "b + n \<le> off \<or> off + length bs \<le> b"
  shows "take n (drop b (patch off bs img)) = take n (drop b img)"
  using assms by (auto intro!: nth_equalityI simp: length_patch nth_patch)

interpretation image: sector_store has_sector sector disk_write
proof unfold_locales
  fix d b :: "u8 list" and s t :: u16
  assume b: "length b = BLOCK_SIZE"
  show "has_sector (disk_write d s b) t" if "has_sector d t"
    using that b by (simp add: has_sector_def disk_write_def length_patch)
  show "has_sector (disk_write d s b) s"
    using b by (simp add: has_sector_def disk_write_def length_patch)
  show "sector (disk_write d s b) s = b"
    using take_drop_patch [of b "unat s * BLOCK_SIZE" d] b by (simp add: sector_def disk_write_def)
  show "sector (disk_write d s b) t = sector d t" if "has_sector d t" "s \<noteq> t"
    using sector_bounds [OF that(1)] sector_apart [OF that(2)] b
    by (auto simp: sector_def disk_write_def intro!: take_drop_patch_other)
next
  show "length (sector d s) = BLOCK_SIZE" if "has_sector d s" for d s
    using sector_bounds [OF that] by (simp add: sector_def)
qed

lemma disk_read_sector: "has_sector img s \<Longrightarrow> length buf = BLOCK_SIZE \<Longrightarrow> disk_read img s buf = sector img s"
  by (simp add: disk_read_def image.length_rd)

lemma length_disk_read: "length buf = BLOCK_SIZE \<Longrightarrow> length (disk_read img s buf) = BLOCK_SIZE"
  by (simp add: disk_read_def sector_def)

section \<open>The block bitmap\<close>

definition bitmap_get :: "u8 list \<Rightarrow> u16 \<Rightarrow> bool option" where
  "bitmap_get bm b =
     (if unat (drop_bit 3 b) < length bm
      then Some (bm ! unat (drop_bit 3 b) AND push_bit (unat (b mod 8)) 1 \<noteq> 0) else None)"

definition bitmap_set :: "u8 list \<Rightarrow> u16 \<Rightarrow> u8 list option" where
  "bitmap_set bm b =
     (let i = unat (drop_bit 3 b) in
      if i < length bm then Some (bm[i := bm ! i OR push_bit (unat (b mod 8)) 1]) else None)"

definition bitmap_clear :: "u8 list \<Rightarrow> u16 \<Rightarrow> u8 list option" where
  "bitmap_clear bm b =
     (let i = unat (drop_bit 3 b) in
      if i < length bm then Some (bm[i := bm ! i AND NOT (push_bit (unat (b mod 8)) 1)]) else None)"

text \<open>The contract of a bitmap over the blocks it covers.\<close>

locale block_map =
  fixes covers :: "'m \<Rightarrow> u16 \<Rightarrow> bool"
    and get :: "'m \<Rightarrow> u16 \<Rightarrow> bool option"
    and mark :: "'m \<Rightarrow> u16 \<Rightarrow> 'm option"
    and free :: "'m \<Rightarrow> u16 \<Rightarrow> 'm option"
  assumes get_None: "get m b = None \<longleftrightarrow> \<not> covers m b"
    and mark_covers: "mark m b = Some m' \<Longrightarrow> covers m' c = covers m c"
    and free_covers: "free m b = Some m' \<Longrightarrow> covers m' c = covers m c"
    and mark_total: "covers m b \<Longrightarrow> mark m b \<noteq> None"
    and free_total: "covers m b \<Longrightarrow> free m b \<noteq> None"
    and get_mark: "mark m b = Some m' \<Longrightarrow> covers m c \<Longrightarrow> get m' c = (if c = b then Some True else get m c)"
    and get_free: "free m b = Some m' \<Longrightarrow> covers m c \<Longrightarrow> get m' c = (if c = b then Some False else get m c)"
begin

lemma mark_free_get:
  assumes "mark m b = Some m'" and "free m' b = Some m''" and "covers m c" and "get m b = Some False"
  shows "get m'' c = get m c"
  using assms get_mark [OF assms(1,3)] get_free [OF assms(2)] mark_covers [OF assms(1), of c] by auto

end

definition bm_covers :: "u8 list \<Rightarrow> u16 \<Rightarrow> bool" where
  "bm_covers bm b \<longleftrightarrow> unat b div 8 < length bm"

lemma unat_drop_bit_3: "unat (drop_bit 3 (b :: u16)) = unat b div 8"
  by (simp add: drop_bit_eq_div unat_div_distrib)

lemma unat_mod_8: "unat (b mod 8 :: u16) = unat b mod 8"
  by (simp add: unat_mod_distrib)

lemma bitmap_get_bit:
  "bitmap_get bm b = (if bm_covers bm b then Some (bit (bm ! (unat b div 8)) (unat b mod 8)) else None)"
  using and_mask_eq_0_iff [of "unat b mod 8" "bm ! (unat b div 8)"]
  by (simp add: bitmap_get_def bm_covers_def unat_drop_bit_3 unat_mod_8)

lemma same_bit: "unat (b :: u16) div 8 = unat c div 8 \<Longrightarrow> unat b mod 8 = unat c mod 8 \<Longrightarrow> b = c"
  by (metis div_mult_mod_eq word_unat_eq_iff)

lemma bitmap_update_bit:
  fixes f :: "u8 \<Rightarrow> u8"
  assumes "bm_covers bm b" "bm_covers bm c"
    and "\<And>n. n < 8 \<Longrightarrow> bit (f (bm ! (unat b div 8))) n =
      (if n = unat b mod 8 then v else bit (bm ! (unat b div 8)) n)"
  shows "bitmap_get (bm[unat b div 8 := f (bm ! (unat b div 8))]) c =
    (if c = b then Some v else bitmap_get bm c)"
proof (cases "unat c div 8 = unat b div 8")
  case True
  then show ?thesis
    using assms(1) assms(3) [of "unat c mod 8"] same_bit [OF True]
    by (cases "unat c mod 8 = unat b mod 8") (auto simp: bitmap_get_bit bm_covers_def)
next
  case False
  then show ?thesis using assms(2) by (auto simp: bitmap_get_bit bm_covers_def)
qed

interpretation bitmap: block_map bm_covers bitmap_get bitmap_set bitmap_clear
proof unfold_locales
  fix m m' :: "u8 list" and b c :: u16
  show "bitmap_get m b = None \<longleftrightarrow> \<not> bm_covers m b" by (simp add: bitmap_get_bit)
  show "bitmap_set m b = Some m' \<Longrightarrow> bm_covers m' c = bm_covers m c"
    "bitmap_clear m b = Some m' \<Longrightarrow> bm_covers m' c = bm_covers m c"
    by (auto simp: bitmap_set_def bitmap_clear_def bm_covers_def Let_def split: if_splits)
  show "bm_covers m b \<Longrightarrow> bitmap_set m b \<noteq> None" "bm_covers m b \<Longrightarrow> bitmap_clear m b \<noteq> None"
    by (simp_all add: bitmap_set_def bitmap_clear_def bm_covers_def unat_drop_bit_3 Let_def)
  show "bitmap_get m' c = (if c = b then Some True else bitmap_get m c)"
    if "bitmap_set m b = Some m'" "bm_covers m c"
    using that bitmap_update_bit [of m b c "\<lambda>x. x OR push_bit (unat b mod 8) 1" True]
    by (auto simp: bitmap_set_def bm_covers_def unat_drop_bit_3 unat_mod_8 Let_def bit_simps split: if_splits)
  show "bitmap_get m' c = (if c = b then Some False else bitmap_get m c)"
    if "bitmap_clear m b = Some m'" "bm_covers m c"
    using that bitmap_update_bit [of m b c "\<lambda>x. x AND NOT (push_bit (unat b mod 8) 1)" False]
    by (auto simp: bitmap_clear_def bm_covers_def unat_drop_bit_3 unat_mod_8 Let_def bit_simps split: if_splits)
qed

end
