(* ===== verification/Driver.thy ===== *)
theory Driver
  imports Bemu_Fdc Mfs_Types
begin

text \<open>
  The disk driver (\<^verbatim>\<open>driver/disk.asm\<close>) on the emulator: the machine code of its three routines,
  run step by step by the decoder of \<^verbatim>\<open>bemu80.c\<close> with the floppy controller behind the ports. The
  file system of the kernel is modelled on \<open>disk_read\<close> and \<open>disk_write\<close>; the properties show that
  the driver computes these functions. Code bytes are those of the Z80 instruction set; the
  addresses of the routines are arguments.
\<close>

section \<open>The code\<close>

definition SET_PORTS :: "u8 list" where
  "SET_PORTS = [0xD3, 0x16, 0x7B, 0xD3, 0x11, 0x7A, 0xD3, 0x12, 0x7D, 0xD3, 0x13, 0x7C, 0xD3, 0x14]"

definition WRITE_DISK :: "u16 \<Rightarrow> u8 list" where
  "WRITE_DISK wait = SET_PORTS @ [0x3E, 0x02, 0xD3, 0x10, 0xCD, GET_LOW wait, GET_HIGH wait, 0xDB, 0x15, 0xC9]"

definition READ_DISK :: "u16 \<Rightarrow> u8 list" where
  "READ_DISK wait = SET_PORTS @ [0x3E, 0x01, 0xD3, 0x10, 0xCD, GET_LOW wait, GET_HIGH wait, 0xDB, 0x15, 0xC9]"

definition WAIT_DISK :: "u8 list" where
  "WAIT_DISK = [0xDB, 0x15, 0xFE, 0x02, 0x28, 0xFA, 0xC9]"

section \<open>Runs of code\<close>

text \<open>\<open>ready q bs s r mem rom f m\<close>: the machine is about to run the bytes \<open>bs\<close> at \<open>q\<close>.\<close>

definition cell :: "(u16 \<Rightarrow> u8) \<Rightarrow> u16 \<Rightarrow> u8" where
  "cell mem a = (if MEM_SIZE \<le> unat a then 0 else mem a)"

fun code_at :: "(u16 \<Rightarrow> u8) \<Rightarrow> u16 \<Rightarrow> u8 list \<Rightarrow> bool" where
  "code_at mem q [] = True"
| "code_at mem q (b # bs) = (cell mem q = b \<and> code_at mem (q + 1) bs)"

definition area :: "u16 \<Rightarrow> nat \<Rightarrow> u16 set" where
  "area a n = (\<lambda>i. a + of_nat i) ` {..<n}"

definition ready :: "u16 \<Rightarrow> u8 list \<Rightarrow> u16 \<Rightarrow> (nat \<Rightarrow> u8) \<Rightarrow> (u16 \<Rightarrow> u8) \<Rightarrow> u16 \<Rightarrow> FDC_t \<Rightarrow> machine \<Rightarrow> bool" where
  "ready q bs s r mem rom f m \<longleftrightarrow>
     code_at mem q bs \<and> pc m = q \<and> sp m = s \<and> regs m = r \<and> memory m = mem \<and> rom_size m = rom \<and> fdc m = f"

lemma mread8_cell: "mread8 a m = cell (memory m) a"
  by (simp add: mread8_def cell_def)

lemma area_0 [simp]: "area a 0 = {}"
  by (simp add: area_def)

lemma area_Suc: "area a (Suc n) = insert a (area (a + 1) n)"
  unfolding area_def by (simp add: lessThan_Suc_eq_insert_0 image_image algebra_simps)

lemma code_at_cong:
  "code_at mem q bs \<Longrightarrow> (\<And>a. a \<in> area q (length bs) \<Longrightarrow> mem' a = mem a) \<Longrightarrow> code_at mem' q bs"
  by (induction bs arbitrary: q) (auto simp: area_Suc cell_def)

lemma code_at_append: "code_at mem q (xs @ ys) \<longleftrightarrow> code_at mem q xs \<and> code_at mem (q + of_nat (length xs)) ys"
  by (induction xs arbitrary: q) (simp_all add: algebra_simps)

lemma step_ready:
  assumes "ready q (b # bs) s r mem rom f m"
  shows "exec step m = exec (dispatch b) (m\<lparr>pc := q + 1, r_reg := (r_reg m + 1) AND 0x7F\<rparr>)"
    and "bs \<noteq> [] \<Longrightarrow> mread8 (q + 1) m = hd bs" and "pc m = q" "regs m = r"
  using assms by (cases bs; simp add: ready_def exec_step mread8_cell)+

definition port_write :: "u8 \<Rightarrow> u8 \<Rightarrow> FDC_t \<Rightarrow> FDC_t" where
  "port_write p v f =
     (if p = 0x11 then f\<lparr>lba := set_low (lba f) v\<rparr> else if p = 0x12 then f\<lparr>lba := set_high (lba f) v\<rparr>
      else if p = 0x13 then f\<lparr>dma := set_low (dma f) v\<rparr> else if p = 0x14 then f\<lparr>dma := set_high (dma f) v\<rparr>
      else f\<lparr>fdc_count := (if v \<noteq> 0 then v else 1)\<rparr>)"

lemma ready_out:
  assumes "ready q (0xD3 # p # bs) s r mem rom f m" and "p \<in> {0x11, 0x12, 0x13, 0x14, 0x16}"
  shows "ready (2 + q) bs s r mem rom (port_write p (r 7) f) (exec step m)"
  using assms step_ready(2) [OF assms(1)] unfolding step_ready(1) [OF assms(1)]
  by (auto simp: ready_def dispatch_def group_x3_def group_x3_z3_def op_field_defs output_handler_def port_write_def)

lemma ready_ld_a:
  assumes "ready q ((0x78 + of_nat k) # bs) s r mem rom f m" and "k < 6"
  shows "ready (q + 1) bs s (r(7 := r k)) mem rom f (exec step m)"
proof -
  have "k \<in> {0, 1, 2, 3, 4, 5}" using assms(2) by auto
  then show ?thesis using assms(1) unfolding step_ready(1) [OF assms(1)]
  by (auto simp: ready_def dispatch_def op_load_def get_r8_def set_r8_def set_reg_def op_field_defs)
qed

lemma ready_ld_imm:
  assumes "ready q (0x3E # v # bs) s r mem rom f m"
  shows "ready (2 + q) bs s (r(7 := v)) mem rom f (exec step m)"
  using assms step_ready(2) [OF assms] unfolding step_ready(1) [OF assms]
  by (auto simp: ready_def dispatch_def group_x0_def set_r8_def set_reg_def op_field_defs)

lemma ready_in_status:
  assumes "ready q (0xDB # 0x15 # bs) s r mem rom f m"
  shows "ready (2 + q) bs s (r(7 := fdc_status f)) mem rom f (exec step m)"
  using assms step_ready(2) [OF assms] unfolding step_ready(1) [OF assms]
  by (auto simp: ready_def dispatch_def group_x3_def group_x3_z3_def op_field_defs input_handler_def set_reg_def)

text \<open>\<^verbatim>\<open>cp 2\<close> and the jump back, which is not taken for another status.\<close>

lemma ready_poll:
  assumes "ready q (0xFE # 2 # 0x28 # d # bs) s r mem rom f m" and "r 7 \<noteq> 2"
  shows "ready (4 + q) bs s r mem rom f (exec step (exec step m))"
proof -
  let ?m = "exec step m" and ?m1 = "m\<lparr>r_reg := (r_reg m + 1) AND 0x7F, pc := 2 + q\<rparr>"
  have eq: "?m = (exec (cp8 (r 7) 2) ?m1)\<lparr>cycles := cycles (exec (cp8 (r 7) 2) ?m1) + 7\<rparr>"
    using step_ready(2,4) [OF assms(1)] unfolding step_ready(1) [OF assms(1)]
    by (simp add: dispatch_def group_x3_def alu_switch_def op_field_defs)
  have r1: "ready (2 + q) (0x28 # d # bs) s r mem rom f ?m"
    using assms(1) alu_only_flags(5) [of "r 7" 2] unfolding eq only_flags_def by (auto simp: ready_def dest!: spec [of _ ?m1])
  have "getFlag FLAG_Z ?m \<noteq> 1"
    using cp8_flags [of "r 7" 2 ?m1] assms(2) unfolding eq by (simp add: flags_are_def getFlag_def)
  then have "flags ?m AND FLAG_Z = 0" by (simp add: getFlag_def split: if_splits)
  then show ?thesis using r1 step_ready(2) [OF r1] unfolding step_ready(1) [OF r1]
    by (auto simp: ready_def dispatch_def group_x0_def group_x0_z0_def check_cond_def op_field_defs)
qed

lemma ready_ret:
  assumes "ready q (0xC9 # bs) s r mem rom f m"
  shows "ready (mread16 s m) [] (s + 2) r mem rom f (exec step m)"
  using assms unfolding step_ready(1) [OF assms]
  by (auto simp: ready_def dispatch_def group_x3_def group_x3_z1_def op_field_defs)

lemma ready_call:
  assumes "ready q (0xCD # lo # hi # bs) s r mem rom f m" and "rom \<le> s - 2" and "unat (s - 2) + 1 < MEM_SIZE"
    and "unat q + 2 < MEM_SIZE"
  shows "ready (mk16 hi lo) [] (s - 2) r (mem(s - 2 := GET_LOW (3 + q), s - 1 := GET_HIGH (3 + q))) rom f (exec step m)"
    and "mread16 (s - 2) (exec step m) = 3 + q"
proof -
  have q: "unat (q + 1) = unat q + 1" "unat (2 + q) = unat q + 2" using assms(4) by (simp_all add: MEM_SIZE_def unat_word_ariths)
  have w: "mread16 (q + 1) m = mk16 hi lo"
    using assms(1,4) q by (simp add: ready_def mread16_def cell_def)
  have call: "exec step m = mwrite16 (s - 2) (3 + q) (m\<lparr>r_reg := (r_reg m + 1) AND 0x7F, pc := 3 + q, sp := s - 2\<rparr>)
      \<lparr>pc := mk16 hi lo, cycles := cycles m + 17\<rparr>"
    using assms(1) w unfolding step_ready(1) [OF assms(1)]
    by (simp add: ready_def dispatch_def group_x3_def op_field_defs)
  have "s - 2 + 1 = s - 1" by (simp add: algebra_simps)
  then show "ready (mk16 hi lo) [] (s - 2) r (mem(s - 2 := GET_LOW (3 + q), s - 1 := GET_HIGH (3 + q))) rom f (exec step m)"
    using assms(1-3) unfolding call by (auto simp: ready_def memory_mwrite16)
  show "mread16 (s - 2) (exec step m) = 3 + q"
    using assms(1-3) unfolding call by (simp add: ready_def mread16_mwrite16)
qed


section \<open>The command\<close>

lemma fdc_read_loop_cpu [simp]:
  "pc (fdc_read_loop i d bs m) = pc m" "sp (fdc_read_loop i d bs m) = sp m" "regs (fdc_read_loop i d bs m) = regs m"
  by (induction i d bs m rule: fdc_read_loop.induct) simp_all

text \<open>What the controller leaves in its registers.\<close>

abbreviation fdc_idle :: "u8 list \<Rightarrow> FDC_t" where
  "fdc_idle img \<equiv> \<lparr>fdc_status = 0, fdc_count = 0, lba = 0, dma = 0, disk = Some img\<rparr>"

lemma fdc_cmd_sector:
  assumes "disk (fdc m) = Some img" and "fdc_count (fdc m) = 1"
  shows "fdc_cmd cmd m = (let m1 = fdc_sector cmd (lba (fdc m)) (dma (fdc m)) (m\<lparr>fdc := (fdc_idle img)\<lparr>fdc_status := FDC_STATUS_BUSY\<rparr>\<rparr>)
    in m1\<lparr>fdc := (fdc m1)\<lparr>fdc_status := 0\<rparr>\<rparr>)"
proof -
  have f: "(fdc m)\<lparr>fdc_status := FDC_STATUS_BUSY, lba := 0, dma := 0, fdc_count := 0\<rparr> = (fdc_idle img)\<lparr>fdc_status := FDC_STATUS_BUSY\<rparr>"
    using assms by (cases "fdc m") simp
  show ?thesis using assms by (simp add: fdc_cmd_def Let_def FDC_STATUS_OK_def f)
qed

lemma sector_fdc: "sector img s = take FDC_SECTOR_SIZE (drop (unat s * FDC_SECTOR_SIZE) img)"
  by (simp add: sector_def FDC_SECTOR_SIZE_def BLOCK_SIZE_def)

lemma fdc_cmd_read:
  assumes "disk (fdc m) = Some img" and "fdc_count (fdc m) = 1"
  shows "memory (fdc_cmd 1 m) = store_bytes (dma (fdc m)) (sector img (lba (fdc m))) m" "fdc (fdc_cmd 1 m) = fdc_idle img"
    "pc (fdc_cmd 1 m) = pc m" "sp (fdc_cmd 1 m) = sp m" "regs (fdc_cmd 1 m) = regs m" "rom_size (fdc_cmd 1 m) = rom_size m"
proof -
  let ?m = "m\<lparr>fdc := (fdc_idle img)\<lparr>fdc_status := FDC_STATUS_BUSY\<rparr>\<rparr>"
  have "store_bytes a bs ?m = store_bytes a bs m" for a bs by (rule store_bytes_cong) simp_all
  then show "memory (fdc_cmd 1 m) = store_bytes (dma (fdc m)) (sector img (lba (fdc m))) m"
    using fdc_read_loop_memory [of 0 "dma (fdc m)" "drop (unat (lba (fdc m)) * FDC_SECTOR_SIZE) img" ?m]
    by (simp add: fdc_cmd_sector [OF assms] fdc_sector_def FDC_CMD_READ_def Let_def sector_fdc)
qed (simp_all add: fdc_cmd_sector [OF assms] fdc_sector_def FDC_CMD_READ_def Let_def)

lemma fdc_cmd_write:
  assumes "disk (fdc m) = Some img" and "fdc_count (fdc m) = 1"
  shows "fdc_cmd 2 m = m\<lparr>fdc := fdc_idle (disk_write img (lba (fdc m)) (mem_bytes m (dma (fdc m)) BLOCK_SIZE))\<rparr>"
proof -
  have "mem_bytes (m\<lparr>fdc := f\<rparr>) a n = mem_bytes m a n" for f a n by (rule mem_bytes_cong) simp
  then show ?thesis
    by (simp add: fdc_cmd_sector [OF assms] fdc_sector_def FDC_CMD_READ_def FDC_CMD_WRITE_def fdc_write_sector disk_write_def Let_def
        FDC_SECTOR_SIZE_def BLOCK_SIZE_def)
qed

lemma step_command:
  assumes "ready q (0xD3 # 0x10 # bs) s r mem rom f m"
  shows "exec step m = (let m1 = fdc_cmd (r 7) (m\<lparr>r_reg := (r_reg m + 1) AND 0x7F, pc := 2 + q\<rparr>) in m1\<lparr>cycles := cycles m1 + 11\<rparr>)"
  using assms step_ready(2) [OF assms] unfolding step_ready(1) [OF assms]
  by (simp add: ready_def dispatch_def group_x3_def group_x3_z3_def op_field_defs output_handler_def Let_def)

lemma ready_read_command:
  assumes "ready q (0xD3 # 0x10 # bs) s r mem rom f m" and "r 7 = 1" and "disk f = Some img" and "fdc_count f = 1"
  shows "ready (2 + q) [] s r (store_bytes (dma f) (sector img (lba f)) m) rom (fdc_idle img) (exec step m)"
proof -
  let ?m = "m\<lparr>r_reg := (r_reg m + 1) AND 0x7F, pc := 2 + q\<rparr>"
  have "store_bytes a bs ?m = store_bytes a bs m" for a bs by (rule store_bytes_cong) simp_all
  moreover have "fdc ?m = f" using assms(1) by (simp add: ready_def)
  ultimately show ?thesis
    using assms fdc_cmd_read [of ?m img] by (simp add: step_command [OF assms(1)] ready_def Let_def)
qed

lemma ready_write_command:
  assumes "ready q (0xD3 # 0x10 # bs) s r mem rom f m" and "r 7 = 2" and "disk f = Some img" and "fdc_count f = 1"
  shows "ready (2 + q) [] s r mem rom (fdc_idle (disk_write img (lba f) (mem_bytes m (dma f) BLOCK_SIZE))) (exec step m)"
proof -
  let ?m = "m\<lparr>r_reg := (r_reg m + 1) AND 0x7F, pc := 2 + q\<rparr>"
  have "mem_bytes ?m a n = mem_bytes m a n" for a n by (rule mem_bytes_cong) simp
  moreover have "fdc ?m = f" using assms(1) by (simp add: ready_def)
  ultimately show ?thesis
    using assms fdc_cmd_write [of ?m img] by (simp add: step_command [OF assms(1)] ready_def Let_def)
qed

section \<open>The routines\<close>

lemma ready_ld:
  "ready q (0x7B # bs) s r mem rom f m \<Longrightarrow> ready (q + 1) bs s (r(7 := r 3)) mem rom f (exec step m)"
  "ready q (0x7A # bs) s r mem rom f m \<Longrightarrow> ready (q + 1) bs s (r(7 := r 2)) mem rom f (exec step m)"
  "ready q (0x7D # bs) s r mem rom f m \<Longrightarrow> ready (q + 1) bs s (r(7 := r 5)) mem rom f (exec step m)"
  "ready q (0x7C # bs) s r mem rom f m \<Longrightarrow> ready (q + 1) bs s (r(7 := r 4)) mem rom f (exec step m)"
  using ready_ld_a [of q 3] ready_ld_a [of q 2] ready_ld_a [of q 5] ready_ld_a [of q 4] by simp_all

text \<open>Seven, nine and eighteen steps.\<close>

lemma funpow_steps:
  "(g ^^ 7) x = g (g (g (g (g (g (g x))))))" "(g ^^ 9) x = g (g (g (g (g (g (g (g (g x))))))))"
  "(g ^^ 18) x = (g ^^ 7) (g (g ((g ^^ 9) x)))"
  by (simp_all add: numeral_eq_Suc)

lemma ready_ports:
  assumes "ready q (SET_PORTS @ bs) s r mem rom f m"
  shows "ready (14 + q) bs s (r(7 := r 4)) mem rom
    (f\<lparr>fdc_count := (if r 7 \<noteq> 0 then r 7 else 1), lba := mk16 (r 2) (r 3), dma := mk16 (r 4) (r 5)\<rparr>) ((exec step ^^ 9) m)"
proof -
  have "ready q (0xD3 # 0x16 # 0x7B # 0xD3 # 0x11 # 0x7A # 0xD3 # 0x12 # 0x7D # 0xD3 # 0x13 # 0x7C # 0xD3 # 0x14 # bs) s r mem rom f m"
    using assms by (simp add: SET_PORTS_def)
  from ready_out [OF ready_ld(4) [OF ready_out [OF ready_ld(3) [OF ready_out [OF ready_ld(2) [OF ready_out [OF ready_ld(1) [OF ready_out [OF this]]]]]]]]]
  show ?thesis by (simp add: funpow_steps port_write_def set_low_eq set_high_eq)
qed

lemma ready_code: "ready q bs s r mem rom f m \<Longrightarrow> code_at mem q cs \<Longrightarrow> ready q cs s r mem rom f m"
  by (simp add: ready_def)

lemma ready_read16: "ready q bs s r mem rom f m \<Longrightarrow> ready q' bs' s' r' mem rom' f' m' \<Longrightarrow> mread16 a m' = mread16 a m"
  by (simp add: ready_def mread16_def)

lemma length_code: "length WAIT_DISK = 7"
  by (simp add: WAIT_DISK_def)

text \<open>From the call of \<open>WAIT_DISK\<close> to the return; the stack is below \<open>s\<close>.\<close>

lemma ready_finish:
  assumes "ready q [0xCD, GET_LOW w, GET_HIGH w, 0xDB, 0x15, 0xC9] s r mem rom f m" and "code_at mem w WAIT_DISK"
    and "rom \<le> s - 2" and "unat (s - 2) + 1 < MEM_SIZE" and "unat q + 2 < MEM_SIZE" and "fdc_status f \<noteq> 2"
    and "{s - 2, s - 1} \<inter> (area w 7 \<union> area (3 + q) 3) = {}"
  shows "ready (mread16 s m) [] (s + 2) (r(7 := fdc_status f)) (mem(s - 2 := GET_LOW (3 + q), s - 1 := GET_HIGH (3 + q))) rom f
    ((exec step ^^ 7) m)"
proof -
  let ?mem = "mem(s - 2 := GET_LOW (3 + q), s - 1 := GET_HIGH (3 + q))"
  let ?r = "r(7 := fdc_status f)"
  have code: "code_at ?mem a bs" if "code_at mem a bs" "{s - 2, s - 1} \<inter> area a (length bs) = {}" for a bs
    using that(2) by (intro code_at_cong [OF that(1)]) auto
  have wait: "code_at ?mem w WAIT_DISK" by (rule code [OF assms(2)]) (use assms(7) length_code in auto)
  have "code_at mem (3 + q) [0xDB, 0x15, 0xC9]" using assms(1) by (simp add: ready_def)
  then have after: "code_at ?mem (3 + q) [0xDB, 0x15, 0xC9]" by (rule code) (use assms(7) in \<open>auto simp: eval_nat_numeral\<close>)
  note call = ready_call [OF assms(1,3,4,5)]
  have "ready w (0xDB # 0x15 # 0xFE # 2 # 0x28 # 0xFA # [0xC9]) (s - 2) r ?mem rom f (exec step m)"
    using ready_code [OF call(1)] wait by (simp add: WAIT_DISK_def)
  from ready_poll [OF ready_in_status [OF this]] assms(6)
  have p: "ready (4 + (2 + w)) [0xC9] (s - 2) ?r ?mem rom f (exec step (exec step (exec step (exec step m))))" by simp
  let ?m = "exec step (exec step (exec step (exec step m)))"
  have "mread16 (s - 2) ?m = 3 + q" using ready_read16 [OF call(1) p] call(2) by simp
  with ready_ret [OF p] have "ready (3 + q) [] s ?r ?mem rom f (exec step ?m)" by simp
  from ready_in_status [OF ready_code [OF this after]]
  have e: "ready (2 + (3 + q)) [0xC9] s ?r ?mem rom f (exec step (exec step ?m))" by simp
  have "mread16 s (exec step (exec step ?m)) = mread16 s m"
  proof -
    have "s \<noteq> s - 2" "s \<noteq> s - 1" "s + 1 \<noteq> s - 2" "s + 1 \<noteq> s - 1" by (auto simp: eq_diff_eq)
    then show ?thesis using e assms(1) by (simp add: mread16_def ready_def)
  qed
  with ready_ret [OF e] show ?thesis by (simp add: funpow_steps)
qed


text \<open>
  A call of a routine of the driver: its code and that of \<open>WAIT_DISK\<close> are in memory, and the two
  bytes below the stack pointer, in RAM, hold no code.
\<close>

definition driver_call :: "u8 list \<Rightarrow> u16 \<Rightarrow> machine \<Rightarrow> bool" where
  "driver_call code wait m \<longleftrightarrow> code_at (memory m) (pc m) code \<and> code_at (memory m) wait WAIT_DISK \<and>
     unat (pc m) + 24 \<le> MEM_SIZE \<and> rom_size m \<le> sp m - 2 \<and> unat (sp m - 2) + 1 < MEM_SIZE \<and>
     {sp m - 2, sp m - 1} \<inter> (area (pc m) 24 \<union> area wait 7) = {}"

lemma area_tail: "i + n \<le> k \<Longrightarrow> area (of_nat i + a) n \<subseteq> area a k"
proof
  fix x assume "i + n \<le> k" "x \<in> area (of_nat i + a) n"
  then obtain j where "j < n" "x = a + of_nat (i + j)" by (auto simp: area_def algebra_simps)
  then show "x \<in> area a k" unfolding area_def using \<open>i + n \<le> k\<close> by (intro image_eqI [of _ _ "i + j"]) auto
qed

lemma driver_start:
  assumes "driver_call (SET_PORTS @ [0x3E, c, 0xD3, 0x10] @ rest) w m" and "regs m 7 = 1"
  shows "ready (2 + (14 + pc m)) (0xD3 # 0x10 # rest) (sp m) ((regs m)(7 := c)) (memory m) (rom_size m)
    ((fdc m)\<lparr>fdc_count := 1, lba := DE m, dma := HL m\<rparr>) (exec step ((exec step ^^ 9) m))"
proof -
  have "ready (pc m) (SET_PORTS @ 0x3E # c # 0xD3 # 0x10 # rest) (sp m) (regs m) (memory m) (rom_size m) (fdc m) m"
    using assms(1) by (simp add: driver_call_def ready_def)
  from ready_ld_imm [OF ready_ports [OF this]] assms(2) show ?thesis by (simp add: pair_defs)
qed

lemma driver_end:
  assumes d: "driver_call code w m" and c: "code_at (memory m) (18 + pc m) tail" and tail: "tail = [0xCD, GET_LOW w, GET_HIGH w, 0xDB, 0x15, 0xC9]"
    and r: "ready (18 + pc m) [] (sp m) rs mem (rom_size m) f m1"
    and eq: "\<And>a. a \<in> area (pc m) 24 \<union> area w 7 \<Longrightarrow> mem a = memory m a" and "fdc_status f \<noteq> 2"
  shows "ready (mread16 (sp m) m1) [] (sp m + 2) (rs(7 := fdc_status f))
    (mem(sp m - 2 := GET_LOW (21 + pc m), sp m - 1 := GET_HIGH (21 + pc m))) (rom_size m) f ((exec step ^^ 7) m1)"
proof -
  have lt: "length tail = 6" by (simp add: tail)
  have "code_at mem (18 + pc m) tail"
    by (rule code_at_cong [OF c]) (use eq area_tail [of 18 6 24 "pc m"] lt in auto)
  then have r1: "ready (18 + pc m) [0xCD, GET_LOW w, GET_HIGH w, 0xDB, 0x15, 0xC9] (sp m) rs mem (rom_size m) f m1"
    using ready_code [OF r] by (simp add: tail)
  have w: "code_at mem w WAIT_DISK"
    by (rule code_at_cong) (use d eq length_code in \<open>auto simp: driver_call_def\<close>)
  have q: "unat (18 + pc m) + 2 < MEM_SIZE" "3 + (18 + pc m) = 21 + pc m"
    using d by (simp_all add: driver_call_def MEM_SIZE_def unat_word_ariths)
  have "{sp m - 2, sp m - 1} \<inter> (area w 7 \<union> area (3 + (18 + pc m)) 3) = {}"
    using d area_tail [of 21 3 24 "pc m"] unfolding q(2) by (auto simp: driver_call_def)
  from ready_finish [OF r1 w _ _ q(1) assms(6) this] d show ?thesis unfolding q(2) by (simp add: driver_call_def)
qed


lemma code_tail: "code_at mem q (SET_PORTS @ [b1, b2, b3, b4] @ rest) \<Longrightarrow> code_at mem (18 + q) rest"
  by (simp add: SET_PORTS_def)

lemma in_area: "a \<in> area b n \<longleftrightarrow> (\<exists>i<n. a = b + of_nat i)"
  by (auto simp: area_def)

lemma stored_elsewhere: "length bs \<le> n \<Longrightarrow> n < 0x10000 \<Longrightarrow> a \<notin> area b n \<Longrightarrow> store_bytes b bs m a = memory m a"
proof -
  assume "length bs \<le> n" "n < 0x10000" "a \<notin> area b n"
  moreover have "a = b + of_nat (unat (a - b))" by simp
  ultimately have "\<not> unat (a - b) < length bs" unfolding in_area by (metis order.strict_trans2)
  then show ?thesis by (simp add: store_bytes_def)
qed

lemma mem_bytes_stored:
  assumes "length bs \<le> n" and "n < 0x10000" and "\<forall>a\<in>area b n. writable m a" and "\<And>a. a \<in> area b n \<Longrightarrow> memory m' a = store_bytes b bs m a"
  shows "mem_bytes m' b n = bs @ drop (length bs) (mem_bytes m b n)"
proof (rule nth_equalityI)
  fix i assume "i < length (mem_bytes m' b n)"
  then have i: "i < n" by simp
  then have a: "b + of_nat i \<in> area b n" by (auto simp: in_area)
  then have "writable m (b + of_nat i)" using assms(3) by blast
  moreover have "unat (b + of_nat i - b) = i" using i assms(2) by (simp add: unat_of_nat)
  ultimately show "mem_bytes m' b n ! i = (bs @ drop (length bs) (mem_bytes m b n)) ! i"
    using i assms(1,4) a by (auto simp: mem_bytes_def mread8_def store_bytes_def writable_def nth_append)
qed (use assms(1) in simp)

section \<open>The driver computes the functions of the file system\<close>

text \<open>
  C11: The driver reads. A call of \<^verbatim>\<open>READ_DISK\<close> with A = 1, a sector number in DE and the
  address of a buffer in HL returns after 18 instructions, with status 0 in A and the stack as the
  caller left it. The buffer then holds \<open>disk_read\<close> of the image, the image is unchanged, and no
  byte outside the buffer and the two bytes below the stack changes.
\<close>

theorem driver_reads_sector:
  assumes "driver_call (READ_DISK w) w m" and "regs m 7 = 1" and "disk (fdc m) = Some img"
    and "\<forall>a\<in>area (HL m) BLOCK_SIZE. writable m a"
    and "area (HL m) BLOCK_SIZE \<inter> (area (pc m) 24 \<union> area w 7 \<union> {sp m - 2, sp m - 1, sp m, sp m + 1}) = {}"
  defines "m' \<equiv> (exec step ^^ 18) m"
  shows "pc m' = mread16 (sp m) m \<and> sp m' = sp m + 2 \<and> regs m' = (regs m)(7 := 0) \<and> disk (fdc m') = Some img \<and>
    mem_bytes m' (HL m) BLOCK_SIZE = disk_read img (DE m) (mem_bytes m (HL m) BLOCK_SIZE) \<and>
    (\<forall>a. a \<notin> area (HL m) BLOCK_SIZE \<union> {sp m - 2, sp m - 1} \<longrightarrow> memory m' a = memory m a)"
proof -
  let ?tail = "[0xCD, GET_LOW w, GET_HIGH w, 0xDB, 0x15, 0xC9]"
  have d: "driver_call (SET_PORTS @ [0x3E, 1, 0xD3, 0x10] @ ?tail) w m" using assms(1) by (simp add: READ_DISK_def)
  let ?m10 = "exec step ((exec step ^^ 9) m)" and ?bs = "sector img (DE m)"
  note st = driver_start [OF d assms(2)]
  let ?mem = "store_bytes (HL m) ?bs m"
  have "store_bytes (HL m) ?bs ?m10 = ?mem" by (rule store_bytes_cong) (use st in \<open>simp_all add: ready_def\<close>)
  with ready_read_command [OF st] assms(3)
  have r: "ready (18 + pc m) [] (sp m) ((regs m)(7 := 1)) ?mem (rom_size m) (fdc_idle img) (exec step ?m10)" by simp
  have lb: "length ?bs \<le> BLOCK_SIZE" "BLOCK_SIZE < 0x10000" by (simp_all add: sector_def BLOCK_SIZE_def)
  note other = stored_elsewhere [OF lb]
  have c: "code_at (memory m) (18 + pc m) ?tail" using d code_tail [of "memory m" "pc m"] unfolding driver_call_def by blast
  have mem: "?mem a = memory m a" if "a \<in> area (pc m) 24 \<union> area w 7" for a by (rule other) (use that assms(5) in auto)
  have "mread16 (sp m) (exec step ?m10) = mread16 (sp m) m"
    using r other [of "sp m" "HL m" m] other [of "sp m + 1" "HL m" m] assms(5) by (simp add: ready_def mread16_def)
  with driver_end [OF d c refl r mem]
  have e: "ready (mread16 (sp m) m) [] (sp m + 2) ((regs m)(7 := 0)) (?mem(sp m - 2 := GET_LOW (21 + pc m), sp m - 1 := GET_HIGH (21 + pc m)))
      (rom_size m) (fdc_idle img) m'" by (simp add: m'_def funpow_steps(3))
  then have "mem_bytes m' (HL m) BLOCK_SIZE = ?bs @ drop (length ?bs) (mem_bytes m (HL m) BLOCK_SIZE)"
    using assms(5) by (intro mem_bytes_stored [OF lb assms(4)]) (auto simp: ready_def)
  then show ?thesis using e other [of _ "HL m" m] by (simp add: ready_def disk_read_def)
qed

text \<open>
  C12: The driver writes. A call of \<^verbatim>\<open>WRITE_DISK\<close> with A = 1, a sector number in DE and the
  address of a buffer in HL returns after 18 instructions, with status 0 in A and the stack as the
  caller left it. The image is then \<open>disk_write\<close> of the old image and the buffer, and no byte of
  memory changes but the two below the stack.
\<close>

theorem driver_writes_sector:
  assumes "driver_call (WRITE_DISK w) w m" and "regs m 7 = 1" and "disk (fdc m) = Some img"
  defines "m' \<equiv> (exec step ^^ 18) m"
  shows "pc m' = mread16 (sp m) m \<and> sp m' = sp m + 2 \<and> regs m' = (regs m)(7 := 0) \<and>
    disk (fdc m') = Some (disk_write img (DE m) (mem_bytes m (HL m) BLOCK_SIZE)) \<and>
    (\<forall>a. a \<notin> {sp m - 2, sp m - 1} \<longrightarrow> memory m' a = memory m a)"
proof -
  let ?tail = "[0xCD, GET_LOW w, GET_HIGH w, 0xDB, 0x15, 0xC9]"
  have d: "driver_call (SET_PORTS @ [0x3E, 2, 0xD3, 0x10] @ ?tail) w m" using assms(1) by (simp add: WRITE_DISK_def)
  let ?m10 = "exec step ((exec step ^^ 9) m)" and ?img = "disk_write img (DE m) (mem_bytes m (HL m) BLOCK_SIZE)"
  note st = driver_start [OF d assms(2)]
  have "mem_bytes ?m10 (HL m) BLOCK_SIZE = mem_bytes m (HL m) BLOCK_SIZE" by (rule mem_bytes_cong) (use st in \<open>simp add: ready_def\<close>)
  with ready_write_command [OF st] assms(3)
  have r: "ready (18 + pc m) [] (sp m) ((regs m)(7 := 2)) (memory m) (rom_size m) (fdc_idle ?img) (exec step ?m10)" by simp
  have c: "code_at (memory m) (18 + pc m) ?tail" using d code_tail [of "memory m" "pc m"] unfolding driver_call_def by blast
  have "mread16 (sp m) (exec step ?m10) = mread16 (sp m) m" using r by (simp add: ready_def mread16_def)
  with driver_end [OF d c refl r refl] show ?thesis by (simp add: m'_def funpow_steps(3) ready_def)
qed


section \<open>Examples\<close>

text \<open>The driver at address 0 of the ROM, a buffer at 0x4000 and the stack below 0x5000.\<close>

definition driver_example :: "u8 list \<Rightarrow> machine" where
  "driver_example code = (power_on default_options (code @ WAIT_DISK))
     \<lparr>regs := (\<lambda>_. 0)(7 := 1, 4 := 0x40), sp := 0x5000,
      fdc := \<lparr>fdc_status = 0, fdc_count = 0, lba = 0, dma = 0, disk = Some [1, 2, 3]\<rparr>\<rparr>"

lemma driver_example_sel:
  "pc (driver_example c) = 0" "sp (driver_example c) = 0x5000" "HL (driver_example c) = 0x4000" "DE (driver_example c) = 0"
  "regs (driver_example c) 7 = 1" "rom_size (driver_example c) = 0x2000" "disk (fdc (driver_example c)) = Some [1, 2, 3]"
  "memory (driver_example c) = load_image (c @ WAIT_DISK)"
  by (simp_all add: driver_example_def pair_defs mk16_def power_on_def default_options_def)

lemma area_bounds: "a \<in> area b n \<Longrightarrow> unat b + n \<le> 0x10000 \<Longrightarrow> unat b \<le> unat a \<and> unat a < unat b + n"
  by (auto simp: in_area unat_word_ariths unat_of_nat)

lemma driver_example_areas:
  "a \<in> area (0 :: u16) 24 \<Longrightarrow> unat a < 24" "a \<in> area (24 :: u16) 7 \<Longrightarrow> unat a < 31"
  "a \<in> area (0x4000 :: u16) BLOCK_SIZE \<Longrightarrow> 0x4000 \<le> unat a \<and> unat a < 0x4200"
  using area_bounds [of a 0 24] area_bounds [of a 24 7] area_bounds [of a "0x4000" BLOCK_SIZE] by (auto simp: BLOCK_SIZE_def)

lemma code_at_load:
  "(\<And>i. i < length bs \<Longrightarrow> load_image img (q + of_nat i) = bs ! i \<and> unat (q + of_nat i) < MEM_SIZE) \<Longrightarrow> code_at (load_image img) q bs"
proof (induction bs arbitrary: q)
  case (Cons b bs)
  have "code_at (load_image img) (q + 1) bs"
  proof (rule Cons.IH)
    fix i assume "i < length bs"
    then show "load_image img (q + 1 + of_nat i) = bs ! i \<and> unat (q + 1 + of_nat i) < MEM_SIZE"
      using Cons.prems [of "Suc i"] by (simp add: algebra_simps)
  qed
  then show ?case using Cons.prems [of 0] by (simp add: cell_def)
qed simp

lemma driver_example_call:
  assumes "length code = 24"
  shows "driver_call code 24 (driver_example code)"
proof -
  have m: "load_image (code @ WAIT_DISK) a = (code @ WAIT_DISK) ! unat a" if "unat a < 31" for a
    using that assms by (simp add: load_image_def length_code)
  have "code_at (load_image (code @ WAIT_DISK)) 0 code"
    by (rule code_at_load) (use assms m in \<open>simp add: unat_of_nat nth_append MEM_SIZE_def\<close>)
  moreover have "code_at (load_image (code @ WAIT_DISK)) 24 WAIT_DISK"
    by (rule code_at_load) (use assms m in \<open>simp add: length_code unat_of_nat unat_word_ariths nth_append MEM_SIZE_def\<close>)
  ultimately show ?thesis
    using driver_example_areas by (force simp: driver_call_def driver_example_sel MEM_SIZE_def)
qed

theorem driver_reads_sector_witness:
  "take 4 (mem_bytes ((exec step ^^ 18) (driver_example (READ_DISK 24))) 0x4000 BLOCK_SIZE) = [1, 2, 3, 0]"
proof -
  let ?m = "driver_example (READ_DISK 24)"
  have d: "driver_call (READ_DISK 24) 24 ?m" by (rule driver_example_call) (simp add: READ_DISK_def SET_PORTS_def)
  have w: "\<forall>a\<in>area (HL ?m) BLOCK_SIZE. writable ?m a"
    using driver_example_areas(3) by (auto simp: driver_example_sel writable_def word_le_nat_alt MEM_SIZE_def dest!: driver_example_areas(3))
  have a: "area (HL ?m) BLOCK_SIZE \<inter> (area (pc ?m) 24 \<union> area 24 7 \<union> {sp ?m - 2, sp ?m - 1, sp ?m, sp ?m + 1}) = {}"
    by (auto simp: driver_example_sel dest!: driver_example_areas)
  have "mem_bytes ?m 0x4000 BLOCK_SIZE ! 3 = 0"
    by (simp add: mem_bytes_def BLOCK_SIZE_def mread8_def driver_example_sel load_image_def MEM_SIZE_def READ_DISK_def SET_PORTS_def length_code)
  then have "take 4 (disk_read [1, 2, 3] 0 (mem_bytes ?m 0x4000 BLOCK_SIZE)) = [1, 2, 3, 0]"
    by (simp add: disk_read_def sector_def BLOCK_SIZE_def numeral_eq_Suc take_Suc_conv_app_nth)
  then show ?thesis
    using driver_reads_sector [OF d _ _ w a, of "[1, 2, 3]"] by (simp add: driver_example_sel)
qed

theorem driver_writes_sector_witness:
  "disk (fdc ((exec step ^^ 18) (driver_example (WRITE_DISK 24)))) =
     Some (disk_write [1, 2, 3] 0 (mem_bytes (driver_example (WRITE_DISK 24)) 0x4000 BLOCK_SIZE))"
proof -
  have "driver_call (WRITE_DISK 24) 24 (driver_example (WRITE_DISK 24))"
    by (rule driver_example_call) (simp add: WRITE_DISK_def SET_PORTS_def)
  from driver_writes_sector [OF this] show ?thesis by (simp add: driver_example_sel)
qed

end
