(* ===== verification/Tty.thy ===== *)
theory Tty
  imports Manux_Prelude
begin

text \<open>
  The terminal driver (\<^verbatim>\<open>driver/tty.c\<close>): a ring buffer of 250 characters between the receive
  interrupt and the readers. Every access is by the byte-sized head, tail and count, so the buffer
  is a function of the byte offset from \<^verbatim>\<open>TTY_BUF\<close>. The readers wait for a character: a
  result \<open>None\<close> means that they still wait. The port writes are recorded in order.
\<close>

section \<open>State and operations\<close>

record tty =
  tty_buffer_tail :: u8
  tty_buffer_head :: u8
  tty_buffer_count :: u8
  tty_buffer :: "u8 \<Rightarrow> u8"
  tty_data :: "u8 list"
  tty_control :: "u8 list"

definition TTY_BUF_SIZE :: nat where "TTY_BUF_SIZE = 250"

text \<open>The offset of \<^verbatim>\<open>TTY_BUF\<close> in the kernel workspace \<open>ws\<close>.\<close>

definition TTY_BUF :: "u16 \<Rightarrow> u16" where "TTY_BUF ws = ws + 0x106"

text \<open>\<^verbatim>\<open>*tty_buffer_head = tty_buffer\<close> stores the low byte of the buffer's address, not 0.\<close>

definition tty_init :: "u16 \<Rightarrow> tty \<Rightarrow> tty" where
  "tty_init ws t = t\<lparr>tty_control := tty_control t @ [0x03, 0x96], tty_buffer_count := 0,
     tty_buffer_head := GET_LOW (TTY_BUF ws), tty_buffer_tail := GET_LOW (TTY_BUF ws)\<rparr>"

text \<open>\<^verbatim>\<open>(i + 1) % TTY_BUF_SIZE\<close>, computed as an \<^verbatim>\<open>int\<close>.\<close>

definition ring_next :: "u8 \<Rightarrow> u8" where
  "ring_next i = of_nat ((unat i + 1) mod TTY_BUF_SIZE)"

definition z80_rst_38h :: "u8 \<Rightarrow> tty \<Rightarrow> tty" where
  "z80_rst_38h port t =
     (if unat (tty_buffer_count t) < TTY_BUF_SIZE
      then t\<lparr>tty_buffer := (tty_buffer t)(tty_buffer_head t := port),
             tty_buffer_head := ring_next (tty_buffer_head t),
             tty_buffer_count := tty_buffer_count t + 1\<rparr>
      else t)"

definition tty_getchar :: "tty \<Rightarrow> (u8 \<times> tty) option" where
  "tty_getchar t =
     (if tty_buffer_count t = 0 then None
      else Some (tty_buffer t (tty_buffer_tail t),
                 t\<lparr>tty_buffer_tail := ring_next (tty_buffer_tail t),
                   tty_buffer_count := tty_buffer_count t - 1\<rparr>))"

definition tty_putchar :: "u8 \<Rightarrow> tty \<Rightarrow> tty" where
  "tty_putchar c t = t\<lparr>tty_data := tty_data t @ [c]\<rparr>"

text \<open>RST 10H reads a character like \<open>tty_getchar\<close> and echoes it; RST 08H writes register A.\<close>

definition z80_rst_10h :: "tty \<Rightarrow> (u8 \<times> tty) option" where
  "z80_rst_10h t =
     (if tty_buffer_count t = 0 then None
      else let c = tty_buffer t (tty_buffer_tail t);
               t1 = t\<lparr>tty_buffer_tail := ring_next (tty_buffer_tail t), tty_buffer_count := tty_buffer_count t - 1\<rparr>
           in Some (c, t1\<lparr>tty_data := tty_data t1 @ [c]\<rparr>))"

definition z80_rst_08h :: "u8 \<Rightarrow> tty \<Rightarrow> tty" where
  "z80_rst_08h a t = t\<lparr>tty_data := tty_data t @ [a]\<rparr>"

lemma rst_10h_getchar:
  "z80_rst_10h t = map_option (\<lambda>(c, t'). (c, tty_putchar c t')) (tty_getchar t)"
  by (simp add: z80_rst_10h_def tty_getchar_def tty_putchar_def Let_def)

section \<open>Queues\<close>

text \<open>Operations on a queue; a \<open>Get\<close> on an empty queue waits and produces nothing.\<close>

datatype 'a qop = Put 'a | Get

fun queue_run :: "('a \<Rightarrow> 's \<Rightarrow> 's) \<Rightarrow> ('s \<Rightarrow> ('a \<times> 's) option) \<Rightarrow> 'a qop list \<Rightarrow> 's \<Rightarrow> 'a list \<times> 's" where
  "queue_run put get [] s = ([], s)"
| "queue_run put get (Put x # ops) s = queue_run put get ops (put x s)"
| "queue_run put get (Get # ops) s =
     (case get s of None \<Rightarrow> queue_run put get ops s
      | Some (x, s') \<Rightarrow> (x # fst (queue_run put get ops s'), snd (queue_run put get ops s')))"

text \<open>The specification: a list with a capacity.\<close>

definition list_put :: "nat \<Rightarrow> 'a \<Rightarrow> 'a list \<Rightarrow> 'a list" where
  "list_put cap x xs = (if length xs < cap then xs @ [x] else xs)"

fun list_get :: "'a list \<Rightarrow> ('a \<times> 'a list) option" where
  "list_get [] = None"
| "list_get (x # xs) = Some (x, xs)"

locale bounded_queue =
  fixes ok :: "'s \<Rightarrow> bool" and contents :: "'s \<Rightarrow> 'a list" and cap :: nat
    and put :: "'a \<Rightarrow> 's \<Rightarrow> 's" and get :: "'s \<Rightarrow> ('a \<times> 's) option"
  assumes put_ok: "ok s \<Longrightarrow> ok (put x s)"
    and put_contents: "ok s \<Longrightarrow> contents (put x s) = list_put cap x (contents s)"
    and get_none: "ok s \<Longrightarrow> contents s = [] \<Longrightarrow> get s = None"
    and get_some: "ok s \<Longrightarrow> contents s = x # xs \<Longrightarrow> \<exists>s'. get s = Some (x, s') \<and> ok s' \<and> contents s' = xs"
begin

text \<open>Any sequence of operations gives what the list gives.\<close>

lemma run_refines:
  "ok s \<Longrightarrow> fst (queue_run put get ops s) = fst (queue_run (list_put cap) list_get ops (contents s)) \<and>
     contents (snd (queue_run put get ops s)) = snd (queue_run (list_put cap) list_get ops (contents s)) \<and>
     ok (snd (queue_run put get ops s))"
proof (induction ops arbitrary: s)
  case (Cons op ops)
  show ?case
  proof (cases op)
    case (Put x)
    then show ?thesis using Cons put_ok put_contents by simp
  next
    case Get
    show ?thesis
    proof (cases "contents s")
      case Nil
      then show ?thesis using Cons Get get_none by simp
    next
      case (Cons x xs)
      then obtain s' where "get s = Some (x, s')" "ok s'" "contents s' = xs" using get_some Cons.prems by blast
      then show ?thesis using Cons.IH [of s'] Cons Get by simp
    qed
  qed
qed simp

end

text \<open>Nothing is lost or reordered as long as the queue has room.\<close>

fun puts :: "'a qop list \<Rightarrow> 'a list" where
  "puts [] = []"
| "puts (Put x # ops) = x # puts ops"
| "puts (Get # ops) = puts ops"

lemma list_fifo:
  "length xs + length (puts ops) \<le> cap \<Longrightarrow>
   fst (queue_run (list_put cap) list_get ops xs) @ snd (queue_run (list_put cap) list_get ops xs) = xs @ puts ops"
proof (induction ops arbitrary: xs)
  case (Cons op ops)
  show ?case
  proof (cases op)
    case (Put x)
    then show ?thesis using Cons by (simp add: list_put_def)
  next
    case Get
    then show ?thesis using Cons by (cases xs) simp_all
  qed
qed simp

section \<open>The ring buffer is a queue\<close>

definition ring :: "u8 \<Rightarrow> nat \<Rightarrow> u8" where
  "ring i k = of_nat ((unat i + k) mod TTY_BUF_SIZE)"

definition tty_contents :: "tty \<Rightarrow> u8 list" where
  "tty_contents t = map (\<lambda>k. tty_buffer t (ring (tty_buffer_tail t) k)) [0..<unat (tty_buffer_count t)]"

definition tty_ok :: "tty \<Rightarrow> bool" where
  "tty_ok t \<longleftrightarrow> unat (tty_buffer_tail t) < TTY_BUF_SIZE \<and> unat (tty_buffer_count t) \<le> TTY_BUF_SIZE \<and>
     tty_buffer_head t = ring (tty_buffer_tail t) (unat (tty_buffer_count t))"

lemma ring_unat: "unat (ring i k) = (unat i + k) mod TTY_BUF_SIZE"
proof -
  have "(unat i + k) mod TTY_BUF_SIZE < 256" by (rule less_trans [of _ TTY_BUF_SIZE]) (simp_all add: TTY_BUF_SIZE_def)
  then show ?thesis by (simp add: ring_def unat_of_nat)
qed

lemma ring_next_ring: "ring_next i = ring i 1"
  by (simp add: ring_next_def ring_def)

lemma ring_ring: "ring (ring i a) b = ring i (a + b)"
  by (simp add: word_unat_eq_iff ring_unat mod_add_left_eq add.assoc)

lemma ring_inj: "k < TTY_BUF_SIZE \<Longrightarrow> l < TTY_BUF_SIZE \<Longrightarrow> ring i k = ring i l \<longleftrightarrow> k = l"
proof (induction k l rule: linorder_wlog)
  case (le k l)
  show ?case
  proof
    assume "ring i k = ring i l"
    then have "(unat i + l) mod TTY_BUF_SIZE = (unat i + k) mod TTY_BUF_SIZE"
      by (simp add: word_unat_eq_iff ring_unat)
    then have "TTY_BUF_SIZE dvd l - k" using le(1) by (subst (asm) mod_eq_dvd_iff_nat) simp_all
    then have "\<not> 0 < l - k" using nat_dvd_not_less [of "l - k" TTY_BUF_SIZE] le(3) by linarith
    then show "k = l" using le by simp
  qed simp
qed auto

lemma ring_0: "unat i < TTY_BUF_SIZE \<Longrightarrow> ring i 0 = i"
  by (simp add: word_unat_eq_iff ring_unat)

lemma ring_less: "unat (ring i k) < TTY_BUF_SIZE"
  by (simp add: ring_unat TTY_BUF_SIZE_def)

lemma count_succ: "unat (c :: u8) < TTY_BUF_SIZE \<Longrightarrow> unat (c + 1) = Suc (unat c)"
  by (simp add: unat_word_ariths TTY_BUF_SIZE_def)

lemma count_pred: "(c :: u8) \<noteq> 0 \<Longrightarrow> Suc (unat (c - 1)) = unat c"
  by (metis Suc_pred' unat_gt_0 unat_minus_one)

lemma tty_put_ok:
  assumes "tty_ok t"
  shows "tty_ok (z80_rst_38h x t) \<and> tty_contents (z80_rst_38h x t) = list_put TTY_BUF_SIZE x (tty_contents t)"
proof (cases "unat (tty_buffer_count t) < TTY_BUF_SIZE")
  case False
  then show ?thesis using assms by (simp add: z80_rst_38h_def tty_contents_def list_put_def)
next
  case True
  let ?n = "unat (tty_buffer_count t)"
  have h: "tty_buffer_head t = ring (tty_buffer_tail t) ?n" using assms by (simp add: tty_ok_def)
  have "ring (tty_buffer_tail t) k \<noteq> ring (tty_buffer_tail t) ?n" if "k < ?n" for k
    using that True by (simp add: ring_inj)
  then show ?thesis
    using assms True count_succ [OF True]
    by (simp add: z80_rst_38h_def tty_ok_def tty_contents_def list_put_def h ring_next_ring ring_ring)
qed

lemma tty_get_ok:
  assumes "tty_ok t" and "tty_contents t = x # xs"
  shows "\<exists>t'. tty_getchar t = Some (x, t') \<and> tty_ok t' \<and> tty_contents t' = xs \<and> tty_data t' = tty_data t"
proof -
  let ?i = "tty_buffer_tail t" and ?n = "unat (tty_buffer_count t)"
  have nz: "tty_buffer_count t \<noteq> 0" using assms(2) by (auto simp: tty_contents_def)
  note n = count_pred [OF this]
  have "x # xs = map (\<lambda>k. tty_buffer t (ring ?i k)) (0 # map Suc [0..<unat (tty_buffer_count t - 1)])"
    using assms(2) n by (simp add: tty_contents_def upt_conv_Cons map_Suc_upt del: upt_Suc)
  then have x: "x = tty_buffer t ?i" and xs: "xs = map (\<lambda>k. tty_buffer t (ring ?i (Suc k))) [0..<unat (tty_buffer_count t - 1)]"
    using assms(1) by (simp_all add: ring_0 tty_ok_def)
  let ?t = "t\<lparr>tty_buffer_tail := ring_next ?i, tty_buffer_count := tty_buffer_count t - 1\<rparr>"
  have "tty_ok ?t"
    using assms(1) n by (auto simp: tty_ok_def ring_next_ring ring_ring ring_less)
  moreover have "tty_contents ?t = xs" by (simp add: tty_contents_def xs ring_next_ring ring_ring)
  ultimately show ?thesis using nz x by (simp add: tty_getchar_def)
qed

interpretation ttyq: bounded_queue tty_ok tty_contents TTY_BUF_SIZE z80_rst_38h tty_getchar
proof unfold_locales
  show "tty_getchar t = None" if "tty_ok t" "tty_contents t = []" for t
    using that by (simp add: tty_getchar_def tty_contents_def unat_eq_0)
qed (use tty_put_ok tty_get_ok in blast)+

lemma tty_init_ok: "unat (GET_LOW (TTY_BUF ws)) < TTY_BUF_SIZE \<Longrightarrow> tty_ok (tty_init ws t) \<and> tty_contents (tty_init ws t) = []"
  by (simp add: tty_init_def tty_ok_def tty_contents_def ring_0)

text \<open>
  C27: the terminal driver is a queue of 250 characters. Started with a buffer whose address has a
  low byte below 250, any sequence of receive interrupts and reads returns exactly the characters
  a bounded list returns, and as long as no more than 250 characters have arrived they are
  delivered in order without a loss. That \<^verbatim>\<open>tty_init\<close> sets head and tail to the address of the
  buffer and not to 0 has no effect on this.
\<close>

theorem tty_is_queue:
  assumes "unat (GET_LOW (TTY_BUF ws)) < TTY_BUF_SIZE"
  shows "fst (queue_run z80_rst_38h tty_getchar ops (tty_init ws t)) = fst (queue_run (list_put TTY_BUF_SIZE) list_get ops []) \<and>
    (length (puts ops) \<le> TTY_BUF_SIZE \<longrightarrow>
      (\<exists>waiting. puts ops = fst (queue_run z80_rst_38h tty_getchar ops (tty_init ws t)) @ waiting))"
proof -
  have same: "fst (queue_run z80_rst_38h tty_getchar ops (tty_init ws t)) = fst (queue_run (list_put TTY_BUF_SIZE) list_get ops [])"
    using ttyq.run_refines [of "tty_init ws t" ops] tty_init_ok [OF assms, of t] by simp
  show ?thesis using list_fifo [of "[]" ops TTY_BUF_SIZE] unfolding same by (auto dest: sym)
qed

definition demo_tty :: tty where
  "demo_tty = \<lparr>tty_buffer_tail = 0, tty_buffer_head = 0, tty_buffer_count = 0, tty_buffer = \<lambda>_. 0, tty_data = [], tty_control = []\<rparr>"

theorem tty_is_queue_witness:
  "fst (queue_run z80_rst_38h tty_getchar [Get, Put 0x41, Put 0x42, Get] (tty_init 0x2000 demo_tty)) = [0x41]"
  using tty_is_queue [of "0x2000" "[Get, Put 0x41, Put 0x42, Get]" demo_tty]
  by (simp add: TTY_BUF_def TTY_BUF_SIZE_def GET_LOW_def list_put_def)

section \<open>A read interrupted by a character\<close>

text \<open>
  \<^verbatim>\<open>tty_getchar\<close> and RST 10H run with interrupts enabled. The steps of the C code between which
  the receive interrupt can occur: the test of the count, the fetch of the character, the update
  of the tail, the load of the count and its store.
\<close>

datatype getc = Poll | Fetch | Advance u8 | Load u8 | Store u8 u8 | Ret u8

datatype tty_event = Isr u8 | Fg

fun getc_step :: "getc \<times> tty \<Rightarrow> getc \<times> tty" where
  "getc_step (Poll, t) = (if tty_buffer_count t = 0 then Poll else Fetch, t)"
| "getc_step (Fetch, t) = (Advance (tty_buffer t (tty_buffer_tail t)), t)"
| "getc_step (Advance c, t) = (Load c, t\<lparr>tty_buffer_tail := ring_next (tty_buffer_tail t)\<rparr>)"
| "getc_step (Load c, t) = (Store c (tty_buffer_count t), t)"
| "getc_step (Store c n, t) = (Ret c, t\<lparr>tty_buffer_count := n - 1\<rparr>)"
| "getc_step (Ret c, t) = (Ret c, t)"

fun tty_events :: "tty_event list \<Rightarrow> getc \<times> tty \<Rightarrow> getc \<times> tty" where
  "tty_events [] st = st"
| "tty_events (Isr x # es) (pc, t) = tty_events es (pc, z80_rst_38h x t)"
| "tty_events (Fg # es) st = tty_events es (getc_step st)"

text \<open>The schedule of one read with the interrupt before its \<open>k\<close>-th step.\<close>

definition schedule :: "nat \<Rightarrow> u8 \<Rightarrow> tty_event list" where
  "schedule k x = replicate k Fg @ [Isr x] @ replicate (5 - k) Fg"

lemma uninterrupted:
  assumes "tty_buffer_count t \<noteq> 0"
  shows "tty_events (replicate 5 Fg) (Poll, t) = (Ret (fst (the (tty_getchar t))), snd (the (tty_getchar t)))"
  using assms by (simp add: numeral_eq_Suc tty_getchar_def)

text \<open>
  C28: a race between the reader and the receive interrupt. With the interrupt between any other two
  steps, the read returns the oldest character and the new one is queued behind the rest. But when
  it comes between the load and the store of the count, the stored count does not include the new
  character: the head is ahead of the count, and the new character is not delivered in its turn.
\<close>

theorem getchar_race:
  assumes "tty_ok t" and "tty_contents t = c # cs" and "length (c # cs) < TTY_BUF_SIZE" and "k \<le> 5"
  shows "fst (tty_events (schedule k x) (Poll, t)) = Ret c \<and>
    (if k = 4 then tty_contents (snd (tty_events (schedule k x) (Poll, t))) = cs \<and> \<not> tty_ok (snd (tty_events (schedule k x) (Poll, t)))
     else tty_contents (snd (tty_events (schedule k x) (Poll, t))) = cs @ [x] \<and> tty_ok (snd (tty_events (schedule k x) (Poll, t))))"
proof -
  let ?i = "tty_buffer_tail t" and ?n = "unat (tty_buffer_count t)"
  have n: "?n = Suc (length cs)" using assms(2) by (metis length_Cons length_map length_upt minus_nat.diff_0 tty_contents_def)
  then have nz: "tty_buffer_count t \<noteq> 0" by auto
  have lt: "?n < TTY_BUF_SIZE" using n assms(3) by simp
  have h: "tty_buffer_head t = ring ?i ?n" using assms(1) by (simp add: tty_ok_def)
  obtain t' where t': "tty_getchar t = Some (c, t')" "tty_ok t'" "tty_contents t' = cs" using tty_get_ok [OF assms(1,2)] by blast
  then have c: "c = tty_buffer t ?i" and t'_def: "t' = t\<lparr>tty_buffer_tail := ring_next ?i, tty_buffer_count := tty_buffer_count t - 1\<rparr>"
    using nz by (simp_all add: tty_getchar_def)
  define u where "u = z80_rst_38h x t'"
  have u: "tty_ok u" "tty_contents u = cs @ [x]"
    using tty_put_ok [OF t'(2), of x] assms(3) t'(3) by (simp_all add: u_def list_put_def)
  have cp: "tty_buffer_count t - 1 + 1 = tty_buffer_count t" "tty_buffer_count t + 1 - 1 = tty_buffer_count t" by simp_all
  have lt': "unat (tty_buffer_count t - 1) < TTY_BUF_SIZE" using count_pred [OF nz] lt by simp
  have ne: "?i \<noteq> tty_buffer_head t"
    using ring_inj [of 0 ?n ?i] lt n assms(1) unfolding h by (metis Zero_not_Suc ring_0 tty_ok_def TTY_BUF_SIZE_def zero_less_numeral)
  have u_def': "u = t\<lparr>tty_buffer := (tty_buffer t)(tty_buffer_head t := x), tty_buffer_head := ring_next (tty_buffer_head t),
      tty_buffer_tail := ring_next ?i\<rparr>"
    using lt' by (simp add: u_def z80_rst_38h_def t'_def)
  have nz1: "tty_buffer_count t + 1 \<noteq> 0" using count_succ [OF lt] by auto
  have sem: "tty_events (schedule k x) (Poll, t) =
      (Ret c, if k = 4 then u\<lparr>tty_buffer_count := tty_buffer_count t - 1\<rparr> else u)"
  proof -
    consider "k = 0" | "k = 1" | "k = 2" | "k = 3" | "k = 4" | "k = 5" using assms(4) by linarith
    then show ?thesis
      by cases (use nz nz1 lt lt' ne in \<open>simp_all add: schedule_def numeral_eq_Suc z80_rst_38h_def u_def' c cp\<close>)
  qed
  let ?v = "u\<lparr>tty_buffer_count := tty_buffer_count t - 1\<rparr>"
  have v: "tty_contents ?v = cs"
  proof -
    have "ring (ring_next ?i) l \<noteq> tty_buffer_head t" if "l < unat (tty_buffer_count t - 1)" for l
      unfolding h ring_next_ring ring_ring using that count_pred [OF nz] lt by (subst ring_inj) auto
    then have "tty_contents ?v = tty_contents t'" by (simp add: tty_contents_def u_def' t'_def)
    then show ?thesis using t'(3) by simp
  qed
  have "\<not> tty_ok ?v"
  proof
    assume "tty_ok ?v"
    then have "ring ?i (Suc ?n) = ring ?i ?n"
      using count_pred [OF nz] h by (simp add: tty_ok_def u_def' ring_next_ring ring_ring)
    then show False using ring_inj [of 0 1 "ring ?i ?n"] by (simp add: ring_ring TTY_BUF_SIZE_def)
  qed
  then show ?thesis unfolding sem using u v by simp
qed

theorem getchar_race_witness:
  "tty_contents (snd (tty_events (schedule 4 0x42) (Poll, z80_rst_38h 0x41 demo_tty))) = []"
proof -
  let ?t = "z80_rst_38h 0x41 demo_tty"
  have t: "tty_ok ?t" "tty_contents ?t = [0x41]"
    by (simp_all add: demo_tty_def z80_rst_38h_def tty_ok_def tty_contents_def TTY_BUF_SIZE_def ring_def ring_next_def)
  from getchar_race [OF t, of 4 "0x42"] show ?thesis by (simp add: TTY_BUF_SIZE_def)
qed

end
