(* ===== verification/Kstdio.thy ===== *)
theory Kstdio
  imports Tty
begin

text \<open>
  The kernel's character I/O (\<^verbatim>\<open>kernel/kstdio.c\<close>) on the terminal driver. Output functions
  append to the bytes written to the data port. \<open>kgetslen\<close> reads the characters that the
  interrupts deliver; it is modelled on the sequence of characters the reads return.
\<close>

section \<open>Output\<close>

definition kputchar :: "u8 \<Rightarrow> tty \<Rightarrow> u16 \<times> tty" where
  "kputchar c t = (0, tty_putchar c t)"

definition kgetchar :: "tty \<Rightarrow> (u8 \<times> tty) option" where
  "kgetchar t = z80_rst_10h t"

text \<open>\<open>s\<close> is the memory the pointer sees. Without a terminator in it the loop leaves it: \<open>None\<close>.\<close>

fun kputs_loop :: "u8 list \<Rightarrow> u16 \<Rightarrow> tty \<Rightarrow> (u16 \<times> tty) option" where
  "kputs_loop [] i t = None"
| "kputs_loop (c # s) i t = (if c \<noteq> 0 then kputs_loop s (i + 1) (snd (kputchar c t)) else Some (i, t))"

definition kputs :: "u8 list \<Rightarrow> tty \<Rightarrow> (u16 \<times> tty) option" where
  "kputs s t = kputs_loop s 0 t"

text \<open>The comparison \<^verbatim>\<open>i < len\<close> of an unsigned and an \<^verbatim>\<open>int\<close> is unsigned.\<close>

fun kputslen_loop :: "u8 list \<Rightarrow> nat \<Rightarrow> tty \<Rightarrow> tty option" where
  "kputslen_loop s 0 t = Some t"
| "kputslen_loop s (Suc n) t = (case s of [] \<Rightarrow> None | c # s' \<Rightarrow> kputslen_loop s' n (snd (kputchar c t)))"

definition kputslen :: "u8 list \<Rightarrow> u16 \<Rightarrow> tty \<Rightarrow> (u16 \<times> tty) option" where
  "kputslen s len t = map_option (\<lambda>t'. (0, t')) (kputslen_loop s (unat len) t)"

definition hex_digit :: "u8 \<Rightarrow> u8" where
  "hex_digit d = (if d < 10 then 0x30 + d else 0x41 + d - 10)"

text \<open>The loop of \<open>kputh\<close> over the shifts 12, 8, 4, 0.\<close>

fun kputh_loop :: "u16 \<Rightarrow> nat list \<Rightarrow> bool \<Rightarrow> tty \<Rightarrow> tty" where
  "kputh_loop n [] started t = t"
| "kputh_loop n (i # is) started t =
     (let digit = ucast (signed_drop_bit i n AND 0xF) :: u8
      in if 0 < digit \<or> started \<or> i = 0
         then kputh_loop n is True (snd (kputchar (hex_digit digit) t))
         else kputh_loop n is started t)"

definition kputh :: "u16 \<Rightarrow> tty \<Rightarrow> tty" where
  "kputh n t = kputh_loop n [12, 8, 4, 0] False t"

section \<open>Input\<close>

text \<open>
  The result of reading a line: still waiting for a character, a write outside the buffer, or the
  count, the buffer, the characters not yet read and the terminal (with the echo of every
  character, as RST 10H does it).
\<close>

datatype getline = Waiting | Overrun | Line nat "u8 list" "u8 list" tty

definition kputs_str :: "u8 list \<Rightarrow> tty \<Rightarrow> tty" where
  "kputs_str s t = snd (the (kputs (s @ [0]) t))"

definition kgets_end :: "nat \<Rightarrow> u8 list \<Rightarrow> u8 list \<Rightarrow> tty \<Rightarrow> getline" where
  "kgets_end i s inp t = (if i < length s then Line i (s[i := 0]) inp t else Overrun)"

fun kgets_loop :: "nat \<Rightarrow> nat \<Rightarrow> u8 list \<Rightarrow> u8 list \<Rightarrow> tty \<Rightarrow> getline" where
  "kgets_loop len i s [] t = (if i < len then Waiting else kgets_end i s [] t)"
| "kgets_loop len i s (c # inp) t =
     (if i < len then
        let t1 = tty_putchar c t in
        if length s \<le> i then Overrun
        else
          let s1 = s[i := c] in
          if c = 0x0D \<or> c = 0x0A then kgets_end i s1 inp (kputs_str [0x0A, 0x0D] t1)
          else if c = 0x08 \<or> c = 0x7F then
            if 0 < i then kgets_loop len (i - 1) (s1[i := 0]) inp (kputs_str [0x08, 0x20, 0x08] t1)
            else kgets_loop len (i + 1) s1 inp t1
          else kgets_loop len (i + 1) s1 inp t1
      else kgets_end i s (c # inp) t)"

text \<open>With \<^verbatim>\<open>len\<close> an \<^verbatim>\<open>int\<close>, a negative length ends the loop at once.\<close>

definition kgetslen :: "u8 list \<Rightarrow> u16 \<Rightarrow> u8 list \<Rightarrow> tty \<Rightarrow> getline" where
  "kgetslen s len inp t = kgets_loop (nat (sint len)) 0 s inp t"

section \<open>Lemmas on output\<close>

lemma kputs_loop_out:
  "0 \<notin> set s \<Longrightarrow> kputs_loop (s @ 0 # rest) i t = Some (i + of_nat (length s), t\<lparr>tty_data := tty_data t @ s\<rparr>)"
  by (induction s arbitrary: i t) (auto simp: kputchar_def tty_putchar_def add.assoc)

lemma kputs_out: "0 \<notin> set s \<Longrightarrow> kputs (s @ 0 # rest) t = Some (of_nat (length s), t\<lparr>tty_data := tty_data t @ s\<rparr>)"
  by (simp add: kputs_def kputs_loop_out)

lemma kputs_str_out: "0 \<notin> set s \<Longrightarrow> kputs_str s t = t\<lparr>tty_data := tty_data t @ s\<rparr>"
  using kputs_out [of s "[]" t] by (simp add: kputs_str_def)

lemma kputslen_out:
  "unat len \<le> length s \<Longrightarrow> kputslen s len t = Some (0, t\<lparr>tty_data := tty_data t @ take (unat len) s\<rparr>)"
proof -
  have "n \<le> length s \<Longrightarrow> kputslen_loop s n t = Some (t\<lparr>tty_data := tty_data t @ take n s\<rparr>)" for n s and t :: tty
    by (induction s n t rule: kputslen_loop.induct) (auto simp: kputchar_def tty_putchar_def split: list.splits)
  then show "unat len \<le> length s \<Longrightarrow> ?thesis" by (simp add: kputslen_def)
qed

section \<open>Printing numbers\<close>

text \<open>The value of a string of upper-case hexadecimal digits.\<close>

definition hex_value :: "u8 \<Rightarrow> nat" where
  "hex_value c = (if c < 0x41 then unat c - 0x30 else unat c - 0x41 + 10)"

definition hex_parse :: "u8 list \<Rightarrow> nat" where
  "hex_parse ds = foldl (\<lambda>v c. 16 * v + hex_value c) 0 ds"

lemma kputh_digit: "i \<le> 12 \<Longrightarrow> unat (ucast (signed_drop_bit i (n :: u16) AND 0xF) :: u8) = unat n div 2 ^ i mod 16"
proof -
  assume i: "i \<le> 12"
  have m: "(0xF :: u16) = mask 4" by (simp add: mask_eq_exp_minus_1)
  have "signed_drop_bit i n AND mask 4 = drop_bit i n AND mask 4"
    using i by (intro bit_word_eqI) (auto simp: bit_simps)
  then have "unat (signed_drop_bit i n AND 0xF) = unat (take_bit 4 (drop_bit i n))" by (simp only: m take_bit_eq_mask)
  also have "\<dots> = take_bit 4 (drop_bit i (unat n))"
    using unat_u16_less [of n] by (simp only: unsigned_take_bit_eq unsigned_drop_bit_eq) (simp add: take_bit_nat_eq_self)
  also have "\<dots> = unat n div 2 ^ i mod 16" by (simp add: drop_bit_eq_div take_bit_eq_mod)
  finally have "unat (signed_drop_bit i n AND 0xF) = unat n div 2 ^ i mod 16" .
  moreover have "unat n div 2 ^ i mod 16 < 256" by (rule less_trans [of _ 16]) simp_all
  ultimately show ?thesis by (simp add: unsigned_ucast_eq take_bit_nat_eq_self)
qed

lemma hex_digit_value: "unat d < 16 \<Longrightarrow> hex_value (hex_digit d) = unat d"
proof -
  assume d: "unat d < 16"
  have "hex_value (hex_digit (of_nat k)) = k" if "k < 16" for k
  proof -
    have "k \<in> set [0..<16]" using that by simp
    then show ?thesis unfolding set_upt
      by (simp add: hex_value_def hex_digit_def numeral_eq_Suc less_Suc_eq) auto
  qed
  from this [OF d] show ?thesis by simp
qed

lemma four_hex_digits:
  "unat (n :: u16) = 16 * (16 * (16 * (unat n div 2 ^ 12 mod 16) + unat n div 2 ^ 8 mod 16) + unat n div 2 ^ 4 mod 16) + unat n div 2 ^ 0 mod 16"
proof -
  define m where "m = unat n"
  have d: "m div 2 ^ 4 = m div 16" "m div 2 ^ 8 = m div 16 div 16" "m div 2 ^ 12 = m div 16 div 16 div 16" "m div 2 ^ 0 = m"
    by (simp_all add: div_mult2_eq [symmetric])
  have "m div 16 div 16 div 16 < 16" using unat_u16_less [of n] unfolding m_def by (simp add: less_mult_imp_div_less)
  then have "m div 16 div 16 div 16 mod 16 = m div 16 div 16 div 16" by (rule mod_less)
  then show ?thesis unfolding m_def [symmetric] d by (simp only: mult_div_mod_eq)
qed

lemma hex_digit_zero: "unat d < 16 \<Longrightarrow> hex_digit d = 0x30 \<Longrightarrow> d = 0"
  using hex_digit_value [of d] by (simp add: hex_value_def unat_eq_0)

text \<open>
  \<^verbatim>\<open>kputh\<close> prints a number as the hexadecimal numeral that reads back as its unsigned value,
  with no leading zero, although the argument is a signed \<^verbatim>\<open>int\<close>.
\<close>

theorem kputh_prints_hex:
  "\<exists>ds. kputh n t = t\<lparr>tty_data := tty_data t @ ds\<rparr> \<and> hex_parse ds = unat n \<and> ds \<noteq> [] \<and>
     (hd ds = 0x30 \<longrightarrow> n = 0 \<and> ds = [0x30])"
proof -
  define d where "d = (\<lambda>i. ucast (signed_drop_bit i n AND 0xF) :: u8)"
  have dv: "unat (d i) = unat n div 2 ^ i mod 16" if "i \<in> {0, 4, 8, 12}" for i
    using that kputh_digit [of i n] by (auto simp: d_def)
  then have lt: "unat (d i) < 16" if "i \<in> {0, 4, 8, 12}" for i using that by simp
  note v = hex_digit_value [OF lt]
  have n: "unat n = 16 * (16 * (16 * unat (d 12) + unat (d 8)) + unat (d 4)) + unat (d 0)"
    using four_hex_digits [of n] by (simp only: dv [OF insertI1] dv [OF insertI2 [OF insertI1]]
      dv [OF insertI2 [OF insertI2 [OF insertI1]]] dv [OF insertI2 [OF insertI2 [OF insertI2 [OF insertI1]]]])
  define ds where "ds = map (\<lambda>i. hex_digit (d i))
    (if 0 < d 12 then [12, 8, 4, 0] else if 0 < d 8 then [8, 4, 0] else if 0 < d 4 then [4, 0] else [0])"
  have "kputh n t = t\<lparr>tty_data := tty_data t @ ds\<rparr>"
    by (simp add: kputh_def Let_def d_def ds_def kputchar_def tty_putchar_def)
  moreover have z: "\<not> 0 < d i \<Longrightarrow> unat (d i) = 0" for i by (simp add: word_less_nat_alt)
  have "hex_parse ds = unat n"
    using v z [of 12] z [of 8] z [of 4] by (auto simp: ds_def hex_parse_def n)
  moreover have "hd ds = 0x30 \<longrightarrow> n = 0 \<and> ds = [0x30]"
  proof
    assume h: "hd ds = 0x30"
    have nz: "hex_digit (d i) \<noteq> 0x30" if "0 < d i" "i \<in> {0, 4, 8, 12}" for i
      using hex_digit_zero [OF lt [OF that(2)]] that(1) by auto
    have hi: "\<not> 0 < d 12" "\<not> 0 < d 8" "\<not> 0 < d 4"
      using h nz [of 12] nz [of 8] nz [of 4] by (auto simp: ds_def split: if_splits)
    moreover have "d 0 = 0" using h hi hex_digit_zero [OF lt [of 0]] by (simp add: ds_def)
    ultimately show "n = 0 \<and> ds = [0x30]"
      using n z [of 12] z [of 8] z [of 4] by (simp add: ds_def hex_digit_def unat_eq_0)
  qed
  ultimately show ?thesis by (auto simp: ds_def)
qed

theorem kputh_prints_hex_witness: "\<exists>ds. kputh 0x1A demo_tty = demo_tty\<lparr>tty_data := tty_data demo_tty @ ds\<rparr> \<and> hex_parse ds = 26"
  using kputh_prints_hex [of 26 demo_tty] by auto

section \<open>Reading a line\<close>

text \<open>What the loop does with a character: a backspace takes back the last character of the line, but
  on an empty line it is stored like any other character.\<close>

definition edit_char :: "u8 list \<Rightarrow> u8 \<Rightarrow> u8 list" where
  "edit_char cs c = (if (c = 0x08 \<or> c = 0x7F) \<and> cs \<noteq> [] then butlast cs else cs @ [c])"

text \<open>The specification of line editing: an erase key takes back the last character.\<close>

definition is_erase :: "u8 \<Rightarrow> bool" where
  "is_erase c \<longleftrightarrow> c = 0x08 \<or> c = 0x7F"

definition edited_line :: "u8 list \<Rightarrow> u8 list" where
  "edited_line cs = foldl (\<lambda>l c. if is_erase c then butlast l else l @ [c]) [] cs"

text \<open>Every erase key has a character to take back.\<close>

definition erases_within :: "u8 list \<Rightarrow> bool" where
  "erases_within cs \<longleftrightarrow> (\<forall>k<length cs. is_erase (cs ! k) \<longrightarrow> edited_line (take k cs) \<noteq> [])"

definition is_newline :: "u8 \<Rightarrow> bool" where
  "is_newline c \<longleftrightarrow> c = 0x0D \<or> c = 0x0A"

lemma kgets_loop_edit:
  assumes "take i s = line" and "i = length line" and "\<forall>c\<in>set cs. \<not> is_newline c"
    and "\<And>k. k \<le> length cs \<Longrightarrow> length (foldl edit_char line (take k cs)) < len" and "len \<le> length s" and "is_newline nl"
  shows "\<exists>s' t'. kgets_loop len i s (cs @ nl # rest) t = Line (length (foldl edit_char line cs)) s' rest t' \<and>
    take (length (foldl edit_char line cs)) s' = foldl edit_char line cs \<and>
    s' ! length (foldl edit_char line cs) = 0 \<and> length s' = length s"
  using assms
proof (induction cs arbitrary: i s line t)
  case Nil
  then have "i < len" "i < length s" using Nil(4) [of 0] by simp_all
  then show ?case using Nil by (auto simp: is_newline_def kgets_end_def Let_def)
next
  case (Cons c cs)
  have i: "i < len" "i < length s" using Cons(3,5,6) Cons(5) [of 0] by simp_all
  have nl: "\<not> (c = 0x0D \<or> c = 0x0A)" using Cons(4) by (simp add: is_newline_def)
  have more: "length (foldl edit_char (edit_char line c) (take k cs)) < len" if "k \<le> length cs" for k
    using Cons(5) [of "Suc k"] that by simp
  show ?case
  proof (cases "(c = 0x08 \<or> c = 0x7F) \<and> 0 < i")
    case True
    then have e: "edit_char line c = butlast line" using Cons(3) by (auto simp: edit_char_def)
    have "take (i - 1) (s[i := c, i := 0]) = butlast line"
      using Cons(2,3) True i butlast_take [of i s] by simp
    moreover have "i - 1 = length (butlast line)" using Cons(3) by simp
    ultimately show ?thesis
      using Cons(1) [of "i - 1" "s[i := c, i := 0]" "butlast line" "kputs_str [0x08, 0x20, 0x08] (tty_putchar c t)"]
        Cons(4,6,7) more True i nl e by (simp add: Let_def)
  next
    case False
    then have e: "edit_char line c = line @ [c]" using Cons(3) by (auto simp: edit_char_def)
    have "take (i + 1) (s[i := c]) = line @ [c]" using Cons(2) i by (simp add: take_Suc_conv_app_nth)
    then have "\<exists>s' t'. kgets_loop len (i + 1) (s[i := c]) (cs @ nl # rest) (tty_putchar c t) =
        Line (length (foldl edit_char (line @ [c]) cs)) s' rest t' \<and>
        take (length (foldl edit_char (line @ [c]) cs)) s' = foldl edit_char (line @ [c]) cs \<and>
        s' ! length (foldl edit_char (line @ [c]) cs) = 0 \<and> length s' = length (s[i := c])"
      using Cons(3,4,6,7) more e by (intro Cons(1)) simp_all
    moreover have "kgets_loop len i s (c # cs @ nl # rest) t = kgets_loop len (i + 1) (s[i := c]) (cs @ nl # rest) (tty_putchar c t)"
      using False i nl by (auto simp: Let_def)
    ultimately show ?thesis using e by simp
  qed
qed

lemma edit_edited:
  assumes "erases_within cs" and "k \<le> length cs"
  shows "foldl edit_char [] (take k cs) = edited_line (take k cs)"
  using assms(2)
proof (induction k)
  case (Suc k)
  then have "k < length cs" and IH: "foldl edit_char [] (take k cs) = edited_line (take k cs)" by simp_all
  then have "edit_char (edited_line (take k cs)) (cs ! k) = edited_line (take (Suc k) cs)"
    using assms(1) by (auto simp: erases_within_def edit_char_def is_erase_def edited_line_def take_Suc_conv_app_nth)
  then show ?case using IH \<open>k < length cs\<close> by (simp add: take_Suc_conv_app_nth)
qed (simp add: edited_line_def)

text \<open>
  C38: reading a line. When every backspace or delete typed has a character to take back, and the
  edited line never reaches the given length, \<^verbatim>\<open>kgetslen\<close> stores the edited line, ends it with
  a zero byte, returns its length and leaves the characters after the newline. A backspace or
  delete typed on an empty line is not ignored: it is stored as the first character of the line.
\<close>

theorem kgetslen_reads_line:
  assumes "\<forall>c\<in>set cs. \<not> is_newline c" and "is_newline nl" and "erases_within cs"
    and "\<And>k. k \<le> length cs \<Longrightarrow> int (length (edited_line (take k cs))) < sint len" and "sint len \<le> int (length s)"
  shows "(\<exists>s' t'. kgetslen s len (cs @ nl # rest) t = Line (length (edited_line cs)) s' rest t' \<and>
      take (length (edited_line cs)) s' = edited_line cs \<and> s' ! length (edited_line cs) = 0) \<and>
    (is_erase c \<longrightarrow> 1 < sint len \<longrightarrow> (\<exists>s' t'. kgetslen s len (c # nl # rest) t = Line 1 s' rest t' \<and> s' ! 0 = c))"
proof -
  have le: "nat (sint len) \<le> length s" using assms(5) by simp
  have "length (foldl edit_char [] (take k cs)) < nat (sint len)" if "k \<le> length cs" for k
    using assms(4) [OF that] edit_edited [OF assms(3) that] by simp
  then have line: "\<exists>s' t'. kgetslen s len (cs @ nl # rest) t = Line (length (edited_line cs)) s' rest t' \<and>
      take (length (edited_line cs)) s' = edited_line cs \<and> s' ! length (edited_line cs) = 0"
    using kgets_loop_edit [of 0 s "[]" cs "nat (sint len)" nl rest t] assms(1,2) le edit_edited [OF assms(3) order_refl]
    by (auto simp: kgetslen_def)
  have "\<exists>s' t'. kgetslen s len (c # nl # rest) t = Line 1 s' rest t' \<and> s' ! 0 = c" if "is_erase c" "1 < sint len"
  proof -
    have e: "\<forall>c\<in>set [c]. \<not> is_newline c" using that(1) by (auto simp: is_erase_def is_newline_def)
    have "length (foldl edit_char [] (take k [c])) < nat (sint len)" for k
      using that(2) by (cases k) (simp_all add: edit_char_def)
    then obtain s' t' where "kgets_loop (nat (sint len)) 0 s (c # nl # rest) t = Line 1 s' rest t'" "take 1 s' = [c]"
      using kgets_loop_edit [of 0 s "[]" "[c]" "nat (sint len)" nl rest t] e assms(2) le by (auto simp: edit_char_def)
    then show ?thesis by (cases s') (auto simp: kgetslen_def)
  qed
  with line show ?thesis by blast
qed

theorem kgetslen_reads_line_witness:
  "(\<exists>s' t'. kgetslen (replicate 8 0xFF) 8 [0x41, 0x42, 0x08, 0x43, 0x0D] demo_tty = Line 2 s' [] t' \<and> take 2 s' = [0x41, 0x43]) \<and>
   (\<exists>s' t'. kgetslen (replicate 8 0xFF) 8 [0x08, 0x0D] demo_tty = Line 1 s' [] t' \<and> s' ! 0 = 0x08)"
proof -
  let ?cs = "[0x41, 0x42, 0x08, 0x43] :: u8 list"
  have e: "edited_line ?cs = [0x41, 0x43]" by (simp add: edited_line_def is_erase_def)
  then have l2: "length (edited_line ?cs) = 2" by simp
  have "int (length (edited_line (take k ?cs))) < sint (8 :: u16)" if "k \<le> 4" for k
  proof -
    have "k = 0 \<or> k = 1 \<or> k = 2 \<or> k = 3 \<or> k = 4" using that by linarith
    then show ?thesis by (auto simp: edited_line_def is_erase_def)
  qed
  then have k: "\<And>k. k \<le> length ?cs \<Longrightarrow> int (length (edited_line (take k ?cs))) < sint (8 :: u16)"
    by simp
  have "erases_within ?cs" unfolding erases_within_def
  proof (intro allI impI)
    fix k assume "k < length ?cs" and er: "is_erase (?cs ! k)"
    then have "k = 0 \<or> k = 1 \<or> k = 2 \<or> k = 3" by auto
    then show "edited_line (take k ?cs) \<noteq> []" using er by (auto simp: edited_line_def is_erase_def)
  qed
  from kgetslen_reads_line [OF _ _ this k, of "0x0D" "replicate 8 0xFF" "[]" demo_tty "0x08"]
  show ?thesis unfolding l2 unfolding e by (auto simp: is_newline_def is_erase_def)
qed

text \<open>Never outside a buffer that has room for the terminator; one byte less is not enough.\<close>

lemma kgets_loop_bounds: "i \<le> len \<Longrightarrow> len < length s \<Longrightarrow> kgets_loop len i s inp t \<noteq> Overrun"
proof (induction inp arbitrary: i s t)
  case Nil
  then show ?case by (simp add: kgets_end_def)
next
  case (Cons c inp)
  then show ?case by (auto simp: kgets_end_def Let_def)
qed

lemma kgets_loop_fill:
  "i + length inp = len \<Longrightarrow> length s = len \<Longrightarrow> \<forall>c\<in>set inp. \<not> is_newline c \<and> c \<noteq> 0x08 \<and> c \<noteq> 0x7F \<Longrightarrow>
   kgets_loop len i s (inp @ rest) t = Overrun"
proof (induction inp arbitrary: i s t)
  case Nil
  then show ?case by (cases rest) (simp_all add: kgets_end_def)
next
  case (Cons c inp)
  then show ?case by (simp add: Let_def is_newline_def)
qed

text \<open>
  C39: \<^verbatim>\<open>kgetslen\<close> stays inside a buffer of \<open>len + 1\<close> bytes on every input, and \<open>len + 1\<close> bytes are
  needed: on a buffer of exactly \<open>len\<close> bytes a line of \<open>len\<close> characters writes the terminator
  behind the end.
\<close>

theorem kgetslen_bounds:
  "(sint len < int (length s) \<longrightarrow> 0 \<le> sint len \<longrightarrow> kgetslen s len inp t \<noteq> Overrun) \<and>
   (sint len = int (length s) \<longrightarrow> kgetslen s len (replicate (length s) 0x41) t = Overrun)"
  using kgets_loop_bounds [of 0 "nat (sint len)" s inp t]
    kgets_loop_fill [of 0 "replicate (length s) 0x41" "length s" s "[]" t]
  by (auto simp: kgetslen_def is_newline_def)

theorem kgetslen_bounds_witness:
  "kgetslen (replicate 8 0) 8 (replicate 8 0x41) demo_tty = Overrun"
  using kgetslen_bounds [of 8 "replicate 8 0" "[]" demo_tty] by simp

end
