(* ===== verification/Mfs.thy ===== *)
theory Mfs
  imports Mfs_Types
begin

text \<open>
  The kernel's file system (\<^verbatim>\<open>fs/mfs.c\<close>) and file descriptor table (\<^verbatim>\<open>fs/fd.c\<close>).
  Operations pass the kernel state explicitly and return an option: \<open>None\<close> is an access outside
  a buffer, a null dereference or the use of an uninitialised variable, which the C code does not
  guard against. An \<^verbatim>\<open>int\<close> result is a 16-bit word, as on the Z80, so \<open>-1\<close> is 0xFFFF.
  A pointer into \<^verbatim>\<open>files\<close> is an index, a pointer to a descriptor is its number. The console
  messages are not modelled. After \<open>mfs_init\<close> the image stays attached, and with an image
  attached \<^verbatim>\<open>disk_read\<close> and \<^verbatim>\<open>disk_write\<close> return status 0.
\<close>

section \<open>State\<close>

record fd_entry =
  e_type :: u8
  e_flags :: u8
  e_pos :: u16
  e_cur_block :: u16
  e_prev_block :: u16
  e_block_offset :: u16
  e_file :: "nat option"

record kstate =
  kdisk :: "u8 list"
  root :: MFS_root
  root_rest :: "u8 list"
  block_bitmap :: "u8 list"
  files :: "file_t list"
  files_rest :: "u8 list"
  tempbuf :: "u8 list"
  fd_table :: "nat \<Rightarrow> fd_entry"
  fd_count :: u16

definition FD_MAX :: nat where "FD_MAX = 8"
definition FD_TYPE_NONE :: u8 where "FD_TYPE_NONE = 0"
definition FD_TYPE_STDIN :: u8 where "FD_TYPE_STDIN = 1"
definition FD_TYPE_STDOUT :: u8 where "FD_TYPE_STDOUT = 2"
definition FD_TYPE_STDERR :: u8 where "FD_TYPE_STDERR = 3"
definition FD_TYPE_FILE :: u8 where "FD_TYPE_FILE = 4"
definition FD_FLAGS_READ :: u8 where "FD_FLAGS_READ = 1"
definition FD_FLAGS_WRITE :: u8 where "FD_FLAGS_WRITE = 2"

definition O_RDONLY :: u16 where "O_RDONLY = 0x00"
definition O_WRONLY :: u16 where "O_WRONLY = 0x01"
definition O_RDWR :: u16 where "O_RDWR = 0x02"
definition O_ACCMODE :: u16 where "O_ACCMODE = 0x03"
definition O_APPEND :: u16 where "O_APPEND = 0x08"
definition O_CREAT :: u16 where "O_CREAT = 0x200"
definition O_TRUNC :: u16 where "O_TRUNC = 0x400"

definition SEEK_SET :: u16 where "SEEK_SET = 1"
definition SEEK_CUR :: u16 where "SEEK_CUR = 2"
definition SEEK_END :: u16 where "SEEK_END = 3"

definition zero_entry :: fd_entry where
  "zero_entry = \<lparr>e_type = 0, e_flags = 0, e_pos = 0, e_cur_block = 0, e_prev_block = 0,
     e_block_offset = 0, e_file = None\<rparr>"

definition zero_file :: file_t where
  "zero_file = \<lparr>f_used = 0, f_flags = 0, f_id = 0, f_name = replicate 12 0, f_size = 0,
     f_block_size = 0, f_block = 0\<rparr>"

section \<open>Names\<close>

text \<open>\<^verbatim>\<open>strncmp(a, b, n) == 0\<close> on the bytes the two pointers see.\<close>

fun strncmp_eq :: "nat \<Rightarrow> u8 list \<Rightarrow> u8 list \<Rightarrow> bool" where
  "strncmp_eq 0 _ _ = True"
| "strncmp_eq (Suc n) (x # xs) (y # ys) = (x = y \<and> (x = 0 \<or> strncmp_eq n xs ys))"
| "strncmp_eq (Suc n) _ _ = False"

text \<open>A C string argument is the list of its bytes before the terminator.\<close>

definition same_name :: "u8 list \<Rightarrow> file_t \<Rightarrow> bool" where
  "same_name fname f = strncmp_eq MAX_FNAME_LEN (fname @ [0]) (f_name f)"

text \<open>\<^verbatim>\<open>strncpy(dst, src, n)\<close>: the bytes of the array \<open>dst\<close> afterwards.\<close>

definition strncpy :: "u8 list \<Rightarrow> u8 list \<Rightarrow> nat \<Rightarrow> u8 list" where
  "strncpy dst src n = take n (src @ replicate n 0) @ drop n dst"

section \<open>Root, allocation and lookup\<close>

definition root_buf :: "kstate \<Rightarrow> u8 list" where
  "root_buf s = encode_root (root s) @ root_rest s"

definition files_buf :: "kstate \<Rightarrow> u8 list" where
  "files_buf s = encode_files (files s) @ files_rest s"

definition mfs_init :: "u8 list option \<Rightarrow> kstate \<Rightarrow> u16 \<times> kstate" where
  "mfs_init drive s =
     (case drive of None \<Rightarrow> (-1, s)
      | Some img \<Rightarrow>
        let rb = disk_read img 0 (root_buf s);
            s1 = s\<lparr>kdisk := img, root := decode_root rb, root_rest := drop 16 rb\<rparr>
        in if checksum (root s1) \<noteq> CHECKSUM then (-1, s1)
           else
             let s2 = s1\<lparr>block_bitmap := disk_read img (bitmap_sector (root s1)) (block_bitmap s1)\<rparr>;
                 fb = disk_read img (fentry_sector (root s2)) (files_buf s2);
                 s3 = s2\<lparr>files := decode_files FENTRY_COUNT fb, files_rest := drop (FENTRY_COUNT * FENTRY_SIZE) fb\<rparr>
             in (0, s3))"

definition write_changes :: "kstate \<Rightarrow> kstate" where
  "write_changes s =
     s\<lparr>kdisk := disk_write (disk_write (disk_write (kdisk s) 0 (root_buf s))
         (bitmap_sector (root s)) (block_bitmap s)) (fentry_sector (root s)) (files_buf s)\<rparr>"

function alloc_loop :: "u16 \<Rightarrow> u16 \<Rightarrow> u8 list \<Rightarrow> (u16 \<times> u8 list) option" where
  "alloc_loop block n bm =
     (if block < n then
        do { used \<leftarrow> bitmap_get bm block;
             if \<not> used then do { bm' \<leftarrow> bitmap_set bm block; Some (block, bm') }
             else alloc_loop (block + 1) n bm }
      else Some (0, bm))"
  by pat_completeness auto
termination
  by (relation "measure (\<lambda>(block, n, bm). unat n - unat block)")
    (auto simp: unat_suc_below word_less_nat_alt intro!: diff_less_mono2)

declare alloc_loop.simps [simp del]

definition alloc_block :: "kstate \<Rightarrow> (u16 \<times> kstate) option" where
  "alloc_block s = do {
     (block, bm) \<leftarrow> alloc_loop (data_start_sector (root s)) (total_sectors (root s)) (block_bitmap s);
     Some (block, s\<lparr>block_bitmap := bm\<rparr>)
   }"

text \<open>The three loops over the first \<open>filecount\<close> entries.\<close>

fun find_loop :: "u8 list \<Rightarrow> file_t list \<Rightarrow> nat \<Rightarrow> nat \<Rightarrow> nat option option" where
  "find_loop fname fs i 0 = Some None"
| "find_loop fname fs i (Suc n) =
     (if i < length fs then
        if same_name fname (fs ! i) then Some (Some i) else find_loop fname fs (Suc i) n
      else None)"

definition find_file :: "u8 list \<Rightarrow> kstate \<Rightarrow> nat option option" where
  "find_file fname s = find_loop fname (files s) 0 (unat (filecount (root s)))"

fun block_loop :: "u8 list \<Rightarrow> file_t list \<Rightarrow> nat \<Rightarrow> nat \<Rightarrow> u16 option" where
  "block_loop fname fs i 0 = Some 0"
| "block_loop fname fs i (Suc n) =
     (if i < length fs then
        if same_name fname (fs ! i) then Some (f_block (fs ! i)) else block_loop fname fs (Suc i) n
      else None)"

definition get_file_block :: "u8 list \<Rightarrow> kstate \<Rightarrow> u16 option" where
  "get_file_block fname s = block_loop fname (files s) 0 (unat (filecount (root s)))"

fun index_loop :: "u8 list \<Rightarrow> file_t list \<Rightarrow> nat \<Rightarrow> nat \<Rightarrow> u8 option" where
  "index_loop fname fs i 0 = Some 0xFF"
| "index_loop fname fs i (Suc n) =
     (if i < length fs then
        if same_name fname (fs ! i) then Some (of_nat i) else index_loop fname fs (Suc i) n
      else None)"

definition get_file_index :: "u8 list \<Rightarrow> kstate \<Rightarrow> u8 option" where
  "get_file_index fname s = index_loop fname (files s) 0 (unat (filecount (root s)))"

definition get_file_size :: "u8 list \<Rightarrow> kstate \<Rightarrow> u16 option" where
  "get_file_size fname s = do {
     t \<leftarrow> find_file fname s;
     Some (case t of None \<Rightarrow> -1 | Some i \<Rightarrow> f_size (files s ! i))
   }"

definition mfs_filesize :: "u8 list \<Rightarrow> kstate \<Rightarrow> u16 option" where
  "mfs_filesize fname s = do {
     t \<leftarrow> find_file fname s;
     Some (case t of None \<Rightarrow> -1 | Some i \<Rightarrow> f_size (files s ! i))
   }"

section \<open>File descriptors\<close>

definition fd_init :: "kstate \<Rightarrow> u16 \<times> kstate" where
  "fd_init s =
     (0, s\<lparr>fd_table := (\<lambda>_. zero_entry)
             (0 := zero_entry\<lparr>e_type := FD_TYPE_STDIN, e_flags := FD_FLAGS_READ\<rparr>,
              1 := zero_entry\<lparr>e_type := FD_TYPE_STDOUT, e_flags := FD_FLAGS_WRITE\<rparr>,
              2 := zero_entry\<lparr>e_type := FD_TYPE_STDERR, e_flags := FD_FLAGS_WRITE\<rparr>),
           fd_count := 3\<rparr>)"

text \<open>A descriptor pointer, \<open>None\<close> for \<^verbatim>\<open>NULL\<close>.\<close>

definition fd_get :: "int \<Rightarrow> nat option" where
  "fd_get fd = (if fd < 0 \<or> int FD_MAX \<le> fd then None else if fd = -1 then None else Some (nat fd))"

fun fd_scan :: "(nat \<Rightarrow> fd_entry) \<Rightarrow> nat \<Rightarrow> nat \<Rightarrow> int" where
  "fd_scan t i 0 = -1"
| "fd_scan t i (Suc n) = (if e_type (t i) = FD_TYPE_NONE then int i else fd_scan t (Suc i) n)"

definition fd_alloc :: "kstate \<Rightarrow> int" where
  "fd_alloc s = fd_scan (fd_table s) 3 (FD_MAX - 3)"

definition fd_create :: "fd_entry \<Rightarrow> kstate \<Rightarrow> int \<times> kstate" where
  "fd_create entry s =
     (let fd = fd_alloc s in
      if fd = -1 then (-1, s)
      else (fd, s\<lparr>fd_table := (fd_table s)(nat fd := entry), fd_count := fd_count s + 1\<rparr>))"

text \<open>
  \<^verbatim>\<open>fd_close\<close> and \<^verbatim>\<open>mfs_close\<close> call each other; the null file pointer set by
  \<^verbatim>\<open>mfs_close\<close> ends the recursion.
\<close>

function fd_close :: "int \<Rightarrow> kstate \<Rightarrow> int \<times> kstate"
  and mfs_close :: "int \<Rightarrow> kstate \<Rightarrow> int \<times> kstate" where
  "fd_close fd s =
     (if fd < 3 \<or> int FD_MAX \<le> fd then (1, s)
      else
        let e = fd_table s (nat fd);
            s1 = (if e_type e = FD_TYPE_FILE \<and> e_file e \<noteq> None then snd (mfs_close fd s) else s)
        in (0, s1\<lparr>fd_table := (fd_table s1)(nat fd := zero_entry), fd_count := fd_count s1 - 1\<rparr>))"
| "mfs_close fd s =
     (case fd_get fd of None \<Rightarrow> (-1, s)
      | Some k \<Rightarrow>
        let e = fd_table s k;
            s1 = (if e_type e = FD_TYPE_FILE then write_changes s else s);
            s2 = s1\<lparr>fd_table := (fd_table s1)(k := (fd_table s1 k)\<lparr>e_file := None\<rparr>)\<rparr>
        in fd_close fd s2)"
  by pat_completeness auto
termination
  by (relation "measure (\<lambda>x. case x of
      Inl (fd, s) \<Rightarrow> if e_file (fd_table s (nat fd)) = None then 0 else 2 | Inr (fd, s) \<Rightarrow> 1)")
    (auto simp: fd_get_def split: if_splits)

declare fd_close.simps [simp del] mfs_close.simps [simp del]

section \<open>Opening\<close>

fun free_slot :: "file_t list \<Rightarrow> nat \<Rightarrow> nat \<Rightarrow> nat option option" where
  "free_slot fs i 0 = Some None"
| "free_slot fs i (Suc n) =
     (if i < length fs then if f_used (fs ! i) = 0 then Some (Some i) else free_slot fs (Suc i) n
      else None)"

definition fresh_block :: "u8 list" where
  "fresh_block = (replicate BLOCK_SIZE 0)[0 := 1]"

text \<open>The creating branch of \<^verbatim>\<open>mfs_open\<close>; the inner \<open>None\<close> is its \<^verbatim>\<open>return -1\<close>.\<close>

definition create_file :: "u8 list \<Rightarrow> u16 \<Rightarrow> kstate \<Rightarrow> (nat option \<times> kstate) option" where
  "create_file fname flags s = do {
     (block, s1) \<leftarrow> alloc_block s;
     if block = 0 \<or> unat (max_files (root s1)) \<le> unat (filecount (root s1)) then Some (None, s1)
     else do {
       slot \<leftarrow> free_slot (files s1) 0 (unat (max_files (root s1)));
       case slot of None \<Rightarrow> Some (None, s1)
       | Some index \<Rightarrow>
           let f = (files s1 ! index)
                 \<lparr>f_name := strncpy (f_name (files s1 ! index)) fname (MAX_FNAME_LEN - 1),
                  f_used := 1, f_flags := ucast (flags AND NOT O_CREAT), f_size := 0,
                  f_block_size := 0, f_block := block\<rparr>;
               s2 = s1\<lparr>files := (files s1)[index := f], tempbuf := fresh_block,
                       kdisk := disk_write (kdisk s1) block fresh_block,
                       root := (root s1)\<lparr>filecount := filecount (root s1) + 1\<rparr>\<rparr>
           in Some (Some index, write_changes s2)
     }
   }"

text \<open>
  The descriptor for an opened file. \<open>stack\<close> is the value the uninitialised
  \<^verbatim>\<open>entry.pos\<close> happens to have; it survives only for access mode 3.
\<close>

definition open_entry :: "u16 \<Rightarrow> nat \<Rightarrow> u16 \<Rightarrow> kstate \<Rightarrow> fd_entry" where
  "open_entry stack i flags s =
     (let acc = flags AND O_ACCMODE; f = files s ! i;
          wpos = (if flags AND O_APPEND \<noteq> 0 then f_size f else 0)
      in \<lparr>e_type = FD_TYPE_FILE,
          e_flags = (if acc = O_RDONLY then FD_FLAGS_READ
                     else if acc = O_WRONLY then FD_FLAGS_WRITE
                     else if acc = O_RDWR then FD_FLAGS_READ OR FD_FLAGS_WRITE else 0),
          e_pos = (if acc = O_RDONLY then 0
                   else if acc = O_WRONLY \<or> acc = O_RDWR then wpos else stack),
          e_cur_block = f_block f, e_prev_block = 0, e_block_offset = 0, e_file = Some i\<rparr>)"

definition mfs_open :: "u16 \<Rightarrow> u8 list \<Rightarrow> u16 \<Rightarrow> kstate \<Rightarrow> (int \<times> kstate) option" where
  "mfs_open stack fname flags s = do {
     found \<leftarrow> find_file fname s;
     (current, s1) \<leftarrow>
       (if found = None \<and> flags AND O_CREAT \<noteq> 0 then create_file fname flags s else Some (found, s));
     Some (case current of None \<Rightarrow> (-1, s1)
           | Some i \<Rightarrow> fd_create (open_entry stack i flags s1) s1)
   }"

section \<open>Reading\<close>

definition data_size :: u16 where "data_size = of_nat BLOCK_DATA"

lemma copy_progress:
  fixes rem off left :: u16
  defines "av \<equiv> data_size - off"
  defines "t1 \<equiv> (if rem < av then rem else av)"
  defines "t \<equiv> (if left < t1 then left else t1)"
  assumes "0 < rem" and "left \<noteq> 0" and "off2 = (if data_size \<le> off + t then 0 else off + t)"
  shows "2 * unat (rem - t) + (if off2 = data_size then 1 else 0) < 2 * unat rem + (if off = data_size then 1 else 0)"
proof -
  have "data_size \<noteq> 0" by (simp add: data_size_def mfs_consts)
  then have o: "off2 \<noteq> data_size" using assms(6) by (auto split: if_splits)
  have "t \<le> rem" unfolding t_def t1_def by auto
  then have u: "unat (rem - t) = unat rem - unat t" by (simp add: unat_sub word_le_nat_alt)
  show ?thesis
  proof (cases "t = 0")
    case True
    then have "av = 0" using assms(4,5) unfolding t_def t1_def by (auto split: if_splits)
    then show ?thesis using o True by (simp add: av_def)
  next
    case False
    then have "0 < unat t" "0 < unat rem" using assms(4) by (simp_all add: unat_gt_0)
    then have "2 * (unat rem - unat t) < 2 * unat rem" by simp
    then show ?thesis using o u by simp
  qed
qed

function read_loop :: "u8 list \<Rightarrow> u16 \<Rightarrow> u16 \<Rightarrow> u16 \<Rightarrow> fd_entry \<Rightarrow> u8 list \<Rightarrow> u8 list
    \<Rightarrow> (fd_entry \<times> u8 list \<times> u8 list) option" where
  "read_loop d n sz remaining e tb out =
     (if 0 < remaining \<and> e_cur_block e \<noteq> 0 \<and> e_cur_block e < n \<and> e_pos e < sz then
        let tb1 = disk_read d (e_cur_block e) tb;
            available = data_size - e_block_offset e;
            to_read1 = (if remaining < available then remaining else available);
            bytes_left = sz - e_pos e;
            to_read = (if bytes_left < to_read1 then bytes_left else to_read1);
            from = 4 + unat (e_block_offset e)
        in if BLOCK_SIZE < from + unat to_read then None
           else
             let e1 = e\<lparr>e_pos := e_pos e + to_read, e_block_offset := e_block_offset e + to_read\<rparr>;
                 e2 = (if data_size \<le> e_block_offset e1
                       then e1\<lparr>e_block_offset := 0, e_cur_block := get16 tb1 1\<rparr> else e1)
             in read_loop d n sz (remaining - to_read) e2 tb1
                  (out @ take (unat to_read) (drop from tb1))
      else Some (e, tb, out))"
  by pat_completeness auto

termination
  by (relation "measure (\<lambda>(d, n, sz, remaining, e, tb, out).
      2 * unat remaining + (if e_block_offset e = data_size then 1 else 0))")
    (simp, simp only: in_measure prod.case, rule copy_progress, auto)

declare read_loop.simps [simp del]

text \<open>\<^verbatim>\<open>mfs_read\<close> returns its result and the bytes it stored in the caller's buffer.\<close>

definition mfs_read :: "int \<Rightarrow> u16 \<Rightarrow> kstate \<Rightarrow> (u16 \<times> u8 list \<times> kstate) option" where
  "mfs_read fd count s =
     (case fd_get fd of None \<Rightarrow> Some (-1, [], s)
      | Some k \<Rightarrow>
        let e = fd_table s k in
        if e_flags e AND FD_FLAGS_READ = 0 \<or> e_type e \<noteq> FD_TYPE_FILE then Some (-1, [], s)
        else do {
          i \<leftarrow> e_file e;
          if f_size (files s ! i) \<le> e_pos e then Some (0, [], s)
          else do {
            (e', tb, out) \<leftarrow> read_loop (kdisk s) (total_sectors (root s)) (f_size (files s ! i)) count e (tempbuf s) [];
            Some (of_nat (length out), out, s\<lparr>fd_table := (fd_table s)(k := e'), tempbuf := tb\<rparr>)
          }
        })"

section \<open>Writing\<close>

text \<open>
  The allocation at the head of the write loop; the inner \<open>None\<close> is "out of space". The local
  buffer \<^verbatim>\<open>temp\<close> is filled by reading the previous block, which must exist.
\<close>

definition extend_chain :: "nat \<Rightarrow> fd_entry \<Rightarrow> kstate \<Rightarrow> (fd_entry option \<times> kstate) option" where
  "extend_chain i e s =
     (if e_cur_block e = 0 \<or> total_sectors (root s) \<le> e_cur_block e then do {
        (block, s1) \<leftarrow> alloc_block s;
        if block = 0 then Some (None, s1)
        else
          let s2 = s1\<lparr>tempbuf := fresh_block, kdisk := disk_write (kdisk s1) block fresh_block\<rparr>;
              e2 = e\<lparr>e_cur_block := block, e_block_offset := 0\<rparr>
          in if e_prev_block e \<noteq> 0 then
               if has_sector (kdisk s2) (e_prev_block e) then
                 Some (Some e2, s2\<lparr>kdisk := disk_write (kdisk s2) (e_prev_block e)
                         (put16 (sector (kdisk s2) (e_prev_block e)) 1 block)\<rparr>)
               else None
             else Some (Some e2, s2\<lparr>files := (files s2)[i := (files s2 ! i)\<lparr>f_block := block\<rparr>]\<rparr>)
      }
      else Some (Some e, s))"

text \<open>
  One round of the loop after the allocation: the entry and state afterwards and the number of
  bytes written. \<open>data\<close> is what is left of the caller's buffer.
\<close>

definition write_block :: "u8 list \<Rightarrow> nat \<Rightarrow> u16 \<Rightarrow> fd_entry \<Rightarrow> kstate \<Rightarrow> (u16 \<times> fd_entry \<times> kstate) option" where
  "write_block data i remaining e s =
     (let tb = disk_read (kdisk s) (e_cur_block e) (tempbuf s);
          space_left = data_size - e_block_offset e;
          to_write = (if remaining < space_left then remaining else space_left);
          from = 4 + unat (e_block_offset e)
      in if BLOCK_SIZE < from + unat to_write \<or> length data < unat to_write then None
         else
           let tb1 = patch from (take (unat to_write) data) tb;
               e1 = e\<lparr>e_pos := e_pos e + to_write, e_block_offset := e_block_offset e + to_write\<rparr>;
               s1 = s\<lparr>tempbuf := tb1, kdisk := disk_write (kdisk s) (e_cur_block e) tb1\<rparr>;
               s2 = (if f_size (files s1 ! i) < e_pos e1
                     then s1\<lparr>files := (files s1)[i := (files s1 ! i)\<lparr>f_size := e_pos e1\<rparr>]\<rparr> else s1);
               e2 = (if data_size \<le> e_block_offset e1
                     then e1\<lparr>e_prev_block := e_cur_block e1, e_cur_block := get16 tb1 1, e_block_offset := 0\<rparr>
                     else e1)
           in Some (to_write, e2, s2))"

lemma write_block_progress:
  assumes "write_block data i remaining e s = Some (w, e', s')" and "0 < remaining"
  shows "2 * unat (remaining - w) + (if e_block_offset e' = data_size then 1 else 0) <
    2 * unat remaining + (if e_block_offset e = data_size then 1 else 0)"
  using assms copy_progress [of remaining "- 1" "e_block_offset e'" "e_block_offset e"]
  by (auto simp: write_block_def Let_def split: if_splits)

lemma extend_chain_offset:
  "extend_chain i e s = Some (Some e', s') \<Longrightarrow> e_block_offset e' = e_block_offset e \<or> e_block_offset e' = 0"
  by (auto simp: extend_chain_def Let_def split: if_splits Option.bind_splits)

function write_loop :: "u8 list \<Rightarrow> nat \<Rightarrow> u16 \<Rightarrow> u16 \<Rightarrow> fd_entry \<Rightarrow> kstate \<Rightarrow> (u16 \<times> fd_entry \<times> kstate) option" where
  "write_loop data i remaining written e s =
     (if 0 < remaining then do {
        (me, s1) \<leftarrow> extend_chain i e s;
        case me of None \<Rightarrow> Some (-1, e, s1)
        | Some e1 \<Rightarrow> do {
            (w, e2, s2) \<leftarrow> write_block data i remaining e1 s1;
            write_loop (drop (unat w) data) i (remaining - w) (written + w) e2 s2
          }
      }
      else Some (written, e, s))"
  by pat_completeness auto
termination
proof (relation "measure (\<lambda>(data, i, remaining, written, e, s).
      2 * unat remaining + (if e_block_offset e = data_size then 1 else 0))", goal_cases)
  case (2 data i remaining written e s x me s1 e1 y w z e2 s2)
  then have "extend_chain i e s = Some (Some e1, s1)" "write_block data i remaining e1 s1 = Some (w, e2, s2)"
    by simp_all
  then show ?case
    using write_block_progress [of data i remaining e1 s1 w e2 s2] extend_chain_offset [of i e s e1 s1] 2
    by (auto simp: data_size_def mfs_consts split: if_splits)
qed simp

declare write_loop.simps [simp del]

definition mfs_write :: "int \<Rightarrow> u8 list \<Rightarrow> u16 \<Rightarrow> kstate \<Rightarrow> (u16 \<times> kstate) option" where
  "mfs_write fd buf count s =
     (case fd_get fd of None \<Rightarrow> Some (-1, s)
      | Some k \<Rightarrow>
        let e = fd_table s k in
        if e_flags e AND FD_FLAGS_WRITE = 0 \<or> e_type e \<noteq> FD_TYPE_FILE then Some (-1, s)
        else do {
          i \<leftarrow> e_file e;
          (r, e', s') \<leftarrow> write_loop buf i count 0 e s;
          Some (r, s'\<lparr>fd_table := (fd_table s')(k := e')\<rparr>)
        })"

definition mfs_sync :: "kstate \<Rightarrow> u16 \<times> kstate" where
  "mfs_sync s = (0, write_changes s)"

section \<open>Seeking, deleting, listing, loading\<close>

function seek_loop :: "u8 list \<Rightarrow> u16 \<Rightarrow> u16 \<Rightarrow> u16 \<Rightarrow> u8 list \<Rightarrow> u16 \<times> u16 \<times> u8 list" where
  "seek_loop d n offset block tb =
     (if data_size \<le> offset \<and> block \<noteq> 0 \<and> block < n then
        let tb1 = disk_read d block tb
        in seek_loop d n (offset - data_size) (get16 tb1 1) tb1
      else (offset, block, tb))"
  by pat_completeness auto
termination
  by (relation "measure (\<lambda>(d, n, offset, block, tb). unat offset)")
    (auto simp: data_size_def mfs_consts unat_sub word_le_nat_alt)

declare seek_loop.simps [simp del]

text \<open>With any other \<open>whence\<close> the C code uses an uninitialised offset.\<close>

definition mfs_seek :: "int \<Rightarrow> u16 \<Rightarrow> u16 \<Rightarrow> kstate \<Rightarrow> (u16 \<times> kstate) option" where
  "mfs_seek fd pos whence s =
     (case fd_get fd of None \<Rightarrow> Some (-1, s)
      | Some k \<Rightarrow>
        let e = fd_table s k in
        if e_type e \<noteq> FD_TYPE_FILE then Some (-1, s)
        else do {
          i \<leftarrow> e_file e;
          offset \<leftarrow> (if whence = SEEK_SET then Some pos
                    else if whence = SEEK_CUR then Some (e_pos e + pos)
                    else if whence = SEEK_END then Some (f_size (files s ! i) + pos)
                    else None);
          let (off, block, tb) = seek_loop (kdisk s) (total_sectors (root s)) offset (f_block (files s ! i)) (tempbuf s);
          Some (pos, s\<lparr>fd_table := (fd_table s)(k := e\<lparr>e_pos := pos, e_cur_block := block, e_block_offset := off\<rparr>),
                       tempbuf := tb\<rparr>)
        })"

definition zero_block :: "u8 list" where "zero_block = replicate BLOCK_SIZE 0"

text \<open>A sector whose next pointer may be other than 0.\<close>

definition live :: "u8 list \<Rightarrow> u16 \<Rightarrow> bool" where
  "live d b \<longleftrightarrow> \<not> (has_sector d b \<and> next_block (sector d b) = 0)"

lemma get16_zero_block: "get16 zero_block (Suc 0) = 0"
  by (simp add: get16_def zero_block_def mfs_consts mk16_def)

lemma length_zero_block: "length zero_block = BLOCK_SIZE"
  by (simp add: zero_block_def)

lemma live_after_zero: "live (disk_write d b zero_block) c \<Longrightarrow> c \<noteq> b \<and> live d c"
  using image.wr_ok_same [OF length_zero_block, of d b] image.rd_wr_same [OF length_zero_block, of d b]
    image.wr_ok [of d c zero_block b] image.rd_wr_other [of d c b zero_block] length_zero_block
  by (cases "c = b") (auto simp: live_def next_block_def get16_zero_block)

lemma dead_next: "\<not> live d b \<Longrightarrow> get16 (disk_read d b tb) 1 = 0"
  using image.length_rd [of d b]
  by (simp add: live_def next_block_def disk_read_def get16_def nth_append mfs_consts)

text \<open>Erasing the visited block makes progress on every disk, also when the chain is cyclic.\<close>

definition chain_measure :: "u16 \<Rightarrow> u8 list \<Rightarrow> nat" where
  "chain_measure b d = 2 * card {c. live d c} + (if b = 0 then 0 else 1)"

lemma erase_progress:
  assumes "b \<noteq> 0"
  shows "chain_measure (get16 (disk_read d b tb) 1) (disk_write d b zero_block) < chain_measure b d"
proof -
  have sub: "{c. live (disk_write d b zero_block) c} \<subseteq> {c. live d c} - {b}"
    using live_after_zero by blast
  have le: "card {c. live (disk_write d b zero_block) c} \<le> card ({c. live d c} - {b})"
    by (rule card_mono [OF _ sub]) simp
  show ?thesis
  proof (cases "live d b")
    case True
    then have "card ({c. live d c} - {b}) < card {c. live d c}" by (intro card_Diff1_less) auto
    then show ?thesis using le assms by (auto simp: chain_measure_def)
  next
    case False
    then have "card ({c. live d c} - {b}) = card {c. live d c}" by simp
    then show ?thesis using le dead_next [OF False, of tb] assms by (auto simp: chain_measure_def)
  qed
qed

text \<open>
  The loop of \<^verbatim>\<open>mfs_delete\<close>. It ends on every disk, also when the chain is cyclic: each visited
  block is erased, so a block met again ends the chain.
\<close>

function delete_loop :: "u16 \<Rightarrow> u16 \<Rightarrow> u8 list \<Rightarrow> u8 list \<Rightarrow> u8 list \<Rightarrow> (u8 list \<times> u8 list \<times> u8 list) option" where
  "delete_loop n b d bm tb =
     (if b \<noteq> 0 \<and> b < n then
        let tb1 = disk_read d b tb
        in do { bm1 \<leftarrow> bitmap_clear bm b;
                delete_loop n (get16 tb1 1) (disk_write d b zero_block) bm1 tb1 }
      else Some (d, bm, tb))"
  by pat_completeness auto
termination
  by (relation "measure (\<lambda>(n, b, d, bm, tb). chain_measure b d)") (auto simp: erase_progress [simplified])

declare delete_loop.simps [simp del]

definition mfs_delete :: "u8 list \<Rightarrow> kstate \<Rightarrow> (u16 \<times> kstate) option" where
  "mfs_delete fname s = do {
     t \<leftarrow> find_file fname s;
     case t of None \<Rightarrow> Some (-1, s)
     | Some i \<Rightarrow> do {
         (d, bm, tb) \<leftarrow> delete_loop (total_sectors (root s)) (f_block (files s ! i)) (kdisk s) (block_bitmap s) (tempbuf s);
         Some (0, write_changes (s\<lparr>kdisk := d, block_bitmap := bm, tempbuf := tb,
           files := (files s)[i := zero_file],
           root := (root s)\<lparr>filecount := filecount (root s) - 1\<rparr>\<rparr>))
       }
   }"

text \<open>\<^verbatim>\<open>mfs_list\<close>: the bytes stored in the caller's buffer and the count.\<close>

fun list_loop :: "file_t list \<Rightarrow> nat \<Rightarrow> nat \<Rightarrow> u8 list option" where
  "list_loop fs i 0 = Some []"
| "list_loop fs i (Suc n) =
     (if i < length fs then do { rest \<leftarrow> list_loop fs (Suc i) n; Some (f_name (fs ! i) @ rest) } else None)"

definition mfs_list :: "kstate \<Rightarrow> (u16 \<times> u8 list) option" where
  "mfs_list s = do {
     out \<leftarrow> list_loop (files s) 0 (unat (filecount (root s)));
     Some (ucast (filecount (root s)), out)
   }"

lemma load_progress:
  fixes remaining :: u16
  defines "bytes \<equiv> (if sint data_size < sint remaining then data_size else remaining)"
  assumes "remaining \<noteq> 0"
  shows "unat (remaining - bytes) < unat remaining"
proof -
  have ds: "unat data_size = BLOCK_DATA" "data_size \<noteq> 0" by (simp_all add: data_size_def mfs_consts)
  have "0 < unat bytes" using assms(2) ds by (auto simp: bytes_def unat_gt_0)
  moreover have "bytes \<le> remaining"
  proof (cases "sint data_size < sint remaining")
    case True
    have "sint data_size = int BLOCK_DATA" by (simp add: data_size_def mfs_consts)
    then have "int BLOCK_DATA < sint remaining" using True by simp
    then have "int BLOCK_DATA < int (unat remaining)"
      using sint_le_unat [of remaining] by (rule less_le_trans)
    then have "BLOCK_DATA < unat remaining" by (simp only: of_nat_less_iff)
    then show ?thesis using True ds by (simp add: word_le_nat_alt bytes_def)
  next
    case False
    then show ?thesis by (simp add: bytes_def)
  qed
  ultimately show ?thesis by (simp add: unat_sub word_le_nat_alt)
qed

text \<open>
  \<^verbatim>\<open>load_executable\<close>: \<open>remaining\<close> is an \<^verbatim>\<open>int16_t\<close>; a file of 32768 bytes or more makes
  it negative and the block length exceeds the buffer. The result is the bytes stored at the load
  address.
\<close>

function load_loop :: "u8 list \<Rightarrow> u16 \<Rightarrow> u16 \<Rightarrow> u16 \<Rightarrow> u8 list \<Rightarrow> u8 list \<Rightarrow> (u8 list \<times> u8 list) option" where
  "load_loop d n remaining b tb out =
     (if remaining \<noteq> 0 \<and> b \<noteq> 0 \<and> b < n then
        let bytes_in_block = (if sint data_size < sint remaining then data_size else remaining);
            tb1 = disk_read d b tb
        in if BLOCK_DATA < unat bytes_in_block then None
           else load_loop d n (remaining - bytes_in_block) (get16 tb1 1) tb1
                  (out @ take (unat bytes_in_block) (drop 4 tb1))
      else Some (out, tb))"
  by pat_completeness auto
termination
  by (relation "measure (\<lambda>(d, n, remaining, b, tb, out). unat remaining)") (auto simp: load_progress)

declare load_loop.simps [simp del]

definition load_executable :: "u8 list \<Rightarrow> kstate \<Rightarrow> (u16 \<times> u8 list \<times> kstate) option" where
  "load_executable fname s = do {
     i \<leftarrow> get_file_index fname s;
     if i = 0xFF then Some (-1, [], s)
     else do {
       let f = files s ! unat i;
       (out, tb) \<leftarrow> load_loop (kdisk s) (total_sectors (root s)) (f_size f) (f_block f) (tempbuf s) [];
       Some (0, out, s\<lparr>tempbuf := tb\<rparr>)
     }
   }"

end
