(* ===== verification/Mfs_Inv.thy ===== *)
theory Mfs_Inv
  imports Mfs
begin

text \<open>
  The invariant of the file system in memory and the absence of undefined behaviour. \<open>kfs_ok\<close>
  fixes the sizes of the buffers and the bounds the mount relies on (the bitmap covers the
  volume, the image holds every sector, at most 24 files); \<open>entry_ok\<close> is what an open
  descriptor keeps. Nothing is assumed of the contents of the disk. Every system call of the
  file layer keeps both and never leaves the buffers, so no sequence of calls is stuck.
\<close>

section \<open>The invariant\<close>

definition kfs_ok :: "kstate \<Rightarrow> bool" where
  "kfs_ok s \<longleftrightarrow>
     length (block_bitmap s) = BLOCK_SIZE \<and> length (tempbuf s) = BLOCK_SIZE \<and>
     length (files s) = FENTRY_COUNT \<and> (\<forall>f\<in>set (files s). length (f_name f) = MAX_FNAME_LEN) \<and>
     length (files_rest s) = BLOCK_SIZE - FENTRY_COUNT * FENTRY_SIZE \<and>
     length (jmp (root s)) = 3 \<and> length (root_rest s) = BLOCK_SIZE - 16 \<and>
     unat (total_sectors (root s)) \<le> 8 * BLOCK_SIZE \<and>
     unat (total_sectors (root s)) * BLOCK_SIZE \<le> length (kdisk s) \<and>
     unat (filecount (root s)) \<le> unat (max_files (root s)) \<and>
     unat (max_files (root s)) \<le> FENTRY_COUNT"

definition entry_ok :: "kstate \<Rightarrow> fd_entry \<Rightarrow> bool" where
  "entry_ok s e \<longleftrightarrow>
     (e_type e = FD_TYPE_FILE \<longrightarrow>
        (\<exists>i. e_file e = Some i \<and> i < FENTRY_COUNT) \<and>
        (e_cur_block e \<noteq> 0 \<and> e_cur_block e < total_sectors (root s) \<longrightarrow> e_block_offset e < data_size) \<and>
        (e_prev_block e = 0 \<or> e_prev_block e < total_sectors (root s)))"

definition fs_ok :: "kstate \<Rightarrow> bool" where
  "fs_ok s \<longleftrightarrow> kfs_ok s \<and> (\<forall>k<FD_MAX. entry_ok s (fd_table s k)) \<and>
     (\<forall>k<3. e_type (fd_table s k) \<noteq> FD_TYPE_FILE)"

lemma kfs_has_sector: "kfs_ok s \<Longrightarrow> b < total_sectors (root s) \<Longrightarrow> has_sector (kdisk s) b"
proof -
  assume s: "kfs_ok s" and b: "b < total_sectors (root s)"
  have "(unat b + 1) * BLOCK_SIZE \<le> unat (total_sectors (root s)) * BLOCK_SIZE"
    using b by (intro mult_le_mono1) (simp add: word_less_nat_alt)
  then show ?thesis using s by (simp add: kfs_ok_def has_sector_def)
qed

lemma kfs_bm_covers: "kfs_ok s \<Longrightarrow> b < total_sectors (root s) \<Longrightarrow> bm_covers (block_bitmap s) b"
  by (auto simp: kfs_ok_def bm_covers_def word_less_nat_alt)

lemma length_root_buf: "kfs_ok s \<Longrightarrow> length (root_buf s) = BLOCK_SIZE"
  by (simp add: kfs_ok_def root_buf_def length_encode_root mfs_consts)

lemma length_files_buf: "kfs_ok s \<Longrightarrow> length (files_buf s) = BLOCK_SIZE"
  by (simp add: kfs_ok_def files_buf_def length_encode_files mfs_consts)

lemma length_disk_write: "length b = BLOCK_SIZE \<Longrightarrow> length d \<le> length (disk_write d s b)"
  by (simp add: disk_write_def length_patch)

lemma write_changes_ok: "kfs_ok s \<Longrightarrow> kfs_ok (write_changes s)"
proof -
  assume s: "kfs_ok s"
  then have "length (block_bitmap s) = BLOCK_SIZE" by (simp add: kfs_ok_def)
  then have "length (kdisk s) \<le> length (kdisk (write_changes s))"
    using length_disk_write length_root_buf [OF s] length_files_buf [OF s]
    by (simp add: write_changes_def) (meson le_trans)
  then show ?thesis using s by (auto simp: kfs_ok_def write_changes_def)
qed

lemma write_changes_sel [simp]:
  "root (write_changes s) = root s" "fd_table (write_changes s) = fd_table s"
  "files (write_changes s) = files s" "block_bitmap (write_changes s) = block_bitmap s"
  by (simp_all add: write_changes_def)

section \<open>Allocation\<close>

text \<open>What \<open>alloc_loop\<close> computes: the first free block of the range, marked, or 0 when there is none.\<close>

lemma alloc_loop_spec:
  assumes "\<And>b. b < n \<Longrightarrow> bm_covers bm b" and "0 < block"
  shows "\<exists>r bm'. alloc_loop block n bm = Some (r, bm') \<and>
    (if \<exists>b. block \<le> b \<and> b < n \<and> bitmap_get bm b = Some False
     then block \<le> r \<and> r < n \<and> bitmap_get bm r = Some False \<and> bitmap_set bm r = Some bm' \<and>
          (\<forall>b. block \<le> b \<and> b < r \<longrightarrow> bitmap_get bm b = Some True)
     else r = 0 \<and> bm' = bm)"
  using assms
proof (induction block n bm rule: alloc_loop.induct)
  case (1 block n bm)
  show ?case
  proof (cases "block < n")
    case False
    then show ?thesis by (subst alloc_loop.simps) auto
  next
    case True
    then have cov: "bm_covers bm block" using 1 by simp
    then obtain u where u: "bitmap_get bm block = Some u" using bitmap.get_None by blast
    show ?thesis
    proof (cases u)
      case False
      obtain bm' where "bitmap_set bm block = Some bm'" using bitmap.mark_total [OF cov] by blast
      then show ?thesis using u False True
        by (subst alloc_loop.simps) (auto simp: order.strict_iff_not)
    next
      case u_True: True
      have suc: "block + 1 \<le> b \<longleftrightarrow> block < b" for b
        by (simp add: word_le_nat_alt word_less_nat_alt unat_suc_below [OF True] Suc_le_eq)
      have ge: "block \<le> b \<longleftrightarrow> b = block \<or> block < b" for b by auto
      have step: "alloc_loop block n bm = alloc_loop (block + 1) n bm"
        using True u u_True by (subst alloc_loop.simps) simp
      have pos: "0 < block + 1" using suc [of "block + 1"] 1(3) by (simp add: word_less_nat_alt unat_suc_below [OF True])
      have IH: "\<exists>r bm'. alloc_loop (block + 1) n bm = Some (r, bm') \<and>
          (if \<exists>b. block < b \<and> b < n \<and> bitmap_get bm b = Some False
           then block < r \<and> r < n \<and> bitmap_get bm r = Some False \<and> bitmap_set bm r = Some bm' \<and>
             (\<forall>b. block < b \<and> b < r \<longrightarrow> bitmap_get bm b = Some True)
           else r = 0 \<and> bm' = bm)"
        using 1(1) [of True] True u u_True 1(2) pos unfolding suc by simp
      have free: "(\<exists>b. block \<le> b \<and> b < n \<and> bitmap_get bm b = Some False) \<longleftrightarrow>
          (\<exists>b. block < b \<and> b < n \<and> bitmap_get bm b = Some False)"
        using u u_True ge by auto
      show ?thesis unfolding step free using IH u u_True ge by (auto split: if_splits)
    qed
  qed
qed


lemma length_bitmap_set: "bitmap_set bm b = Some bm' \<Longrightarrow> length bm' = length bm"
  by (auto simp: bitmap_set_def Let_def split: if_splits)

lemma length_bitmap_clear: "bitmap_clear bm b = Some bm' \<Longrightarrow> length bm' = length bm"
  by (auto simp: bitmap_clear_def Let_def split: if_splits)

lemma alloc_loop_total:
  assumes "\<And>b. b < n \<Longrightarrow> bm_covers bm b"
  shows "\<exists>r bm'. alloc_loop block n bm = Some (r, bm') \<and> (r = 0 \<or> r < n) \<and> length bm' = length bm"
  using assms
proof (induction block n bm rule: alloc_loop.induct)
  case (1 block n bm)
  show ?case
  proof (cases "block < n")
    case True
    then obtain u where u: "bitmap_get bm block = Some u" using 1 bitmap.get_None by blast
    obtain bm' where "bitmap_set bm block = Some bm'" using bitmap.mark_total 1 True by blast
    then show ?thesis using 1 u True
      by (subst alloc_loop.simps) (cases u; auto dest: length_bitmap_set)
  qed (subst alloc_loop.simps, simp)
qed

lemma alloc_block_ok:
  assumes "kfs_ok s"
  obtains block bm where "alloc_block s = Some (block, s\<lparr>block_bitmap := bm\<rparr>)"
    and "block = 0 \<or> block < total_sectors (root s)" and "kfs_ok (s\<lparr>block_bitmap := bm\<rparr>)"
proof -
  obtain r bm where "alloc_loop (data_start_sector (root s)) (total_sectors (root s)) (block_bitmap s) = Some (r, bm)"
    "r = 0 \<or> r < total_sectors (root s)" "length bm = length (block_bitmap s)"
    using alloc_loop_total [OF kfs_bm_covers [OF assms]] by blast
  then show thesis using that assms by (simp add: alloc_block_def kfs_ok_def)
qed

section \<open>Lookup\<close>

lemma find_loop_total: "i + n \<le> length fs \<Longrightarrow> \<exists>r. find_loop fname fs i n = Some r \<and> (\<forall>k. r = Some k \<longrightarrow> i \<le> k \<and> k < i + n)"
  by (induction fname fs i n rule: find_loop.induct) force+

lemma find_file_ok:
  assumes "kfs_ok s"
  obtains r where "find_file fname s = Some r" and "\<And>i. r = Some i \<Longrightarrow> i < FENTRY_COUNT \<and> 0 < filecount (root s)"
proof -
  have "0 + unat (filecount (root s)) \<le> length (files s)" using assms by (simp add: kfs_ok_def)
  then obtain r where r: "find_file fname s = Some r" "\<And>k. r = Some k \<Longrightarrow> k < unat (filecount (root s))"
    using find_loop_total [of 0 "unat (filecount (root s))" "files s" fname] by (auto simp: find_file_def)
  show thesis
  proof (rule that [OF r(1)])
    fix i assume "r = Some i"
    then show "i < FENTRY_COUNT \<and> 0 < filecount (root s)"
      using r(2) [of i] assms by (auto simp: kfs_ok_def word_less_nat_alt)
  qed
qed

lemma free_slot_total: "i + n \<le> length fs \<Longrightarrow> \<exists>r. free_slot fs i n = Some r \<and> (\<forall>k. r = Some k \<longrightarrow> i \<le> k \<and> k < i + n)"
  by (induction fs i n rule: free_slot.induct) force+

section \<open>Opening\<close>

lemma length_fresh_block [simp]: "length fresh_block = BLOCK_SIZE"
  by (simp add: fresh_block_def)

lemma length_strncpy: "n \<le> length dst \<Longrightarrow> length (strncpy dst src n) = length dst"
  by (simp add: strncpy_def)

lemma entry_ok_root:
  "total_sectors (root s') = total_sectors (root s) \<Longrightarrow> entry_ok s' e = entry_ok s e"
  by (simp add: entry_ok_def)

lemma all_names_update:
  "\<forall>f\<in>set fs. length (f_name f) = n \<Longrightarrow> length (f_name g) = n \<Longrightarrow> \<forall>f\<in>set (fs[i := g]). length (f_name f) = n"
  using set_update_subset_insert [of fs i g] by auto

lemma create_file_ok:
  assumes "kfs_ok s"
  shows "\<exists>r s'. create_file fname flags s = Some (r, s') \<and> kfs_ok s' \<and> fd_table s' = fd_table s \<and>
    total_sectors (root s') = total_sectors (root s) \<and> (\<forall>i. r = Some i \<longrightarrow> i < FENTRY_COUNT)"
proof -
  obtain block bm where al: "alloc_block s = Some (block, s\<lparr>block_bitmap := bm\<rparr>)"
    and bl: "block = 0 \<or> block < total_sectors (root s)" and k1: "kfs_ok (s\<lparr>block_bitmap := bm\<rparr>)"
    by (rule alloc_block_ok [OF assms])
  have "0 + unat (max_files (root s)) \<le> length (files s)" using assms by (simp add: kfs_ok_def)
  from free_slot_total [OF this] obtain r where
    fs: "free_slot (files s) 0 (unat (max_files (root s))) = Some r" "\<And>k. r = Some k \<Longrightarrow> k < unat (max_files (root s))"
    by auto
  have idx: "i < FENTRY_COUNT \<and> i < length (files s)" if "r = Some i" for i
    using fs(2) [OF that] assms by (auto simp: kfs_ok_def)
  show ?thesis
  proof (cases "block = 0 \<or> unat (max_files (root s)) \<le> unat (filecount (root s)) \<or> r = None")
    case True
    then show ?thesis using al fs k1 by (auto simp: create_file_def)
  next
    case False
    then obtain i where i: "r = Some i" by blast
    define f where "f = (files s ! i)\<lparr>f_name := strncpy (f_name (files s ! i)) fname (MAX_FNAME_LEN - 1),
        f_used := 1, f_flags := ucast (flags AND NOT O_CREAT), f_size := 0, f_block_size := 0, f_block := block\<rparr>"
    define s2 where "s2 = s\<lparr>block_bitmap := bm, files := (files s)[i := f], tempbuf := fresh_block,
        kdisk := disk_write (kdisk s) block fresh_block, root := (root s)\<lparr>filecount := filecount (root s) + 1\<rparr>\<rparr>"
    have cr: "create_file fname flags s = Some (Some i, write_changes s2)"
      using al fs False i by (simp add: create_file_def Let_def s2_def f_def)
    have "length (f_name f) = MAX_FNAME_LEN"
      using assms idx [OF i] by (simp add: f_def kfs_ok_def length_strncpy)
    moreover have "\<forall>g\<in>set (files s). length (f_name g) = MAX_FNAME_LEN" using assms by (simp add: kfs_ok_def)
    ultimately have "\<forall>g\<in>set ((files s)[i := f]). length (f_name g) = MAX_FNAME_LEN"
      by (intro all_names_update)
    then have names: "\<forall>g\<in>set (files s2). length (f_name g) = MAX_FNAME_LEN" by (simp add: s2_def)
    have "unat (filecount (root s) + 1) \<le> Suc (unat (filecount (root s)))"
      by (simp add: unat_word_ariths)
    then have fc: "unat (filecount (root s) + 1) \<le> unat (max_files (root s))"
      using False by linarith
    have "unat (total_sectors (root s)) * BLOCK_SIZE \<le> length (disk_write (kdisk s) block fresh_block)"
      using assms length_disk_write [of fresh_block "kdisk s" block] by (simp add: kfs_ok_def)
    then have "kfs_ok s2"
      using k1 names fc by (simp add: kfs_ok_def s2_def)
    then show ?thesis using cr idx [OF i] by (auto simp: write_changes_ok s2_def)
  qed
qed

lemma fs_okI:
  assumes "kfs_ok s'" and "total_sectors (root s') = total_sectors (root s)" and "fs_ok s"
    and "\<And>k. k < FD_MAX \<Longrightarrow> fd_table s' k = fd_table s k \<or> (entry_ok s (fd_table s' k) \<and>
      (3 \<le> k \<or> e_type (fd_table s' k) \<noteq> FD_TYPE_FILE))"
  shows "fs_ok s'"
  unfolding fs_ok_def
proof (intro conjI allI impI)
  show "entry_ok s' (fd_table s' k)" if "k < FD_MAX" for k
    using assms(3) assms(4) [OF that] that by (auto simp: fs_ok_def entry_ok_root [OF assms(2)])
  show "e_type (fd_table s' k) \<noteq> FD_TYPE_FILE" if "k < 3" for k
    using assms(3) assms(4) [of k] that by (auto simp: fs_ok_def FD_MAX_def)
qed (rule assms(1))

lemma fd_scan_range: "fd_scan t i n = -1 \<or> int i \<le> fd_scan t i n \<and> fd_scan t i n < int (i + n)"
  by (induction t i n rule: fd_scan.induct) force+

lemma open_entry_ok: "i < FENTRY_COUNT \<Longrightarrow> entry_ok s (open_entry stack i flags s')"
  by (simp add: entry_ok_def open_entry_def Let_def data_size_def mfs_consts)

lemma fd_create_ok:
  assumes "fs_ok s" and "entry_ok s e"
  shows "fs_ok (snd (fd_create e s)) \<and> (fst (fd_create e s) = -1 \<or> 3 \<le> fst (fd_create e s) \<and> fst (fd_create e s) < int FD_MAX)"
proof (cases "fd_alloc s = -1")
  case True
  then show ?thesis using assms by (simp add: fd_create_def)
next
  case False
  then have r: "3 \<le> fd_alloc s" "fd_alloc s < int FD_MAX"
    using fd_scan_range [of "fd_table s" 3 "FD_MAX - 3"] by (auto simp: fd_alloc_def FD_MAX_def)
  let ?s = "s\<lparr>fd_table := (fd_table s)(nat (fd_alloc s) := e), fd_count := fd_count s + 1\<rparr>"
  have "kfs_ok ?s" using assms by (simp add: fs_ok_def kfs_ok_def)
  then have "fs_ok ?s" by (rule fs_okI) (use assms r in auto)
  then show ?thesis using False r by (simp add: fd_create_def Let_def)
qed

lemma mfs_open_ok:
  assumes "fs_ok s"
  shows "\<exists>fd s'. mfs_open stack fname flags s = Some (fd, s') \<and> fs_ok s' \<and>
    (fd = -1 \<or> 3 \<le> fd \<and> fd < int FD_MAX)"
proof -
  have k: "kfs_ok s" using assms by (simp add: fs_ok_def)
  obtain found where f: "find_file fname s = Some found" "\<And>i. found = Some i \<Longrightarrow> i < FENTRY_COUNT"
    using find_file_ok [OF k] by metis
  obtain cur s1 where c: "(if found = None \<and> flags AND O_CREAT \<noteq> 0 then create_file fname flags s
      else Some (found, s)) = Some (cur, s1)" and s1: "kfs_ok s1" "fd_table s1 = fd_table s"
      "total_sectors (root s1) = total_sectors (root s)" "\<And>i. cur = Some i \<Longrightarrow> i < FENTRY_COUNT"
    using create_file_ok [OF k, of fname flags] f(2) k by (cases "found = None \<and> flags AND O_CREAT \<noteq> 0") auto
  have fs1: "fs_ok s1" by (rule fs_okI [OF s1(1,3) assms]) (simp add: s1(2))
  show ?thesis
  proof (cases cur)
    case None
    then show ?thesis using f c fs1 by (simp add: mfs_open_def)
  next
    case (Some i)
    then show ?thesis
      using f c fd_create_ok [OF fs1 open_entry_ok [of i], OF s1(4) [OF Some]]
      by (auto simp: mfs_open_def prod_eq_iff)
  qed
qed

section \<open>Closing\<close>

lemma fd_close_no_file:
  assumes "e_file (fd_table s (nat fd)) = None" and "3 \<le> fd" "fd < int FD_MAX"
  shows "fd_close fd s = (0, s\<lparr>fd_table := (fd_table s)(nat fd := zero_entry), fd_count := fd_count s - 1\<rparr>)"
  using assms by (subst fd_close.simps) simp

lemma mfs_close_eq:
  assumes "3 \<le> fd" "fd < int FD_MAX"
  shows "mfs_close fd s =
    (let s1 = (if e_type (fd_table s (nat fd)) = FD_TYPE_FILE then write_changes s else s)
     in (0, s1\<lparr>fd_table := (fd_table s)(nat fd := zero_entry), fd_count := fd_count s - 1\<rparr>))"
  using assms fd_close_no_file [OF _ assms]
  by (subst mfs_close.simps) (simp add: fd_get_def write_changes_def)

lemma mfs_close_std:
  assumes "fd < 3" and "fs_ok s"
  shows "fs_ok (snd (mfs_close fd s))"
proof (cases "fd_get fd")
  case None
  then show ?thesis using assms by (subst mfs_close.simps) simp
next
  case (Some k)
  then have k: "k < 3" "nat fd = k" using assms(1) by (auto simp: fd_get_def split: if_splits)
  let ?s = "s\<lparr>fd_table := (fd_table s)(k := (fd_table s k)\<lparr>e_file := None\<rparr>)\<rparr>"
  have t: "e_type (fd_table s k) \<noteq> FD_TYPE_FILE" using assms(2) k by (simp add: fs_ok_def)
  then have "snd (mfs_close fd s) = ?s"
    using Some k assms(1) by (simp add: mfs_close.simps [of fd s] fd_close.simps [of fd])
  moreover have "kfs_ok ?s" using assms(2) by (simp add: fs_ok_def kfs_ok_def)
  then have "fs_ok ?s" by (rule fs_okI) (use assms t in \<open>auto simp: entry_ok_def\<close>)
  ultimately show ?thesis by simp
qed

lemma zero_entry_ok [simp]: "entry_ok s zero_entry"
  by (simp add: entry_ok_def zero_entry_def FD_TYPE_FILE_def)

lemma fs_ok_write_changes: "fs_ok s \<Longrightarrow> fs_ok (write_changes s)"
  by (rule fs_okI [of _ s]) (simp_all add: fs_ok_def write_changes_ok)

lemma fs_ok_zero_entry:
  assumes "fs_ok s" and "3 \<le> k"
  shows "fs_ok (s\<lparr>fd_table := (fd_table s)(k := zero_entry), fd_count := c\<rparr>)"
proof -
  have "kfs_ok (s\<lparr>fd_table := (fd_table s)(k := zero_entry), fd_count := c\<rparr>)"
    using assms by (simp add: fs_ok_def kfs_ok_def)
  then show ?thesis by (rule fs_okI) (use assms in auto)
qed

lemma mfs_close_ok:
  assumes "fs_ok s"
  shows "fs_ok (snd (mfs_close fd s))"
proof (cases "3 \<le> fd \<and> fd < int FD_MAX")
  case True
  then have "3 \<le> nat fd" by (simp add: le_nat_iff)
  then show ?thesis
    using True fs_ok_zero_entry [OF assms, of "nat fd"] fs_ok_zero_entry [OF fs_ok_write_changes [OF assms], of "nat fd"]
    by (simp add: mfs_close_eq Let_def)
next
  case False
  then show ?thesis
    using assms mfs_close_std [of fd s] by (cases "fd < 3") (auto simp: mfs_close.simps [of fd s] fd_get_def)
qed

lemma fd_close_ok:
  assumes "fs_ok s"
  shows "fs_ok (snd (fd_close fd s))"
proof (cases "fd < 3 \<or> int FD_MAX \<le> fd")
  case True
  then show ?thesis using assms by (subst fd_close.simps) simp
next
  case False
  then have "3 \<le> nat fd" by (simp add: le_nat_iff)
  then show ?thesis
    using False fs_ok_zero_entry [OF mfs_close_ok [OF assms, of fd]] fs_ok_zero_entry [OF assms]
    by (subst fd_close.simps) (simp add: Let_def)
qed

section \<open>Reading\<close>

lemma data_size_unat: "unat data_size = BLOCK_DATA"
  by (simp add: data_size_def mfs_consts)

lemma data_size_pos: "0 < data_size"
  by (simp add: data_size_def mfs_consts)

text \<open>The bytes a round moves fit in what is left of the block.\<close>

lemma copy_fits:
  assumes "off < data_size" and "t \<le> data_size - off"
  shows "4 + unat off + unat t \<le> BLOCK_SIZE" and "unat (off + t) = unat off + unat t" and "off + t \<le> data_size"
proof -
  have "unat off < BLOCK_DATA" using assms(1) by (simp add: word_less_nat_alt data_size_unat)
  moreover have "unat (data_size - off) = BLOCK_DATA - unat off"
    using assms(1) by (simp add: unat_sub data_size_unat less_imp_le)
  then have "unat t \<le> BLOCK_DATA - unat off" using assms(2) by (simp add: word_le_nat_alt)
  ultimately have b: "unat off + unat t \<le> BLOCK_DATA" by simp
  then show "4 + unat off + unat t \<le> BLOCK_SIZE" by (simp add: mfs_consts)
  show u: "unat (off + t) = unat off + unat t"
    using b by (simp add: unat_word_ariths mfs_consts)
  show "off + t \<le> data_size" using b by (simp add: word_le_nat_alt u data_size_unat)
qed

definition cursor_ok :: "u16 \<Rightarrow> fd_entry \<Rightarrow> bool" where
  "cursor_ok n e \<longleftrightarrow> (e_cur_block e \<noteq> 0 \<and> e_cur_block e < n \<longrightarrow> e_block_offset e < data_size)"

definition prev_ok :: "u16 \<Rightarrow> fd_entry \<Rightarrow> bool" where
  "prev_ok n e \<longleftrightarrow> e_prev_block e = 0 \<or> e_prev_block e < n"

lemma read_loop_ok:
  assumes "cursor_ok n e" and "length tb = BLOCK_SIZE"
  shows "\<exists>e' tb' out'. read_loop d n sz remaining e tb out = Some (e', tb', out') \<and> cursor_ok n e' \<and>
    length tb' = BLOCK_SIZE \<and> e_type e' = e_type e \<and> e_file e' = e_file e \<and> e_prev_block e' = e_prev_block e"
  using assms
proof (induction d n sz remaining e tb out rule: read_loop.induct)
  case (1 d n sz remaining e tb out)
  show ?case
  proof (cases "0 < remaining \<and> e_cur_block e \<noteq> 0 \<and> e_cur_block e < n \<and> e_pos e < sz")
    case False
    then show ?thesis using 1(2,3) by (subst read_loop.simps) auto
  next
    case True
    let ?av = "data_size - e_block_offset e"
    let ?t1 = "if remaining < ?av then remaining else ?av"
    let ?t = "if sz - e_pos e < ?t1 then sz - e_pos e else ?t1"
    let ?tb1 = "disk_read d (e_cur_block e) tb"
    let ?e1 = "e\<lparr>e_pos := e_pos e + ?t, e_block_offset := e_block_offset e + ?t\<rparr>"
    let ?e2 = "if data_size \<le> e_block_offset ?e1 then ?e1\<lparr>e_block_offset := 0, e_cur_block := get16 ?tb1 1\<rparr> else ?e1"
    have off: "e_block_offset e < data_size" using 1(2) True by (simp add: cursor_ok_def)
    have "?t \<le> ?av" by auto
    note fits = copy_fits [OF off this]
    have step: "read_loop d n sz remaining e tb out = read_loop d n sz (remaining - ?t) ?e2 ?tb1
        (out @ take (unat ?t) (drop (4 + unat (e_block_offset e)) ?tb1))"
      using True fits(1) by (subst read_loop.simps) (simp add: Let_def not_less)
    have "cursor_ok n ?e2" using data_size_pos by (auto simp: cursor_ok_def not_le)
    moreover have "length ?tb1 = BLOCK_SIZE" using 1(3) by (rule length_disk_read)
    ultimately show ?thesis
      unfolding step using 1(1) [OF True refl refl refl refl refl refl _ refl refl] fits(1) by auto
  qed
qed

lemma entry_ok_cursor:
  "entry_ok s e \<Longrightarrow> e_type e = FD_TYPE_FILE \<Longrightarrow> cursor_ok (total_sectors (root s)) e"
  by (simp add: entry_ok_def cursor_ok_def)

lemma entry_ok_prev: "entry_ok s e \<Longrightarrow> e_type e = FD_TYPE_FILE \<Longrightarrow> prev_ok (total_sectors (root s)) e"
  by (simp add: entry_ok_def prev_ok_def)

lemma kfs_ok_tempbuf: "kfs_ok s \<Longrightarrow> length tb = BLOCK_SIZE \<Longrightarrow> kfs_ok (s\<lparr>fd_table := t, tempbuf := tb\<rparr>)"
  by (simp add: kfs_ok_def)

text \<open>Replacing a descriptor by one for the same file whose cursor is sound.\<close>

lemma fs_ok_entry:
  assumes "fs_ok s" and "kfs_ok s'" and "total_sectors (root s') = total_sectors (root s)" and "k < FD_MAX"
    and "e_type (fd_table s k) = FD_TYPE_FILE" and "fd_table s' = (fd_table s)(k := e)"
    and "e_type e = FD_TYPE_FILE" and "e_file e = e_file (fd_table s k)"
    and "cursor_ok (total_sectors (root s)) e"
    and "prev_ok (total_sectors (root s)) e"
  shows "fs_ok s'"
proof -
  have "entry_ok s (fd_table s k)" "3 \<le> k" using assms(1,4,5) by (auto simp: fs_ok_def not_less [symmetric])
  then have "entry_ok s e" using assms(5,8,9,10) by (auto simp: entry_ok_def cursor_ok_def prev_ok_def)
  then show ?thesis
    using fs_okI [OF assms(2,3,1)] \<open>3 \<le> k\<close> assms(6) by simp
qed

lemma fd_get_less: "fd_get fd = Some k \<Longrightarrow> k < FD_MAX"
  by (auto simp: fd_get_def split: if_splits)

lemma mfs_read_ok:
  assumes "fs_ok s"
  shows "\<exists>r out s'. mfs_read fd count s = Some (r, out, s') \<and> fs_ok s'"
proof (cases "fd_get fd")
  case None
  then show ?thesis using assms by (simp add: mfs_read_def)
next
  case (Some k)
  let ?e = "fd_table s k"
  have k: "k < FD_MAX" "kfs_ok s" and eok: "entry_ok s ?e"
    using assms fd_get_less [OF Some] by (simp_all add: fs_ok_def)
  show ?thesis
  proof (cases "e_flags ?e AND FD_FLAGS_READ = 0 \<or> e_type ?e \<noteq> FD_TYPE_FILE")
    case True
    then show ?thesis using Some assms by (auto simp: mfs_read_def Let_def)
  next
    case False
    then obtain i where i: "e_file ?e = Some i" using eok by (auto simp: entry_ok_def)
    have ft: "e_type ?e = FD_TYPE_FILE" using False by simp
    have "length (tempbuf s) = BLOCK_SIZE" using k by (simp add: kfs_ok_def)
    from read_loop_ok [OF entry_ok_cursor [OF eok ft] this]
    obtain e' tb out where rl: "read_loop (kdisk s) (total_sectors (root s)) (f_size (files s ! i)) count ?e (tempbuf s) [] = Some (e', tb, out)"
      and e': "cursor_ok (total_sectors (root s)) e'" "length tb = BLOCK_SIZE" "e_type e' = e_type ?e"
        "e_file e' = e_file ?e" "e_prev_block e' = e_prev_block ?e"
      by blast
    have pr: "prev_ok (total_sectors (root s)) e'"
      using entry_ok_prev [OF eok ft] e'(5) by (simp add: prev_ok_def)
    have "fs_ok (s\<lparr>fd_table := (fd_table s)(k := e'), tempbuf := tb\<rparr>)"
      by (rule fs_ok_entry [OF assms _ _ k(1) ft _ _ _ e'(1) pr])
        (use e' ft kfs_ok_tempbuf [OF k(2) e'(2)] in simp_all)
    then show ?thesis using Some False i rl assms by (auto simp: mfs_read_def Let_def)
  qed
qed

section \<open>Writing\<close>

lemma kfs_ok_disk_write:
  "kfs_ok s \<Longrightarrow> length b = BLOCK_SIZE \<Longrightarrow> length tb = BLOCK_SIZE \<Longrightarrow>
   kfs_ok (s\<lparr>tempbuf := tb, kdisk := disk_write (kdisk s) c b\<rparr>)"
  using length_disk_write [of b "kdisk s" c] by (simp add: kfs_ok_def)

lemma kfs_ok_disk_write2:
  "kfs_ok s \<Longrightarrow> length b = BLOCK_SIZE \<Longrightarrow> kfs_ok (s\<lparr>kdisk := disk_write (kdisk s) c b\<rparr>)"
  using length_disk_write [of b "kdisk s" c] by (simp add: kfs_ok_def)

lemma kfs_ok_file:
  assumes "kfs_ok s" and "length (f_name f) = MAX_FNAME_LEN"
  shows "kfs_ok (s\<lparr>files := (files s)[i := f]\<rparr>)"
proof -
  have "\<forall>g\<in>set (files s). length (f_name g) = MAX_FNAME_LEN" using assms(1) by (simp add: kfs_ok_def)
  then have "\<forall>g\<in>set ((files s)[i := f]). length (f_name g) = MAX_FNAME_LEN"
    using assms(2) by (intro all_names_update)
  then show ?thesis using assms(1) by (simp add: kfs_ok_def)
qed

lemma kfs_ok_name: "kfs_ok s \<Longrightarrow> i < FENTRY_COUNT \<Longrightarrow> length (f_name (files s ! i)) = MAX_FNAME_LEN"
  by (simp add: kfs_ok_def)

lemma length_put16 [simp]: "length (put16 bs i v) = length bs"
  by (simp add: put16_def)

text \<open>The cursor the write loop needs: a valid block with room.\<close>

definition write_ready :: "u16 \<Rightarrow> fd_entry \<Rightarrow> bool" where
  "write_ready n e \<longleftrightarrow> e_cur_block e \<noteq> 0 \<and> e_cur_block e < n \<and> e_block_offset e < data_size"

definition same_kernel :: "kstate \<Rightarrow> kstate \<Rightarrow> bool" where
  "same_kernel s s' \<longleftrightarrow> kfs_ok s' \<and> root s' = root s \<and> fd_table s' = fd_table s"

lemma extend_chain_ok:
  assumes "kfs_ok s" and "i < FENTRY_COUNT" and "cursor_ok (total_sectors (root s)) e"
    and "prev_ok (total_sectors (root s)) e"
  shows "\<exists>me s'. extend_chain i e s = Some (me, s') \<and> same_kernel s s' \<and>
    (\<forall>e'. me = Some e' \<longrightarrow> write_ready (total_sectors (root s)) e' \<and> prev_ok (total_sectors (root s)) e' \<and>
       e_type e' = e_type e \<and> e_file e' = e_file e)"
proof (cases "e_cur_block e = 0 \<or> total_sectors (root s) \<le> e_cur_block e")
  case False
  then show ?thesis
    using assms by (auto simp: extend_chain_def write_ready_def cursor_ok_def same_kernel_def not_le)
next
  case True
  obtain block bm where al: "alloc_block s = Some (block, s\<lparr>block_bitmap := bm\<rparr>)"
    and bl: "block = 0 \<or> block < total_sectors (root s)" and k1: "kfs_ok (s\<lparr>block_bitmap := bm\<rparr>)"
    by (rule alloc_block_ok [OF assms(1)])
  let ?s2 = "s\<lparr>block_bitmap := bm, tempbuf := fresh_block, kdisk := disk_write (kdisk s) block fresh_block\<rparr>"
  let ?e2 = "e\<lparr>e_cur_block := block, e_block_offset := 0\<rparr>"
  have k2: "kfs_ok ?s2" using kfs_ok_disk_write [OF k1, of fresh_block fresh_block block] by simp
  show ?thesis
  proof (cases "block = 0")
    case b0: True
    then show ?thesis using True al k1 by (simp add: extend_chain_def same_kernel_def)
  next
    case False
    have e2: "write_ready (total_sectors (root s)) ?e2" "prev_ok (total_sectors (root s)) ?e2"
      using False bl assms(4) data_size_pos by (auto simp: write_ready_def prev_ok_def)
    show ?thesis
    proof (cases "e_prev_block e = 0")
      case p0: True
      have "kfs_ok (?s2\<lparr>files := (files ?s2)[i := (files ?s2 ! i)\<lparr>f_block := block\<rparr>]\<rparr>)"
        using k2 kfs_ok_name [OF k2 assms(2)] by (intro kfs_ok_file) simp_all
      then show ?thesis using True al False p0 e2 by (simp add: extend_chain_def same_kernel_def Let_def)
    next
      case p: False
      then have "e_prev_block e < total_sectors (root ?s2)" using assms(4) by (simp add: prev_ok_def)
      then have h: "has_sector (kdisk ?s2) (e_prev_block e)" by (rule kfs_has_sector [OF k2])
      have "kfs_ok (?s2\<lparr>kdisk := disk_write (kdisk ?s2) (e_prev_block e) (put16 (sector (kdisk ?s2) (e_prev_block e)) 1 block)\<rparr>)"
        using image.length_rd [OF h] by (intro kfs_ok_disk_write2 k2) simp
      then show ?thesis using True al False p e2 h by (simp add: extend_chain_def same_kernel_def Let_def)
    qed
  qed
qed

lemma write_block_ok:
  assumes "kfs_ok s" and "i < FENTRY_COUNT" and "write_ready (total_sectors (root s)) e"
    and "unat remaining \<le> length data"
  shows "\<exists>w e' s'. write_block data i remaining e s = Some (w, e', s') \<and> w \<le> remaining \<and> same_kernel s s' \<and>
    cursor_ok (total_sectors (root s)) e' \<and> (prev_ok (total_sectors (root s)) e \<longrightarrow> prev_ok (total_sectors (root s)) e') \<and>
    e_type e' = e_type e \<and> e_file e' = e_file e"
proof -
  let ?w = "if remaining < data_size - e_block_offset e then remaining else data_size - e_block_offset e"
  let ?tb = "disk_read (kdisk s) (e_cur_block e) (tempbuf s)"
  let ?tb1 = "patch (4 + unat (e_block_offset e)) (take (unat ?w) data) ?tb"
  let ?s1 = "s\<lparr>tempbuf := ?tb1, kdisk := disk_write (kdisk s) (e_cur_block e) ?tb1\<rparr>"
  have wr: "?w \<le> remaining" "?w \<le> data_size - e_block_offset e" by auto
  then have wl: "unat ?w \<le> length data" using assms(4) by (auto simp: word_le_nat_alt)
  have off: "e_block_offset e < data_size" using assms(3) by (simp add: write_ready_def)
  note fits = copy_fits [OF off wr(2)]
  have "length ?tb = BLOCK_SIZE" using assms(1) by (intro length_disk_read) (simp add: kfs_ok_def)
  then have tb1: "length ?tb1 = BLOCK_SIZE" using fits(1) wl by (simp add: length_patch)
  have k1: "kfs_ok ?s1" by (rule kfs_ok_disk_write [OF assms(1) tb1 tb1])
  have k2: "kfs_ok (?s1\<lparr>files := (files ?s1)[i := (files ?s1 ! i)\<lparr>f_size := p\<rparr>]\<rparr>)" for p
    using kfs_ok_name [OF k1 assms(2)] by (intro kfs_ok_file k1) simp
  have "\<not> (BLOCK_SIZE < 4 + unat (e_block_offset e) + unat ?w \<or> length data < unat ?w)"
    using fits(1) wl by simp
  then show ?thesis
    using k1 k2 wr(1) assms(3) data_size_pos
    by (auto simp: write_block_def Let_def same_kernel_def cursor_ok_def prev_ok_def write_ready_def not_le)
qed

lemma write_loop_ok:
  assumes "kfs_ok s" and "i < FENTRY_COUNT" and "cursor_ok (total_sectors (root s)) e"
    and "prev_ok (total_sectors (root s)) e" and "unat remaining \<le> length data"
  shows "\<exists>r e' s'. write_loop data i remaining written e s = Some (r, e', s') \<and> same_kernel s s' \<and>
    cursor_ok (total_sectors (root s)) e' \<and> prev_ok (total_sectors (root s)) e' \<and>
    e_type e' = e_type e \<and> e_file e' = e_file e"
  using assms
proof (induction data i remaining written e s rule: write_loop.induct)
  case (1 data i remaining written e s)
  show ?case
  proof (cases "0 < remaining")
    case False
    then show ?thesis using 1 by (subst write_loop.simps) (simp add: same_kernel_def)
  next
    case True
    obtain me s1 where ex: "extend_chain i e s = Some (me, s1)" and s1: "same_kernel s s1"
      and me: "\<And>e'. me = Some e' \<Longrightarrow> write_ready (total_sectors (root s)) e' \<and> prev_ok (total_sectors (root s)) e' \<and>
        e_type e' = e_type e \<and> e_file e' = e_file e"
      using extend_chain_ok [OF 1(2-5)] by blast
    show ?thesis
    proof (cases me)
      case None
      then show ?thesis using True ex s1 1(2-) by (subst write_loop.simps) simp
    next
      case (Some e1)
      have k1: "kfs_ok s1" "root s1 = root s" "fd_table s1 = fd_table s" using s1 by (simp_all add: same_kernel_def)
      obtain w e2 s2 where wb: "write_block data i remaining e1 s1 = Some (w, e2, s2)" and w: "w \<le> remaining"
        and s2: "same_kernel s1 s2" and e2: "cursor_ok (total_sectors (root s)) e2" "prev_ok (total_sectors (root s)) e2"
          "e_type e2 = e_type e" "e_file e2 = e_file e"
        using write_block_ok [OF k1(1) 1(3), of e1 remaining data] me [OF Some] 1(6) k1(2) by auto
      have k2: "kfs_ok s2" "root s2 = root s" "fd_table s2 = fd_table s"
        using s2 k1 by (simp_all add: same_kernel_def)
      have len: "unat (remaining - w) \<le> length (drop (unat w) data)"
        using w 1(6) by (simp add: unat_sub word_le_nat_alt)
      have step: "write_loop data i remaining written e s =
          write_loop (drop (unat w) data) i (remaining - w) (written + w) e2 s2"
        using True ex Some wb by (subst write_loop.simps) simp
      have "\<exists>r e' s'. write_loop (drop (unat w) data) i (remaining - w) (written + w) e2 s2 = Some (r, e', s') \<and>
          same_kernel s2 s' \<and> cursor_ok (total_sectors (root s2)) e' \<and> prev_ok (total_sectors (root s2)) e' \<and>
          e_type e' = e_type e2 \<and> e_file e' = e_file e2"
        using 1(1) [OF True ex refl Some wb refl refl k2(1) 1(3) _ _ len] e2(1,2) k2(2) by simp
      then show ?thesis unfolding step using k2 e2 by (auto simp: same_kernel_def)
    qed
  qed
qed

lemma mfs_write_ok:
  assumes "fs_ok s" and "unat count \<le> length buf"
  shows "\<exists>r s'. mfs_write fd buf count s = Some (r, s') \<and> fs_ok s'"
proof (cases "fd_get fd")
  case None
  then show ?thesis using assms by (simp add: mfs_write_def)
next
  case (Some k)
  let ?e = "fd_table s k"
  have k: "k < FD_MAX" "kfs_ok s" and eok: "entry_ok s ?e"
    using assms fd_get_less [OF Some] by (simp_all add: fs_ok_def)
  show ?thesis
  proof (cases "e_flags ?e AND FD_FLAGS_WRITE = 0 \<or> e_type ?e \<noteq> FD_TYPE_FILE")
    case True
    then show ?thesis using Some assms by (auto simp: mfs_write_def Let_def)
  next
    case False
    then obtain i where i: "e_file ?e = Some i" "i < FENTRY_COUNT" using eok by (auto simp: entry_ok_def)
    have ft: "e_type ?e = FD_TYPE_FILE" using False by simp
    from write_loop_ok [OF k(2) i(2) entry_ok_cursor [OF eok ft] entry_ok_prev [OF eok ft] assms(2), of 0]
    obtain r e' s' where wl: "write_loop buf i count 0 ?e s = Some (r, e', s')" and s': "same_kernel s s'"
      and e': "cursor_ok (total_sectors (root s)) e'" "prev_ok (total_sectors (root s)) e'"
        "e_type e' = e_type ?e" "e_file e' = e_file ?e"
      by blast
    have "kfs_ok (s'\<lparr>fd_table := t\<rparr>)" for t using s' by (auto simp: same_kernel_def kfs_ok_def)
    then have "fs_ok (s'\<lparr>fd_table := (fd_table s')(k := e')\<rparr>)"
      using s' ft e' by (intro fs_ok_entry [OF assms(1) _ _ k(1) ft _ _ _ e'(1,2)]) (simp_all add: same_kernel_def)
    then show ?thesis using Some False i wl by (simp add: mfs_write_def Let_def)
  qed
qed

section \<open>Seeking, deleting and listing\<close>

lemma seek_loop_ok:
  assumes "length tb = BLOCK_SIZE" and "seek_loop d n offset block tb = (off, b, tb')"
  shows "length tb' = BLOCK_SIZE \<and> (b \<noteq> 0 \<and> b < n \<longrightarrow> off < data_size)"
  using assms
proof (induction d n offset block tb rule: seek_loop.induct)
  case (1 d n offset block tb)
  show ?case
  proof (cases "data_size \<le> offset \<and> block \<noteq> 0 \<and> block < n")
    case True
    have "seek_loop d n (offset - data_size) (get16 (disk_read d block tb) 1) (disk_read d block tb) = (off, b, tb')"
      using 1(3) True by (subst (asm) seek_loop.simps) (simp add: Let_def)
    then show ?thesis using 1(1) [OF True refl length_disk_read [OF 1(2)]] by blast
  next
    case False
    then have "seek_loop d n offset block tb = (offset, block, tb)" by (subst seek_loop.simps) auto
    then show ?thesis using False 1(2,3) by auto
  qed
qed

lemma mfs_seek_ok:
  assumes "fs_ok s" and "whence = SEEK_SET \<or> whence = SEEK_CUR \<or> whence = SEEK_END"
  shows "\<exists>r s'. mfs_seek fd pos whence s = Some (r, s') \<and> fs_ok s'"
proof (cases "fd_get fd")
  case None
  then show ?thesis using assms by (simp add: mfs_seek_def)
next
  case (Some k)
  let ?e = "fd_table s k"
  have k: "k < FD_MAX" "kfs_ok s" and eok: "entry_ok s ?e"
    using assms fd_get_less [OF Some] by (simp_all add: fs_ok_def)
  show ?thesis
  proof (cases "e_type ?e = FD_TYPE_FILE")
    case False
    then show ?thesis using Some assms by (simp add: mfs_seek_def Let_def)
  next
    case True
    then obtain i where i: "e_file ?e = Some i" using eok by (auto simp: entry_ok_def)
    obtain offset where off: "(if whence = SEEK_SET then Some pos
        else if whence = SEEK_CUR then Some (e_pos ?e + pos)
        else if whence = SEEK_END then Some (f_size (files s ! i) + pos) else None) = Some offset"
      using assms(2) by (cases "whence = SEEK_SET"; cases "whence = SEEK_CUR") auto
    obtain o' b tb where sl: "seek_loop (kdisk s) (total_sectors (root s)) offset (f_block (files s ! i)) (tempbuf s) = (o', b, tb)"
      by (metis prod_cases3)
    have "length (tempbuf s) = BLOCK_SIZE" using k by (simp add: kfs_ok_def)
    from seek_loop_ok [OF this sl] have ok: "length tb = BLOCK_SIZE" "b \<noteq> 0 \<and> b < total_sectors (root s) \<longrightarrow> o' < data_size"
      by blast+
    let ?e' = "?e\<lparr>e_pos := pos, e_cur_block := b, e_block_offset := o'\<rparr>"
    have c: "cursor_ok (total_sectors (root s)) ?e'" using ok(2) by (simp add: cursor_ok_def)
    have p: "prev_ok (total_sectors (root s)) ?e'" using entry_ok_prev [OF eok True] by (simp add: prev_ok_def)
    have "fs_ok (s\<lparr>fd_table := (fd_table s)(k := ?e'), tempbuf := tb\<rparr>)"
      using True kfs_ok_tempbuf [OF k(2) ok(1)] by (intro fs_ok_entry [OF assms(1) _ _ k(1) True _ _ _ c p]) simp_all
    then show ?thesis using Some True i off sl by (simp add: mfs_seek_def Let_def)
  qed
qed

lemma delete_loop_ok:
  assumes "\<And>b. b < n \<Longrightarrow> bm_covers bm b" and "length tb = BLOCK_SIZE"
  shows "\<exists>d' bm' tb'. delete_loop n b d bm tb = Some (d', bm', tb') \<and> length d \<le> length d' \<and>
    length bm' = length bm \<and> length tb' = BLOCK_SIZE"
  using assms
proof (induction n b d bm tb rule: delete_loop.induct)
  case (1 n b d bm tb)
  show ?case
  proof (cases "b \<noteq> 0 \<and> b < n")
    case False
    then show ?thesis using 1(3) by (subst delete_loop.simps) auto
  next
    case True
    let ?tb1 = "disk_read d b tb" and ?d1 = "disk_write d b zero_block"
    obtain bm1 where bm1: "bitmap_clear bm b = Some bm1" using bitmap.free_total 1(2) True by blast
    have "bm_covers bm1 c" if "c < n" for c using bitmap.free_covers [OF bm1] 1(2) [OF that] by simp
    from 1(1) [OF True refl bm1 this length_disk_read [OF 1(3)]]
    obtain d' bm' tb' where "delete_loop n (get16 ?tb1 1) ?d1 bm1 ?tb1 = Some (d', bm', tb')"
      "length ?d1 \<le> length d'" "length bm' = length bm1" "length tb' = BLOCK_SIZE" by blast
    moreover have "length d \<le> length ?d1" by (rule length_disk_write [OF length_zero_block])
    ultimately show ?thesis
      using True bm1 length_bitmap_clear [OF bm1] by (subst delete_loop.simps) (simp add: Let_def)
  qed
qed

lemma mfs_delete_ok:
  assumes "fs_ok s"
  shows "\<exists>r s'. mfs_delete fname s = Some (r, s') \<and> fs_ok s'"
proof -
  have k: "kfs_ok s" using assms by (simp add: fs_ok_def)
  obtain t where t: "find_file fname s = Some t" "\<And>i. t = Some i \<Longrightarrow> i < FENTRY_COUNT \<and> 0 < filecount (root s)"
    by (rule find_file_ok [OF k]) blast
  show ?thesis
  proof (cases t)
    case None
    then show ?thesis using t assms by (simp add: mfs_delete_def)
  next
    case (Some i)
    have "length (tempbuf s) = BLOCK_SIZE" using k by (simp add: kfs_ok_def)
    from delete_loop_ok [OF kfs_bm_covers [OF k] this]
    obtain d bm tb where dl: "delete_loop (total_sectors (root s)) (f_block (files s ! i)) (kdisk s) (block_bitmap s) (tempbuf s) = Some (d, bm, tb)"
      and l: "length (kdisk s) \<le> length d" "length bm = length (block_bitmap s)" "length tb = BLOCK_SIZE" by blast
    let ?r = "(root s)\<lparr>filecount := filecount (root s) - 1\<rparr>"
    let ?s1 = "s\<lparr>kdisk := d, block_bitmap := bm, tempbuf := tb, root := ?r\<rparr>"
    have "unat (filecount (root s) - 1) \<le> unat (filecount (root s))"
      using t(2) [OF Some] by (simp add: unat_sub word_le_nat_alt word_less_nat_alt)
    then have "kfs_ok ?s1" using k l by (simp add: kfs_ok_def)
    then have "kfs_ok (?s1\<lparr>files := (files ?s1)[i := zero_file]\<rparr>)"
      by (rule kfs_ok_file) (simp add: zero_file_def MAX_FNAME_LEN_def)
    then have "kfs_ok (s\<lparr>kdisk := d, block_bitmap := bm, tempbuf := tb, files := (files s)[i := zero_file], root := ?r\<rparr>)"
      by (simp add: kfs_ok_def)
    from write_changes_ok [OF this]
    have "fs_ok (write_changes (s\<lparr>kdisk := d, block_bitmap := bm, tempbuf := tb, files := (files s)[i := zero_file], root := ?r\<rparr>))"
      by (rule fs_okI [OF _ _ assms]) simp_all
    then show ?thesis using t Some dl by (simp add: mfs_delete_def)
  qed
qed

lemma list_loop_total:
  "i + n \<le> length fs \<Longrightarrow> list_loop fs i n = Some (concat (map f_name (take n (drop i fs))))"
  by (induction fs i n rule: list_loop.induct) (simp_all add: Cons_nth_drop_Suc [symmetric])

section \<open>Mounting\<close>

text \<open>What the image must satisfy; \<^verbatim>\<open>mfs_init\<close> itself checks only the checksum.\<close>

definition mountable :: "u8 list \<Rightarrow> bool" where
  "mountable img \<longleftrightarrow>
     (let r = decode_root (sector img 0) in
      checksum r = CHECKSUM \<and> BLOCK_SIZE \<le> length img \<and>
      unat (total_sectors r) \<le> 8 * BLOCK_SIZE \<and> unat (total_sectors r) * BLOCK_SIZE \<le> length img \<and>
      unat (filecount r) \<le> unat (max_files r) \<and> unat (max_files r) \<le> FENTRY_COUNT)"

text \<open>The buffers of the kernel before the mount: the sizes of the C arrays.\<close>

definition buffers_ok :: "kstate \<Rightarrow> bool" where
  "buffers_ok s \<longleftrightarrow> length (root_buf s) = BLOCK_SIZE \<and> length (block_bitmap s) = BLOCK_SIZE \<and>
     length (files_buf s) = BLOCK_SIZE \<and> length (tempbuf s) = BLOCK_SIZE"

lemma decode_files_shape:
  "FENTRY_SIZE * n \<le> length bs \<Longrightarrow> length (decode_files n bs) = n \<and>
   (\<forall>f\<in>set (decode_files n bs). length (f_name f) = MAX_FNAME_LEN)"
  by (induction n bs rule: decode_files.induct) (auto simp: decode_file_def FENTRY_SIZE_def MAX_FNAME_LEN_def)

lemma mfs_init_ok:
  assumes "mountable img" and "buffers_ok s"
  shows "fst (mfs_init (Some img) s) = 0 \<and> fs_ok (snd (fd_init (snd (mfs_init (Some img) s))))"
proof -
  have h0: "has_sector img 0" using assms(1) by (simp add: mountable_def has_sector_def Let_def)
  have rb: "disk_read img 0 (root_buf s) = sector img 0"
    using assms(2) by (intro disk_read_sector h0) (simp add: buffers_ok_def)
  let ?r = "decode_root (sector img 0)"
  have ls: "length (sector img 0) = BLOCK_SIZE" by (rule image.length_rd [OF h0])
  let ?fb = "disk_read img (fentry_sector ?r) (files_buf s)"
  have fb: "length ?fb = BLOCK_SIZE" using assms(2) by (intro length_disk_read) (simp add: buffers_ok_def)
  then have "FENTRY_SIZE * FENTRY_COUNT \<le> length ?fb" by (simp add: mfs_consts)
  note df = decode_files_shape [OF this]
  let ?s3 = "snd (mfs_init (Some img) s)"
  have s3: "mfs_init (Some img) s = (0, s\<lparr>kdisk := img, root := ?r, root_rest := drop 16 (sector img 0),
      block_bitmap := disk_read img (bitmap_sector ?r) (block_bitmap s),
      files := decode_files FENTRY_COUNT ?fb, files_rest := drop (FENTRY_COUNT * FENTRY_SIZE) ?fb\<rparr>)"
    using assms(1) by (simp add: mfs_init_def rb Let_def mountable_def files_buf_def)
  have "length (disk_read img (bitmap_sector ?r) (block_bitmap s)) = BLOCK_SIZE"
    using assms(2) by (intro length_disk_read) (simp add: buffers_ok_def)
  moreover have "length (jmp ?r) = 3" using ls by (simp add: decode_root_def mfs_consts)
  ultimately have "kfs_ok ?s3"
    using assms df fb ls by (simp add: kfs_ok_def s3 mountable_def Let_def buffers_ok_def)
  then have "kfs_ok (snd (fd_init ?s3))" by (simp add: kfs_ok_def fd_init_def)
  moreover have "e_type (fd_table (snd (fd_init ?s3)) k) \<noteq> FD_TYPE_FILE" for k
    by (simp add: fd_init_def zero_entry_def FD_TYPE_FILE_def FD_TYPE_STDIN_def FD_TYPE_STDOUT_def FD_TYPE_STDERR_def)
  ultimately have "fs_ok (snd (fd_init ?s3))" by (simp add: fs_ok_def entry_ok_def)
  then show ?thesis by (simp add: s3)
qed

section \<open>Every sequence of calls\<close>

datatype fs_call = Open u16 "u8 list" u16 | Close int | Fd_close int | Read int u16
  | Write int "u8 list" u16 | Seek int u16 u16 | Delete "u8 list" | Sync | List | Filesize "u8 list"

text \<open>The state after a call, \<open>None\<close> if it leaves the buffers or dereferences a null pointer.\<close>

definition fs_exec :: "fs_call \<Rightarrow> kstate \<Rightarrow> kstate option" where
  "fs_exec c s =
     (case c of
        Open stack fname flags \<Rightarrow> map_option snd (mfs_open stack fname flags s)
      | Close fd \<Rightarrow> Some (snd (mfs_close fd s))
      | Fd_close fd \<Rightarrow> Some (snd (fd_close fd s))
      | Read fd count \<Rightarrow> map_option (snd \<circ> snd) (mfs_read fd count s)
      | Write fd buf count \<Rightarrow> map_option snd (mfs_write fd buf count s)
      | Seek fd pos whence \<Rightarrow> map_option snd (mfs_seek fd pos whence s)
      | Delete fname \<Rightarrow> map_option snd (mfs_delete fname s)
      | Sync \<Rightarrow> Some (snd (mfs_sync s))
      | List \<Rightarrow> map_option (\<lambda>_. s) (mfs_list s)
      | Filesize fname \<Rightarrow> map_option (\<lambda>_. s) (mfs_filesize fname s))"

fun fs_run :: "fs_call list \<Rightarrow> kstate \<Rightarrow> kstate option" where
  "fs_run [] s = Some s"
| "fs_run (c # cs) s = (case fs_exec c s of None \<Rightarrow> None | Some s' \<Rightarrow> fs_run cs s')"

text \<open>The caller's part: a buffer as long as the count.\<close>

fun call_ok :: "fs_call \<Rightarrow> bool" where
  "call_ok (Write fd buf count) = (unat count \<le> length buf)"
| "call_ok _ = True"

text \<open>A seek with a \<^verbatim>\<open>whence\<close> that the kernel does not know, for which \<^verbatim>\<open>mfs_seek\<close> leaves \<^verbatim>\<open>offset\<close> uninitialised.\<close>

fun unknown_seek :: "fs_call \<Rightarrow> bool" where
  "unknown_seek (Seek fd pos whence) = (whence \<notin> {SEEK_SET, SEEK_CUR, SEEK_END})"
| "unknown_seek _ = False"

lemma fs_exec_ok:
  assumes "fs_ok s" and "call_ok c" and "\<not> unknown_seek c"
  shows "\<exists>s'. fs_exec c s = Some s' \<and> fs_ok s'"
proof (cases c)
  case (Open stack fname flags)
  then show ?thesis using mfs_open_ok [OF assms(1)] by (fastforce simp: fs_exec_def)
next
  case (Read fd count)
  then show ?thesis using mfs_read_ok [OF assms(1), of fd count] by (auto simp: fs_exec_def)
next
  case (Write fd buf count)
  then show ?thesis using mfs_write_ok [OF assms(1), of count buf fd] assms(2) by (auto simp: fs_exec_def)
next
  case (Seek fd pos whence)
  then show ?thesis using mfs_seek_ok [OF assms(1), of whence fd pos] assms(3) by (auto simp: fs_exec_def)
next
  case (Delete fname)
  then show ?thesis using mfs_delete_ok [OF assms(1), of fname] by (auto simp: fs_exec_def)
next
  case List
  have "list_loop (files s) 0 (unat (filecount (root s))) \<noteq> None"
    using assms(1) by (subst list_loop_total) (auto simp: fs_ok_def kfs_ok_def)
  then show ?thesis using List assms(1) by (auto simp: fs_exec_def mfs_list_def)
next
  case (Filesize fname)
  have "kfs_ok s" using assms(1) by (simp add: fs_ok_def)
  then obtain r where "find_file fname s = Some r" using find_file_ok by blast
  then show ?thesis using Filesize assms(1) by (auto simp: fs_exec_def mfs_filesize_def)
qed (simp_all add: fs_exec_def mfs_sync_def assms(1) mfs_close_ok fd_close_ok fs_ok_write_changes)

lemma seek_not_file: "fs_exec (Seek fd pos whence) s = Some s' \<Longrightarrow> whence \<notin> {SEEK_SET, SEEK_CUR, SEEK_END} \<Longrightarrow> s' = s"
  by (auto simp: fs_exec_def mfs_seek_def Let_def split: option.splits if_splits Option.bind_splits)

lemma fs_run_ok:
  assumes "fs_ok s" and "list_all call_ok cs"
  shows "(\<exists>s'. fs_run cs s = Some s' \<and> fs_ok s') \<or>
    (\<exists>cs1 c cs2 s1. cs = cs1 @ c # cs2 \<and> fs_run cs1 s = Some s1 \<and> fs_ok s1 \<and> unknown_seek c \<and> fs_exec c s1 = None)"
  using assms
proof (induction cs arbitrary: s)
  case (Cons c cs)
  show ?case
  proof (cases "fs_exec c s")
    case None
    then have "unknown_seek c" using Cons.prems fs_exec_ok [of s c] by auto
    then show ?thesis using None Cons.prems(1) by (intro disjI2 exI [of _ "[]"]) auto
  next
    case (Some s1)
    have "fs_ok s1"
    proof (cases "unknown_seek c")
      case True
      then obtain fd pos whence where "c = Seek fd pos whence" "whence \<notin> {SEEK_SET, SEEK_CUR, SEEK_END}"
        by (cases c) auto
      then have "s1 = s" using Some seek_not_file [of fd pos whence s s1] by simp
      then show ?thesis using Cons.prems(1) by simp
    next
      case False
      then show ?thesis using Some Cons.prems fs_exec_ok [of s c] by auto
    qed
    with Cons.IH [of s1] Cons.prems(2) consider s' where "fs_run cs s1 = Some s'" "fs_ok s'"
      | cs1 d cs2 s2 where "cs = cs1 @ d # cs2" "fs_run cs1 s1 = Some s2" "fs_ok s2" "unknown_seek d" "fs_exec d s2 = None"
      by auto
    then show ?thesis
    proof cases
      case 1
      then show ?thesis using Some by simp
    next
      case 2
      then show ?thesis using Some by (intro disjI2 exI [of _ "c # cs1"] exI [of _ d] exI [of _ cs2] exI [of _ s2]) simp
    qed
  qed
qed simp

text \<open>
  C14: the only undefined behaviour of the file layer. Mounted from any image with a plausible root
  sector, whatever the rest of the disk holds (broken or cyclic block chains, pointers into the
  bitmap, stale names), a sequence of open, close, read, write, seek, delete, sync, list and size
  calls, in any order and on any descriptors, with write buffers as long as their counts, either
  stays inside the kernel's buffers and tables, every call returns, and the invariant of the file
  system holds at the end; or it comes, with the invariant, to a seek with a \<^verbatim>\<open>whence\<close> other than
  the kernel's 1, 2 and 3, which uses an uninitialised variable.
\<close>

theorem fs_calls_never_stuck:
  assumes "mountable img" and "buffers_ok s" and "list_all call_ok cs"
  defines "s0 \<equiv> snd (fd_init (snd (mfs_init (Some img) s)))"
  shows "(\<exists>s'. fs_run cs s0 = Some s' \<and> fs_ok s') \<or>
    (\<exists>cs1 c cs2 s1. cs = cs1 @ c # cs2 \<and> fs_run cs1 s0 = Some s1 \<and> fs_ok s1 \<and> unknown_seek c \<and> fs_exec c s1 = None)"
  unfolding s0_def by (rule fs_run_ok [OF conjunct2 [OF mfs_init_ok [OF assms(1,2)]] assms(3)])

section \<open>An example volume\<close>

definition demo_root :: MFS_root where
  "demo_root = \<lparr>jmp = [0, 0, 0], checksum = CHECKSUM, total_sectors = 8, bitmap_sector = 1,
     fentry_sector = 2, data_start_sector = 3, max_files = 24, filecount = 0\<rparr>"

definition demo_image :: "u8 list" where
  "demo_image = encode_root demo_root @ replicate (8 * BLOCK_SIZE - 16) 0"

definition boot_kstate :: kstate where
  "boot_kstate =
     \<lparr>kdisk = [], root = demo_root\<lparr>checksum := 0\<rparr>, root_rest = replicate 496 0,
      block_bitmap = replicate 512 0, files = replicate 24 zero_file, files_rest = replicate 8 0,
      tempbuf = replicate 512 0, fd_table = \<lambda>_. zero_entry, fd_count = 0\<rparr>"

lemma demo_image_mountable: "mountable demo_image"
proof -
  have "take BLOCK_SIZE demo_image = encode_root demo_root @ replicate 496 0"
    by (simp add: demo_image_def demo_root_def encode_root_def mfs_consts)
  then have "decode_root (sector demo_image 0) = demo_root"
    by (simp add: sector_def decode_encode_root demo_root_def)
  moreover have "length demo_image = 8 * BLOCK_SIZE"
    by (simp add: demo_image_def length_encode_root demo_root_def mfs_consts)
  ultimately show ?thesis by (simp add: mountable_def demo_root_def mfs_consts)
qed

lemma boot_kstate_buffers: "buffers_ok boot_kstate"
  by (simp add: buffers_ok_def boot_kstate_def root_buf_def files_buf_def length_encode_root demo_root_def
      length_encode_files zero_file_def mfs_consts)

theorem fs_calls_never_stuck_witness:
  "\<exists>s'. fs_run [Open 0 [0x41] (O_CREAT OR O_RDWR), Write 3 [1, 2, 3] 3, Seek 3 1 SEEK_SET, Delete [0x41], Read 3 5, Close 3]
      (snd (fd_init (snd (mfs_init (Some demo_image) boot_kstate)))) = Some s' \<and> fs_ok s'"
proof -
  let ?cs = "[Open 0 [0x41] (O_CREAT OR O_RDWR), Write 3 [1, 2, 3] 3, Seek 3 1 SEEK_SET, Delete [0x41], Read 3 5, Close 3]"
  have "\<not> unknown_seek c" if "?cs = cs1 @ c # cs2" for cs1 c cs2
  proof -
    have "c \<in> set ?cs" unfolding that by simp
    then show ?thesis by auto
  qed
  moreover have "list_all call_ok ?cs" by simp
  ultimately show ?thesis
    using fs_calls_never_stuck [OF demo_image_mountable boot_kstate_buffers, of ?cs] by blast
qed

end
