(* ===== verification/Mfs_File.thy ===== *)
theory Mfs_File
  imports Mfs_Inv
begin

text \<open>
  Files as byte sequences: the loops. A file of MFS is a chain of blocks with 508 data bytes each,
  walked through the cursor of a descriptor. The loops of \<^verbatim>\<open>mfs_read\<close> and
  \<^verbatim>\<open>mfs_write\<close> are shown to act on the plain list of the file's bytes, and a write to
  leave the blocks of other files alone.
\<close>

section \<open>Blocks of a chain\<close>

lemma unat_add_u16: "unat (a :: u16) + unat b < 0x10000 \<Longrightarrow> unat (a + b) = unat a + unat b"
  by (simp add: unat_word_ariths)

text \<open>The blocks a chain visits, at most \<open>k\<close> of them.\<close>

fun follow :: "(u16 \<Rightarrow> u8 list) \<Rightarrow> u16 \<Rightarrow> nat \<Rightarrow> u16 \<Rightarrow> u16 list" where
  "follow rd n 0 b = []"
| "follow rd n (Suc k) b = (if b = 0 \<or> n \<le> b then [] else b # follow rd n k (next_block (rd b)))"

lemma follow_chain: "chain rd n b bs \<Longrightarrow> length bs \<le> k \<Longrightarrow> follow rd n k b = bs"
proof (induction bs arbitrary: b k)
  case Nil
  then show ?case by (cases k) auto
next
  case (Cons x xs)
  then obtain j where "k = Suc j" by (cases k) auto
  then show ?case using Cons by auto
qed

lemma distinct_below: "distinct (bs :: u16 list) \<Longrightarrow> \<forall>b\<in>set bs. b < n \<Longrightarrow> length bs \<le> unat n"
proof -
  assume d: "distinct bs" and b: "\<forall>b\<in>set bs. b < n"
  have "distinct (map unat bs)" using d by (simp add: distinct_map inj_on_def word_unat_eq_iff)
  moreover have "set (map unat bs) \<subseteq> {..<unat n}" using b by (auto simp: word_less_nat_alt)
  ultimately have "length (map unat bs) \<le> card {..<unat n}"
    by (metis card_mono distinct_card finite_lessThan)
  then show ?thesis by simp
qed

text \<open>Appending a fresh block \<open>c\<close> behind the last one.\<close>

lemma chain_extend:
  assumes "chain rd n b bs" and "bs \<noteq> []" and "\<And>x. x \<in> set (butlast bs) \<Longrightarrow> next_block (rd' x) = next_block (rd x)"
    and "next_block (rd' (last bs)) = c" and "c \<noteq> 0" "c < n" and "next_block (rd' c) = 0"
  shows "chain rd' n b (bs @ [c])"
  using assms(1-4)
proof (induction bs arbitrary: b)
  case (Cons x xs)
  then show ?case using assms(5-7) by (cases xs) auto
qed simp

lemma drop_chain_bytes:
  assumes "\<And>x. x \<in> set bs \<Longrightarrow> length (rd x) = BLOCK_SIZE"
  shows "drop (BLOCK_DATA * k + off) (chain_bytes rd bs) = drop off (chain_bytes rd (drop k bs))"
  using assms
proof (induction bs arbitrary: k)
  case (Cons x xs)
  then have "length (block_data (rd x)) = BLOCK_DATA" by (simp add: block_data_def mfs_consts)
  then show ?case using Cons by (cases k) (simp_all add: add.assoc)
qed simp

lemma length_chain_data:
  "(\<And>x. x \<in> set bs \<Longrightarrow> length (rd x) = BLOCK_SIZE) \<Longrightarrow> length (chain_bytes rd bs) = BLOCK_DATA * length bs"
  by (induction bs) (simp_all add: block_data_def mfs_consts)

section \<open>The cursor\<close>

text \<open>
  A descriptor's cursor stands at its position: the offset is the position in the block, and from
  the current block the chain continues with the rest of the blocks.
\<close>

definition cursor_at :: "(u16 \<Rightarrow> u8 list) \<Rightarrow> u16 \<Rightarrow> u16 list \<Rightarrow> fd_entry \<Rightarrow> bool" where
  "cursor_at rd n bs e \<longleftrightarrow>
     unat (e_block_offset e) = unat (e_pos e) mod BLOCK_DATA \<and>
     chain rd n (e_cur_block e) (drop (unat (e_pos e) div BLOCK_DATA) bs)"

lemma BLOCK_DATA_pos: "0 < BLOCK_DATA"
  by (simp add: mfs_consts)

text \<open>Inside the file the current block is one of the file's, with room behind the offset.\<close>

lemma cursor_inside:
  assumes "cursor_at rd n bs e" and "unat (e_pos e) < BLOCK_DATA * length bs"
  obtains k xs where "k = unat (e_pos e) div BLOCK_DATA" and "k < length bs"
    and "drop k bs = e_cur_block e # xs" and "bs ! k = e_cur_block e" and "drop (Suc k) bs = xs"
    and "e_cur_block e \<noteq> 0" "e_cur_block e < n"
    and "chain rd n (next_block (rd (e_cur_block e))) xs"
    and "e_block_offset e < data_size"
    and "unat (e_pos e) = BLOCK_DATA * k + unat (e_block_offset e)"
proof -
  let ?k = "unat (e_pos e) div BLOCK_DATA"
  have k: "?k < length bs" using assms(2) by (simp add: less_mult_imp_div_less mult.commute)
  then have d: "drop ?k bs = bs ! ?k # drop (Suc ?k) bs" by (rule Cons_nth_drop_Suc [symmetric])
  have c: "chain rd n (e_cur_block e) (bs ! ?k # drop (Suc ?k) bs)"
    using assms(1) d by (simp add: cursor_at_def)
  have "unat (e_block_offset e) < BLOCK_DATA"
    using assms(1) mod_less_divisor [OF BLOCK_DATA_pos] by (simp add: cursor_at_def)
  then have "e_block_offset e < data_size" by (simp add: word_less_nat_alt data_size_unat)
  then show thesis
    using that [of ?k "drop (Suc ?k) bs"] k d c assms(1) mult_div_mod_eq [of BLOCK_DATA "unat (e_pos e)"]
    by (auto simp: cursor_at_def)
qed

text \<open>Moving \<open>t\<close> bytes on inside the block, or to the start of the next block.\<close>

lemma div_mod_advance:
  assumes "p = BLOCK_DATA * k + off" and "off + t \<le> BLOCK_DATA"
  shows "(p + t) div BLOCK_DATA = (if off + t = BLOCK_DATA then Suc k else k)"
    and "(p + t) mod BLOCK_DATA = (if off + t = BLOCK_DATA then 0 else off + t)"
proof -
  have p: "p + t = (off + t) + BLOCK_DATA * k" using assms(1) by simp
  show "(p + t) div BLOCK_DATA = (if off + t = BLOCK_DATA then Suc k else k)"
    using assms(2) BLOCK_DATA_pos unfolding p by simp
  show "(p + t) mod BLOCK_DATA = (if off + t = BLOCK_DATA then 0 else off + t)"
    using assms(2) unfolding p by simp
qed

lemma cursor_advance:
  assumes "cursor_at rd n bs e" and "unat (e_pos e) < BLOCK_DATA * length bs"
    and "t \<le> data_size - e_block_offset e" and "unat (e_pos e) + unat t < 0x10000"
    and "e_pos e' = e_pos e + t"
    and "data_size \<le> e_block_offset e + t \<Longrightarrow> e_block_offset e' = 0 \<and> e_cur_block e' = next_block (rd (e_cur_block e))"
    and "\<not> data_size \<le> e_block_offset e + t \<Longrightarrow> e_block_offset e' = e_block_offset e + t \<and> e_cur_block e' = e_cur_block e"
  shows "cursor_at rd n bs e'"
proof -
  from cursor_inside [OF assms(1,2)] obtain k xs where k: "k = unat (e_pos e) div BLOCK_DATA"
    "drop k bs = e_cur_block e # xs" "drop (Suc k) bs = xs" "e_cur_block e \<noteq> 0" "e_cur_block e < n"
    "chain rd n (next_block (rd (e_cur_block e))) xs" "e_block_offset e < data_size"
    and p: "unat (e_pos e) = BLOCK_DATA * k + unat (e_block_offset e)" by metis
  note fits = copy_fits [OF k(7) assms(3)]
  have pos: "unat (e_pos e') = unat (e_pos e) + unat t"
    using assms(4,5) by (simp add: unat_word_ariths)
  have le: "unat (e_block_offset e) + unat t \<le> BLOCK_DATA"
    using fits(1) by (simp add: mfs_consts)
  note adv = div_mod_advance [OF p le]
  show ?thesis
  proof (cases "data_size \<le> e_block_offset e + t")
    case True
    then have "unat (e_block_offset e) + unat t = BLOCK_DATA"
      using fits(2) le by (simp add: word_le_nat_alt data_size_unat)
    then show ?thesis using adv pos assms(6) [OF True] k by (simp add: cursor_at_def)
  next
    case False
    then have "unat (e_block_offset e) + unat t \<noteq> BLOCK_DATA"
      using fits(2) by (simp add: word_le_nat_alt data_size_unat)
    then show ?thesis using adv pos assms(7) [OF False] k fits(2) by (simp add: cursor_at_def)
  qed
qed

section \<open>Reading\<close>

lemma get16_next: "get16 b 1 = next_block b"
  by (simp add: next_block_def)

text \<open>The loop of \<^verbatim>\<open>mfs_read\<close> appends the requested bytes of the file to its output.\<close>

lemma read_loop_content:
  assumes "\<And>x. x \<in> set bs \<Longrightarrow> has_sector d x" and "cursor_at (sector d) n bs e" and "length tb = BLOCK_SIZE"
    and "unat sz \<le> BLOCK_DATA * length bs" and "e_pos e \<le> sz"
  shows "\<exists>e' tb'. read_loop d n sz remaining e tb out =
      Some (e', tb', out @ take (unat remaining) (drop (unat (e_pos e)) (take (unat sz) (chain_bytes (sector d) bs)))) \<and>
    cursor_at (sector d) n bs e' \<and> length tb' = BLOCK_SIZE \<and>
    unat (e_pos e') = min (unat (e_pos e) + unat remaining) (unat sz) \<and>
    e_type e' = e_type e \<and> e_flags e' = e_flags e \<and> e_file e' = e_file e \<and> e_prev_block e' = e_prev_block e"
  using assms
proof (induction d n sz remaining e tb out rule: read_loop.induct)
  case (1 d n sz remaining e tb out)
  let ?cb = "chain_bytes (sector d) bs" and ?p = "unat (e_pos e)"
  show ?case
  proof (cases "0 < remaining \<and> e_pos e < sz")
    case False
    then have "read_loop d n sz remaining e tb out = Some (e, tb, out)"
      by (subst read_loop.simps) auto
    moreover have "take (unat remaining) (drop ?p (take (unat sz) ?cb)) = []" "?p = min (?p + unat remaining) (unat sz)"
      using False 1(6) by (auto simp: word_less_nat_alt word_le_nat_alt)
    ultimately show ?thesis using 1 by simp
  next
    case inside: True
    then have psz: "?p < unat sz" by (simp add: word_less_nat_alt)
    then have pl: "?p < BLOCK_DATA * length bs" using 1(5) by simp
    from cursor_inside [OF 1(3) pl] obtain k xs where k: "drop k bs = e_cur_block e # xs"
      "e_cur_block e \<noteq> 0" "e_cur_block e < n" "e_block_offset e < data_size" "?p = BLOCK_DATA * k + unat (e_block_offset e)"
      by metis
    then have True: "0 < remaining \<and> e_cur_block e \<noteq> 0 \<and> e_cur_block e < n \<and> e_pos e < sz" using inside by simp
    have mem: "e_cur_block e \<in> set bs" using k(1) by (metis in_set_dropD list.set_intros(1))
    let ?av = "data_size - e_block_offset e"
    let ?t1 = "if remaining < ?av then remaining else ?av"
    let ?t = "if sz - e_pos e < ?t1 then sz - e_pos e else ?t1"
    let ?tb1 = "sector d (e_cur_block e)"
    let ?e1 = "e\<lparr>e_pos := e_pos e + ?t, e_block_offset := e_block_offset e + ?t\<rparr>"
    let ?e2 = "if data_size \<le> e_block_offset ?e1 then ?e1\<lparr>e_block_offset := 0, e_cur_block := get16 ?tb1 1\<rparr> else ?e1"
    let ?chunk = "take (unat ?t) (drop (4 + unat (e_block_offset e)) ?tb1)"
    have tb1: "disk_read d (e_cur_block e) tb = ?tb1" "length ?tb1 = BLOCK_SIZE"
      using disk_read_sector [OF 1(2) [OF mem] 1(4)] image.length_rd [OF 1(2) [OF mem]] by simp_all
    have tle: "?t \<le> ?av" "?t \<le> remaining" "?t \<le> sz - e_pos e" by auto
    note fits = copy_fits [OF k(4) tle(1)]
    have szp: "unat (sz - e_pos e) = unat sz - ?p" using psz by (simp add: unat_sub word_le_nat_alt)
    have tn: "unat ?t \<le> unat remaining" "?p + unat ?t \<le> unat sz"
      using tle(2,3) szp psz by (simp_all add: word_le_nat_alt)
    have step: "read_loop d n sz remaining e tb out = read_loop d n sz (remaining - ?t) ?e2 ?tb1 (out @ ?chunk)"
      using True fits(1) tb1(1) by (subst read_loop.simps) (simp add: Let_def not_less)
    have lt: "?p + unat ?t < 0x10000" using tn(2) unat_u16_less [of sz] by linarith
    have cur: "cursor_at (sector d) n bs ?e2"
      by (rule cursor_advance [OF 1(3) pl tle(1) lt]) (auto simp: next_block_def)
    have "e_pos ?e2 = e_pos e + ?t" by simp
    then have pos2: "unat (e_pos ?e2) = ?p + unat ?t" by (simp only: unat_add_u16 [OF lt])
    have "drop ?p ?cb = drop (unat (e_block_offset e)) (block_data ?tb1) @ chain_bytes (sector d) xs"
      using drop_chain_bytes [of bs "sector d" k "unat (e_block_offset e)"] image.length_rd [OF 1(2)] k fits(1) tb1(2)
      by (simp add: block_data_def mfs_consts)
    then have chunk: "?chunk = take (unat ?t) (drop ?p ?cb)"
      using fits(1) tb1(2) by (simp add: block_data_def mfs_consts add.commute)
    have split: "take (unat remaining) (drop ?p (take (unat sz) ?cb)) =
        ?chunk @ take (unat (remaining - ?t)) (drop (unat (e_pos ?e2)) (take (unat sz) ?cb))"
    proof -
      have r: "unat remaining = unat ?t + unat (remaining - ?t)" using tle(2) tn(1) by (simp add: unat_sub)
      have "take (unat ?t) (drop ?p (take (unat sz) ?cb)) = ?chunk"
        unfolding chunk using tn(2) by (simp add: drop_take)
      then show ?thesis unfolding r take_add pos2 by (simp add: add.commute)
    qed
    have le2: "e_pos ?e2 \<le> sz" unfolding word_le_nat_alt [of "e_pos ?e2"] pos2 by (rule tn(2))
    have fit: "\<not> BLOCK_SIZE < 4 + unat (e_block_offset e) + unat ?t" using fits(1) by simp
    note IH = 1(1) [OF True refl refl refl refl refl refl fit refl refl, unfolded tb1(1), OF 1(2) cur tb1(2) 1(5) le2]
    have rem: "unat (e_pos ?e2) + unat (remaining - ?t) = ?p + unat remaining"
      using tle(2) tn(1) pos2 by (simp add: unat_sub)
    show ?thesis unfolding step split using IH rem by (auto simp: append.assoc)
  qed
qed

section \<open>A file and its bytes\<close>

definition marked :: "kstate \<Rightarrow> u16 \<Rightarrow> bool" where
  "marked s b \<longleftrightarrow> b < total_sectors (root s) \<and> bitmap_get (block_bitmap s) b = Some True"

definition disk_full :: "kstate \<Rightarrow> bool" where
  "disk_full s \<longleftrightarrow> (\<forall>b. data_start_sector (root s) \<le> b \<and> b < total_sectors (root s) \<longrightarrow> marked s b)"

text \<open>\<open>file_with s i bs\<close>: file \<open>i\<close> occupies exactly the blocks \<open>bs\<close>, marked in the bitmap.\<close>

definition file_with :: "kstate \<Rightarrow> nat \<Rightarrow> u16 list \<Rightarrow> bool" where
  "file_with s i bs \<longleftrightarrow> i < FENTRY_COUNT \<and>
     chain (sector (kdisk s)) (total_sectors (root s)) (f_block (files s ! i)) bs \<and> distinct bs \<and>
     (\<forall>b\<in>set bs. marked s b) \<and> unat (f_size (files s ! i)) \<le> BLOCK_DATA * length bs"

definition file_bytes :: "kstate \<Rightarrow> nat \<Rightarrow> u16 list \<Rightarrow> u8 list" where
  "file_bytes s i bs = take (unat (f_size (files s ! i))) (chain_bytes (sector (kdisk s)) bs)"

text \<open>A descriptor positioned in the file. At the end of the last block the next write has to link
  a new block, so the previous block must be known.\<close>

definition tail_known :: "u16 list \<Rightarrow> fd_entry \<Rightarrow> bool" where
  "tail_known bs e \<longleftrightarrow> (unat (e_pos e) = BLOCK_DATA * length bs \<longrightarrow>
     e_prev_block e = (if bs = [] then 0 else last bs))"

definition open_at :: "kstate \<Rightarrow> nat \<Rightarrow> u16 list \<Rightarrow> fd_entry \<Rightarrow> bool" where
  "open_at s i bs e \<longleftrightarrow> kfs_ok s \<and> 0 < data_start_sector (root s) \<and> file_with s i bs \<and>
     cursor_at (sector (kdisk s)) (total_sectors (root s)) bs e \<and> e_pos e \<le> f_size (files s ! i)"

text \<open>What an operation on file \<open>i\<close> leaves alone: the other entries and every block in use that is
  not one of the file's. The blocks \<open>bs'\<close> of the file afterwards are old ones of the file or were
  free.\<close>

definition keeps :: "nat \<Rightarrow> u16 list \<Rightarrow> u16 list \<Rightarrow> kstate \<Rightarrow> kstate \<Rightarrow> bool" where
  "keeps i bs bs' s s' \<longleftrightarrow> kfs_ok s' \<and> root s' = root s \<and> fd_table s' = fd_table s \<and>
     (\<forall>j. j \<noteq> i \<longrightarrow> files s' ! j = files s ! j) \<and>
     (\<forall>x. marked s x \<longrightarrow> marked s' x \<and> (x \<in> set bs' \<longrightarrow> x \<in> set bs) \<and>
        (x \<notin> set bs \<longrightarrow> sector (kdisk s') x = sector (kdisk s) x))"

lemma keeps_refl: "kfs_ok s \<Longrightarrow> keeps i bs bs s s"
  by (simp add: keeps_def)

lemma keeps_trans: "keeps i bs bs1 s s1 \<Longrightarrow> keeps i bs1 bs2 s1 s2 \<Longrightarrow> keeps i bs bs2 s s2"
  by (auto simp: keeps_def)

lemma file_with_blocks:
  assumes "kfs_ok s" and "file_with s i bs" and "x \<in> set bs"
  shows "x \<noteq> 0" "x < total_sectors (root s)" "has_sector (kdisk s) x" "length (sector (kdisk s) x) = BLOCK_SIZE"
proof -
  show "x \<noteq> 0" "x < total_sectors (root s)"
    using assms(2) chain_valid [OF _ assms(3)] by (auto simp: file_with_def)
  then show "has_sector (kdisk s) x" by (simp add: kfs_has_sector [OF assms(1)])
  then show "length (sector (kdisk s) x) = BLOCK_SIZE" by (rule image.length_rd)
qed

lemma length_file_chain:
  "kfs_ok s \<Longrightarrow> file_with s i bs \<Longrightarrow> length (chain_bytes (sector (kdisk s)) bs) = BLOCK_DATA * length bs"
  using length_chain_data file_with_blocks(4) by blast

lemma length_file_bytes:
  "kfs_ok s \<Longrightarrow> file_with s i bs \<Longrightarrow> length (file_bytes s i bs) = unat (f_size (files s ! i))"
  using length_file_chain [of s i bs] by (simp add: file_bytes_def file_with_def)

lemma other_file_kept:
  assumes "keeps i bs bs' s s'" and "kfs_ok s" and "file_with s j cs" and "j \<noteq> i" and "set cs \<inter> set bs = {}"
  shows "file_with s' j cs \<and> file_bytes s' j cs = file_bytes s j cs"
proof -
  have eq: "sector (kdisk s') x = sector (kdisk s) x" if "x \<in> set cs" for x
    using that assms(1,3,5) by (auto simp: keeps_def file_with_def)
  have "files s' ! j = files s ! j" "root s' = root s" "\<forall>x\<in>set cs. marked s' x"
    using assms(1,3,4) by (auto simp: keeps_def file_with_def)
  then show ?thesis
    using assms(3) chain_cong [of cs "sector (kdisk s')" "sector (kdisk s)"] chain_bytes_cong [of cs "sector (kdisk s')" "sector (kdisk s)"] eq
    by (auto simp: file_with_def file_bytes_def)
qed

section \<open>Writing: linking a new block\<close>

lemma alloc_block_cases:
  assumes "kfs_ok s" and "0 < data_start_sector (root s)"
  obtains (full) "alloc_block s = Some (0, s)" and "disk_full s"
  | (fresh) b bm where "alloc_block s = Some (b, s\<lparr>block_bitmap := bm\<rparr>)" and "b \<noteq> 0" "b < total_sectors (root s)"
    and "\<not> marked s b" and "kfs_ok (s\<lparr>block_bitmap := bm\<rparr>)"
    and "\<And>c. c < total_sectors (root s) \<Longrightarrow> bitmap_get bm c = (if c = b then Some True else bitmap_get (block_bitmap s) c)"
    and "data_start_sector (root s) \<le> b"
proof -
  let ?free = "\<exists>b. data_start_sector (root s) \<le> b \<and> b < total_sectors (root s) \<and> bitmap_get (block_bitmap s) b = Some False"
  obtain r bm where r: "alloc_loop (data_start_sector (root s)) (total_sectors (root s)) (block_bitmap s) = Some (r, bm)"
    and spec: "if ?free
     then data_start_sector (root s) \<le> r \<and> r < total_sectors (root s) \<and> bitmap_get (block_bitmap s) r = Some False \<and>
       bitmap_set (block_bitmap s) r = Some bm \<and>
       (\<forall>b. data_start_sector (root s) \<le> b \<and> b < r \<longrightarrow> bitmap_get (block_bitmap s) b = Some True)
     else r = 0 \<and> bm = block_bitmap s"
    using alloc_loop_spec [OF kfs_bm_covers [OF assms(1)] assms(2)] by blast
  have al: "alloc_block s = Some (r, s\<lparr>block_bitmap := bm\<rparr>)" using r by (simp add: alloc_block_def)
  show thesis
  proof (cases ?free)
    case True
    note sp = spec [unfolded if_P [OF True]]
    then have "bitmap_set (block_bitmap s) r = Some bm" "r < total_sectors (root s)" by blast+
    moreover from this have "length bm = length (block_bitmap s)" by (blast dest: length_bitmap_set)
    then have "kfs_ok (s\<lparr>block_bitmap := bm\<rparr>)" using assms(1) by (simp add: kfs_ok_def)
    moreover have "r \<noteq> 0" using sp assms(2) by auto
    ultimately show thesis
      using fresh [OF al] sp bitmap.get_mark kfs_bm_covers [OF assms(1)] by (simp add: marked_def)
  next
    case False
    note sp = spec [unfolded if_not_P [OF False]]
    have "marked s b" if b: "data_start_sector (root s) \<le> b" "b < total_sectors (root s)" for b
    proof -
      obtain u where "bitmap_get (block_bitmap s) b = Some u"
        using kfs_bm_covers [OF assms(1) b(2)] bitmap.get_None by blast
      then show ?thesis using False b by (cases u) (auto simp: marked_def)
    qed
    then show thesis using full al sp by (simp add: disk_full_def)
  qed
qed

lemma fresh_block_next: "next_block fresh_block = 0"
  by (simp add: next_block_def get16_def fresh_block_def mfs_consts mk16_def)

lemma put16_next: "length b = BLOCK_SIZE \<Longrightarrow> next_block (put16 b 1 v) = v"
  by (simp add: next_block_def get16_def put16_def mfs_consts)

lemma put16_data: "block_data (put16 b 1 v) = block_data b"
  by (simp add: block_data_def put16_def)

lemma cursor_end:
  assumes "cursor_at rd n bs e" and "e_cur_block e = 0 \<or> n \<le> e_cur_block e" and "unat (e_pos e) \<le> BLOCK_DATA * length bs"
  shows "unat (e_pos e) = BLOCK_DATA * length bs" and "unat (e_block_offset e) = 0"
proof -
  have "drop (unat (e_pos e) div BLOCK_DATA) bs = []"
    using assms(1,2) by (cases "drop (unat (e_pos e) div BLOCK_DATA) bs") (auto simp: cursor_at_def)
  then have "BLOCK_DATA * length bs \<le> BLOCK_DATA * (unat (e_pos e) div BLOCK_DATA)" by simp
  then have "BLOCK_DATA * length bs \<le> unat (e_pos e)" using times_div_less_eq_dividend le_trans by blast
  then show p: "unat (e_pos e) = BLOCK_DATA * length bs" using assms(3) by simp
  show "unat (e_block_offset e) = 0" using assms(1) by (simp add: cursor_at_def p)
qed

text \<open>The links of the disk after a new block has been appended.\<close>

lemma linked_chain:
  assumes "kfs_ok s" and "file_with s i bs" and "b \<noteq> 0" "b < total_sectors (root s)" "\<not> marked s b" and "bs \<noteq> []"
    and "d1 = disk_write (kdisk s) b fresh_block"
    and "d2 = disk_write d1 (last bs) (put16 (sector d1 (last bs)) 1 b)"
  shows "has_sector d1 (last bs)" and "sector d2 b = fresh_block"
    and "\<And>x. x < total_sectors (root s) \<Longrightarrow> x \<noteq> b \<Longrightarrow> x \<noteq> last bs \<Longrightarrow> sector d2 x = sector (kdisk s) x"
    and "chain (sector d2) (total_sectors (root s)) (f_block (files s ! i)) (bs @ [b])"
    and "chain_bytes (sector d2) bs = chain_bytes (sector (kdisk s)) bs"
proof -
  have last: "last bs \<in> set bs" using assms(6) by simp
  note l = file_with_blocks [OF assms(1,2) last]
  have nb: "b \<notin> set bs" using assms(2,5) by (auto simp: file_with_def)
  have d: "distinct bs" using assms(2) by (simp add: file_with_def)
  show h1: "has_sector d1 (last bs)" unfolding assms(7) by (rule image.wr_ok [OF l(3)]) simp
  have lp: "length (put16 (sector d1 (last bs)) 1 b) = BLOCK_SIZE" using image.length_rd [OF h1] by simp
  have other: "sector d2 x = sector d1 x" if "has_sector d1 x" "x \<noteq> last bs" for x
    unfolding assms(8) using that by (intro image.rd_wr_other lp) auto
  have "has_sector d1 b" "sector d1 b = fresh_block"
    unfolding assms(7) by (intro image.wr_ok_same image.rd_wr_same; simp)+
  then show sb: "sector d2 b = fresh_block" using other last nb by metis
  show so: "sector d2 x = sector (kdisk s) x" if "x < total_sectors (root s)" "x \<noteq> b" "x \<noteq> last bs" for x
  proof -
    have h: "has_sector (kdisk s) x" using kfs_has_sector [OF assms(1) that(1)] .
    then have "has_sector d1 x" unfolding assms(7) by (rule image.wr_ok) simp
    then show ?thesis using other that h image.rd_wr_other [of "kdisk s" x b fresh_block] by (simp add: assms(7))
  qed
  have sl: "sector d2 (last bs) = put16 (sector (kdisk s) (last bs)) 1 b"
  proof -
    have "b \<noteq> last bs" using nb last by blast
    then have "sector d1 (last bs) = sector (kdisk s) (last bs)"
      unfolding assms(7) by (intro image.rd_wr_other l(3)) simp_all
    then show ?thesis using image.rd_wr_same [OF lp, of d1 "last bs"] by (simp add: assms(8))
  qed
  show "chain_bytes (sector d2) bs = chain_bytes (sector (kdisk s)) bs"
  proof -
    have "block_data (sector d2 x) = block_data (sector (kdisk s) x)" if "x \<in> set bs" for x
    proof (cases "x = last bs")
      case False
      moreover have "x \<noteq> b" using that nb by blast
      ultimately show ?thesis using so [OF file_with_blocks(2) [OF assms(1,2) that]] by simp
    qed (simp add: sl put16_data [simplified])
    then show ?thesis by (simp add: chain_bytes_def cong: map_cong)
  qed
  show "chain (sector d2) (total_sectors (root s)) (f_block (files s ! i)) (bs @ [b])"
  proof (rule chain_extend [OF _ assms(6) _ _ assms(3,4)])
    show "chain (sector (kdisk s)) (total_sectors (root s)) (f_block (files s ! i)) bs"
      using assms(2) by (simp add: file_with_def)
    show "next_block (sector d2 (last bs)) = b" using sl put16_next [OF l(4)] by simp
    show "next_block (sector d2 b) = 0" by (simp add: sb fresh_block_next)
    fix x assume x: "x \<in> set (butlast bs)"
    then have "x \<noteq> last bs" using d assms(6) by (metis distinct_butlast not_distinct_conv_prefix append_butlast_last_id)
    then show "next_block (sector d2 x) = next_block (sector (kdisk s) x)"
      using so x nb file_with_blocks(2) [OF assms(1,2)] by (metis in_set_butlastD)
  qed
qed

text \<open>The allocation at the head of the write loop.\<close>

text \<open>A block is allocated and linked behind the last one, or becomes the first one.\<close>

lemma extend_chain_links:
  assumes "kfs_ok s" and "file_with s i bs" and "i < FENTRY_COUNT"
    and "e_cur_block e = 0 \<or> total_sectors (root s) \<le> e_cur_block e" and "e_prev_block e = (if bs = [] then 0 else last bs)"
    and b: "alloc_block s = Some (b, s\<lparr>block_bitmap := bm\<rparr>)" "b \<noteq> 0" "b < total_sectors (root s)" "\<not> marked s b"
      "kfs_ok (s\<lparr>block_bitmap := bm\<rparr>)"
  obtains s' where "extend_chain i e s = Some (Some (e\<lparr>e_cur_block := b, e_block_offset := 0\<rparr>), s')" "kfs_ok s'" "root s' = root s"
    "fd_table s' = fd_table s" "block_bitmap s' = bm" "f_size (files s' ! i) = f_size (files s ! i)"
    "\<forall>j. j \<noteq> i \<longrightarrow> files s' ! j = files s ! j" "sector (kdisk s') b = fresh_block"
    "\<forall>x. x < total_sectors (root s) \<and> x \<noteq> b \<and> x \<notin> set bs \<longrightarrow> sector (kdisk s') x = sector (kdisk s) x"
    "chain (sector (kdisk s')) (total_sectors (root s)) (f_block (files s' ! i)) (bs @ [b])"
    "chain_bytes (sector (kdisk s')) bs = chain_bytes (sector (kdisk s)) bs"
proof -
  let ?d1 = "disk_write (kdisk s) b fresh_block"
  let ?s2 = "s\<lparr>block_bitmap := bm, tempbuf := fresh_block, kdisk := ?d1\<rparr>"
  have k2: "kfs_ok ?s2" using kfs_ok_disk_write [OF b(5), of fresh_block fresh_block b] by simp
  have il: "i < length (files s)" using assms(1,3) by (simp add: kfs_ok_def)
  show thesis
  proof (cases "bs = []")
    case e: True
    let ?s' = "?s2\<lparr>files := (files ?s2)[i := (files ?s2 ! i)\<lparr>f_block := b\<rparr>]\<rparr>"
    have "kfs_ok ?s'"
      using k2 kfs_ok_name [OF k2 assms(3)] by (intro kfs_ok_file) simp_all
    moreover have "sector ?d1 b = fresh_block" by (intro image.rd_wr_same) simp
    moreover have "sector ?d1 x = sector (kdisk s) x" if "x < total_sectors (root s)" "x \<noteq> b" for x
      using that by (intro image.rd_wr_other kfs_has_sector [OF assms(1)]) auto
    ultimately show thesis
      using that [of ?s'] assms(4) b(1-3) assms(5) e il fresh_block_next by (simp add: extend_chain_def Let_def)
  next
    case False
    let ?d2 = "disk_write ?d1 (last bs) (put16 (sector ?d1 (last bs)) 1 b)"
    note lk = linked_chain [OF assms(1,2) b(2-4) False refl refl]
    have "\<forall>x. x < total_sectors (root s) \<and> x \<noteq> b \<and> x \<notin> set bs \<longrightarrow> sector ?d2 x = sector (kdisk s) x"
      using lk(3) last_in_set [OF False] by metis
    moreover have "kfs_ok (?s2\<lparr>kdisk := ?d2\<rparr>)"
      using kfs_ok_disk_write2 [OF k2, of "put16 (sector ?d1 (last bs)) 1 b" "last bs"] image.length_rd [OF lk(1)] by simp
    moreover have "last bs \<noteq> 0" using file_with_blocks(1) [OF assms(1,2)] False by simp
    ultimately show thesis
      using that [of "?s2\<lparr>kdisk := ?d2\<rparr>"] assms(4) b(1-3) assms(5) False lk(1,2,4,5) by (simp add: extend_chain_def Let_def)
  qed
qed

lemma extend_chain_content:
  assumes "open_at s i bs e" and "tail_known bs e"
  shows "\<exists>me s'. extend_chain i e s = Some (me, s') \<and>
    (case me of None \<Rightarrow> s' = s \<and> disk_full s
     | Some e' \<Rightarrow> \<exists>bs'. open_at s' i bs' e' \<and> tail_known bs' e' \<and> (\<exists>ext. bs' = bs @ ext) \<and> keeps i bs bs' s s' \<and>
         file_bytes s' i bs' = file_bytes s i bs \<and> f_size (files s' ! i) = f_size (files s ! i) \<and>
         unat (e_pos e) < BLOCK_DATA * length bs' \<and> e_pos e' = e_pos e \<and>
         e_type e' = e_type e \<and> e_flags e' = e_flags e \<and> e_file e' = e_file e)"
proof (cases "e_cur_block e = 0 \<or> total_sectors (root s) \<le> e_cur_block e")
  case False
  have o: "kfs_ok s" "file_with s i bs" "cursor_at (sector (kdisk s)) (total_sectors (root s)) bs e"
    using assms(1) by (simp_all add: open_at_def)
  have "unat (e_pos e) < BLOCK_DATA * length bs"
  proof (rule ccontr)
    assume "\<not> unat (e_pos e) < BLOCK_DATA * length bs"
    then have "length bs \<le> unat (e_pos e) div BLOCK_DATA"
      using div_le_mono [of "BLOCK_DATA * length bs" "unat (e_pos e)" BLOCK_DATA] BLOCK_DATA_pos by simp
    then show False using o(3) False by (simp add: cursor_at_def)
  qed
  then show ?thesis
    using False assms keeps_refl [OF o(1)] by (simp add: extend_chain_def) (rule exI [of _ bs], simp)
next
  case True
  have o: "kfs_ok s" "file_with s i bs" "cursor_at (sector (kdisk s)) (total_sectors (root s)) bs e"
    "0 < data_start_sector (root s)" "e_pos e \<le> f_size (files s ! i)" "i < FENTRY_COUNT"
    "unat (f_size (files s ! i)) \<le> BLOCK_DATA * length bs"
    using assms(1) by (simp_all add: open_at_def file_with_def)
  then have "unat (e_pos e) \<le> BLOCK_DATA * length bs" by (simp add: word_le_nat_alt)
  note pos = cursor_end [OF o(3) True this]
  have prev: "e_prev_block e = (if bs = [] then 0 else last bs)" using assms(2) pos by (simp add: tail_known_def)
  show ?thesis
  proof (cases rule: alloc_block_cases [OF o(1,4)])
    case 1
    then show ?thesis using True by (simp add: extend_chain_def)
  next
    case (2 b bm)
    let ?e2 = "e\<lparr>e_cur_block := b, e_block_offset := 0\<rparr>"
    have nb: "b \<notin> set bs" using o(2) 2(4) by (auto simp: file_with_def)
    have mk: "marked s' c \<longleftrightarrow> c = b \<or> marked s c"
      if "root s' = root s" "block_bitmap s' = bm" for c s'
      using that 2(3,6) by (auto simp: marked_def)
    obtain s' where ex: "extend_chain i e s = Some (Some ?e2, s')" and s': "kfs_ok s'" "root s' = root s"
        "fd_table s' = fd_table s" "block_bitmap s' = bm" "f_size (files s' ! i) = f_size (files s ! i)"
        "\<forall>j. j \<noteq> i \<longrightarrow> files s' ! j = files s ! j" "sector (kdisk s') b = fresh_block"
        "\<forall>x. x < total_sectors (root s) \<and> x \<noteq> b \<and> x \<notin> set bs \<longrightarrow> sector (kdisk s') x = sector (kdisk s) x"
        "chain (sector (kdisk s')) (total_sectors (root s)) (f_block (files s' ! i)) (bs @ [b])"
        "chain_bytes (sector (kdisk s')) bs = chain_bytes (sector (kdisk s)) bs"
      by (rule extend_chain_links [OF o(1,2,6) True prev 2(1-5)], rule that)
    have "file_with s' i (bs @ [b])"
      using s' o nb mk [OF s'(2,4)] by (auto simp: file_with_def)
    moreover have "cursor_at (sector (kdisk s')) (total_sectors (root s)) (bs @ [b]) ?e2"
      using s'(7) 2(2,3) fresh_block_next BLOCK_DATA_pos by (simp add: cursor_at_def pos)
    moreover have "file_bytes s' i (bs @ [b]) = file_bytes s i bs"
      using s'(5,10) o(7) length_file_chain [OF o(1,2)] by (simp add: file_bytes_def chain_bytes_def)
    moreover have "keeps i bs (bs @ [b]) s s'"
      using s' mk [OF s'(2,4)] 2(4) by (auto simp: keeps_def marked_def)
    moreover have "tail_known (bs @ [b]) ?e2" using pos BLOCK_DATA_pos by (simp add: tail_known_def)
    ultimately show ?thesis
      using ex s' o pos BLOCK_DATA_pos by (simp add: open_at_def) (rule exI [of _ "bs @ [b]"], simp)
  qed
qed

section \<open>Writing: one block\<close>

lemma patch_middle:
  "off + length c \<le> length B \<Longrightarrow> patch (length A + off) c (A @ B @ C) = A @ patch off c B @ C"
  by (simp add: patch_def)

lemma take_patch:
  assumes "p \<le> n" and "n \<le> length xs" and "p + length c \<le> length xs"
  shows "take (max n (p + length c)) (patch p c xs) = patch p c (take n xs)"
  using assms by (intro nth_equalityI) (auto simp: length_patch nth_patch)

lemma chain_bytes_update:
  assumes "distinct (ys @ x # zs)" and "\<And>y. y \<in> set (ys @ zs) \<Longrightarrow> rd' y = rd y"
  shows "chain_bytes rd' (ys @ x # zs) = chain_bytes rd ys @ block_data (rd' x) @ chain_bytes rd zs"
  using assms chain_bytes_cong [of ys rd' rd] chain_bytes_cong [of zs rd' rd] by (simp add: chain_bytes_def)

lemma chain_bytes_append: "chain_bytes rd (xs @ ys) = chain_bytes rd xs @ chain_bytes rd ys"
  by (simp add: chain_bytes_def)

text \<open>Changing the data of one block of the file.\<close>

lemma patch_block:
  assumes "kfs_ok s" and "file_with s i bs" and "k < length bs" and "off + length c \<le> BLOCK_DATA"
    and "x = bs ! k" and "tb = patch (4 + off) c (sector (kdisk s) x)" and "d = disk_write (kdisk s) x tb"
  shows "length tb = BLOCK_SIZE" and "next_block tb = next_block (sector (kdisk s) x)" and "sector d x = tb"
    and "\<And>y. y < total_sectors (root s) \<Longrightarrow> y \<noteq> x \<Longrightarrow> sector d y = sector (kdisk s) y"
    and "\<And>b cs. set cs \<subseteq> set bs \<Longrightarrow> chain (sector d) n b cs = chain (sector (kdisk s)) n b cs"
    and "chain_bytes (sector d) bs = patch (BLOCK_DATA * k + off) c (chain_bytes (sector (kdisk s)) bs)"
proof -
  let ?rd = "sector (kdisk s)"
  have x: "x \<in> set bs" using assms(3,5) by simp
  note xb = file_with_blocks [OF assms(1,2) x]
  show ltb: "length tb = BLOCK_SIZE" using assms(4,6) xb(4) by (simp add: length_patch mfs_consts)
  show nx: "next_block tb = next_block (?rd x)"
    using xb(4) ltb by (simp add: next_block_def get16_def assms(6) nth_patch mfs_consts)
  show sx: "sector d x = tb" unfolding assms(7) by (rule image.rd_wr_same [OF ltb])
  show so: "sector d y = ?rd y" if "y < total_sectors (root s)" "y \<noteq> x" for y
    unfolding assms(7) using that by (intro image.rd_wr_other kfs_has_sector [OF assms(1)] ltb) auto
  show "chain (sector d) n b cs = chain ?rd n b cs" if "set cs \<subseteq> set bs" for b cs
    unfolding assms(7) using that file_with_blocks(3) [OF assms(1,2)]
    by (intro image.chain_wr_same_next [OF _ ltb nx]) blast
  define ys where "ys = take k bs"
  define zs where "zs = drop (Suc k) bs"
  have sp: "bs = ys @ x # zs" using assms(3,5) id_take_nth_drop by (simp add: ys_def zs_def)
  have "length (chain_bytes ?rd ys) = BLOCK_DATA * k"
  proof -
    have "length (?rd y) = BLOCK_SIZE" if "y \<in> set ys" for y
      using that file_with_blocks(4) [OF assms(1,2) in_set_takeD] unfolding ys_def by blast
    from length_chain_data [OF this] show ?thesis using assms(3) by (simp add: ys_def)
  qed
  moreover have "block_data tb = patch off c (block_data (?rd x))"
    using assms(4,6) xb(4) by (simp add: block_data_def patch_def mfs_consts drop_take add_ac)
  moreover have "chain_bytes (sector d) bs = chain_bytes ?rd ys @ block_data tb @ chain_bytes ?rd zs"
  proof -
    have d: "distinct (ys @ x # zs)" using assms(2) unfolding file_with_def sp by blast
    have so': "sector d y = ?rd y" if y: "y \<in> set (ys @ zs)" for y
    proof (rule so)
      show "y < total_sectors (root s)" using y sp file_with_blocks(2) [OF assms(1,2), of y] by simp
      show "y \<noteq> x" using y d by auto
    qed
    show ?thesis using chain_bytes_update [OF d, of "sector d" ?rd, OF so'] unfolding sp [symmetric] sx .
  qed
  moreover have "length (block_data (?rd x)) = BLOCK_DATA" using xb(4) by (simp add: block_data_def mfs_consts)
  ultimately show "chain_bytes (sector d) bs = patch (BLOCK_DATA * k + off) c (chain_bytes ?rd bs)"
    using patch_middle [of off c "block_data (?rd x)" "chain_bytes ?rd ys" "chain_bytes ?rd zs"] assms(4)
    by (simp add: sp chain_bytes_append)
qed

text \<open>An advance to the end of the chain leaves the cursor's block behind as the previous one.\<close>

lemma tail_advance:
  assumes "k < length bs" and "bs ! k = e_cur_block e" and "unat (e_pos e) = BLOCK_DATA * k + unat (e_block_offset e)"
    and "e_block_offset e < data_size" and "w \<le> data_size - e_block_offset e" and "unat (e_pos e) + unat w < 0x10000"
  shows "tail_known bs (let e1 = e\<lparr>e_pos := e_pos e + w, e_block_offset := e_block_offset e + w\<rparr> in
    if data_size \<le> e_block_offset e1 then e1\<lparr>e_prev_block := e_cur_block e1, e_cur_block := nb, e_block_offset := 0\<rparr> else e1)"
    (is "tail_known bs ?e")
proof -
  note fits = copy_fits [OF assms(4,5)]
  have upos: "unat (e_pos e + w) = unat (e_pos e) + unat w" by (rule unat_add_u16 [OF assms(6)])
  have "e_prev_block ?e = last bs" if "unat (e_pos e) + unat w = BLOCK_DATA * length bs"
  proof -
    have "BLOCK_DATA * length bs \<le> BLOCK_DATA * k + BLOCK_DATA" using that assms(3) fits(1) by (simp add: mfs_consts)
    then have "length bs = Suc k" using assms(1) BLOCK_DATA_pos by (simp add: mfs_consts)
    moreover from this have "unat (e_block_offset e) + unat w = BLOCK_DATA" using that assms(3) by simp
    ultimately show ?thesis using assms(1,2) fits(2) last_conv_nth [of bs]
      by (force simp: Let_def word_le_nat_alt data_size_unat)
  qed
  then show ?thesis using assms(1) by (auto simp: tail_known_def Let_def upos)
qed

text \<open>The entry of a file that has grown to \<open>p\<close> bytes.\<close>

definition grown :: "nat \<Rightarrow> u16 \<Rightarrow> kstate \<Rightarrow> kstate" where
  "grown i p s = (if f_size (files s ! i) < p then s\<lparr>files := (files s)[i := (files s ! i)\<lparr>f_size := p\<rparr>]\<rparr> else s)"

lemma grown_sel:
  assumes "kfs_ok s" and "i < FENTRY_COUNT"
  shows "kfs_ok (grown i p s)" and "kdisk (grown i p s) = kdisk s" and "root (grown i p s) = root s"
    and "fd_table (grown i p s) = fd_table s" and "block_bitmap (grown i p s) = block_bitmap s"
    and "f_size (files (grown i p s) ! i) = (if f_size (files s ! i) < p then p else f_size (files s ! i))"
    and "f_block (files (grown i p s) ! i) = f_block (files s ! i)" and "j \<noteq> i \<Longrightarrow> files (grown i p s) ! j = files s ! j"
proof -
  have "i < length (files s)" using assms by (simp add: kfs_ok_def)
  then show "f_size (files (grown i p s) ! i) = (if f_size (files s ! i) < p then p else f_size (files s ! i))"
    "f_block (files (grown i p s) ! i) = f_block (files s ! i)" by (simp_all add: grown_def)
  have "kfs_ok (s\<lparr>files := (files s)[i := (files s ! i)\<lparr>f_size := p\<rparr>]\<rparr>)"
    using kfs_ok_name [OF assms] by (intro kfs_ok_file assms(1)) simp
  then show "kfs_ok (grown i p s)" using assms(1) by (simp add: grown_def)
qed (simp_all add: grown_def)

lemma write_block_content:
  assumes "open_at s i bs e" and "unat (e_pos e) < BLOCK_DATA * length bs" and "unat remaining \<le> length data"
    and "unat (e_pos e) + unat remaining < 0x10000"
  shows "\<exists>w e' s'. write_block data i remaining e s = Some (w, e', s') \<and> w \<le> remaining \<and>
    open_at s' i bs e' \<and> tail_known bs e' \<and> keeps i bs bs s s' \<and>
    file_bytes s' i bs = patch (unat (e_pos e)) (take (unat w) data) (file_bytes s i bs) \<and>
    unat (e_pos e') = unat (e_pos e) + unat w \<and>
    e_type e' = e_type e \<and> e_flags e' = e_flags e \<and> e_file e' = e_file e"
proof -
  have o: "kfs_ok s" "file_with s i bs" "cursor_at (sector (kdisk s)) (total_sectors (root s)) bs e"
    "0 < data_start_sector (root s)" "e_pos e \<le> f_size (files s ! i)" "i < FENTRY_COUNT"
    "unat (f_size (files s ! i)) \<le> BLOCK_DATA * length bs"
    using assms(1) by (simp_all add: open_at_def file_with_def)
  from cursor_inside [OF o(3) assms(2)] obtain k xs where k: "k < length bs" "bs ! k = e_cur_block e"
    "e_block_offset e < data_size" and p: "unat (e_pos e) = BLOCK_DATA * k + unat (e_block_offset e)"
    by metis
  define w where "w = (if remaining < data_size - e_block_offset e then remaining else data_size - e_block_offset e)"
  have wle: "w \<le> remaining" "w \<le> data_size - e_block_offset e" by (auto simp: w_def)
  then have wd: "unat w \<le> length data" "unat (e_pos e) + unat w < 0x10000"
    using assms(3,4) by (auto simp: word_le_nat_alt)
  note fits = copy_fits [OF k(3) wle(2)]
  define c where "c = take (unat w) data"
  have lc: "length c = unat w" using wd by (simp add: c_def)
  have fit: "unat (e_block_offset e) + length c \<le> BLOCK_DATA" using fits(1) by (simp add: lc mfs_consts)
  define tb where "tb = patch (4 + unat (e_block_offset e)) c (sector (kdisk s) (e_cur_block e))"
  define d where "d = disk_write (kdisk s) (e_cur_block e) tb"
  note pb = patch_block [OF o(1,2) k(1) fit refl refl refl, unfolded k(2), folded tb_def, folded d_def]
  have mem: "e_cur_block e \<in> set bs" using k(1,2) nth_mem by metis
  have rd: "disk_read (kdisk s) (e_cur_block e) (tempbuf s) = sector (kdisk s) (e_cur_block e)"
    using o(1) by (intro disk_read_sector file_with_blocks(3) [OF o(1,2) mem]) (simp add: kfs_ok_def)
  define e' where "e' = (let e1 = e\<lparr>e_pos := e_pos e + w, e_block_offset := e_block_offset e + w\<rparr> in
    if data_size \<le> e_block_offset e1 then e1\<lparr>e_prev_block := e_cur_block e1, e_cur_block := get16 tb 1, e_block_offset := 0\<rparr> else e1)"
  define s1 where "s1 = s\<lparr>tempbuf := tb, kdisk := d\<rparr>"
  define sz where "sz = (if f_size (files s ! i) < e_pos e + w then e_pos e + w else f_size (files s ! i))"
  define s' where "s' = grown i (e_pos e + w) s1"
  have wb: "write_block data i remaining e s = Some (w, e', s')"
    using wd fits(1) unfolding write_block_def Let_def rd
    unfolding w_def [symmetric] c_def [symmetric] tb_def [symmetric] d_def [symmetric]
    by (simp add: Let_def e'_def s'_def grown_def s1_def not_less)
  have k1: "kfs_ok s1" unfolding s1_def d_def by (rule kfs_ok_disk_write [OF o(1) pb(1,1)])
  note gs = grown_sel [OF k1 o(6), where p = "e_pos e + w", folded s'_def]
  have sel: "kdisk s' = d" "root s' = root s" "fd_table s' = fd_table s" "block_bitmap s' = block_bitmap s"
    "f_size (files s' ! i) = sz" "f_block (files s' ! i) = f_block (files s ! i)" "\<And>j. j \<noteq> i \<Longrightarrow> files s' ! j = files s ! j"
    using gs by (simp_all add: s1_def sz_def)
  have upos: "unat (e_pos e + w) = unat (e_pos e) + unat w" by (rule unat_add_u16 [OF wd(2)])
  have usz: "unat sz = max (unat (f_size (files s ! i))) (unat (e_pos e) + length c)"
    by (simp add: sz_def word_less_nat_alt upos lc max_def)
  have room: "unat (e_pos e) + length c \<le> BLOCK_DATA * length bs"
  proof -
    have "BLOCK_DATA * Suc k \<le> BLOCK_DATA * length bs" using k(1) by (intro mult_le_mono2) simp
    then show ?thesis using fit p by simp
  qed
  have fw: "file_with s' i bs"
    using o(2,7) pb(5) usz room by (simp add: file_with_def sel marked_def)
  have "cursor_at (sector (kdisk s)) (total_sectors (root s)) bs e'"
    by (rule cursor_advance [OF o(3) assms(2) wle(2) wd(2)]) (auto simp: e'_def Let_def get16_next [simplified] pb(2))
  then have cur: "cursor_at (sector d) (total_sectors (root s)) bs e'"
    using pb(5) [OF set_drop_subset] by (simp add: cursor_at_def)
  have "e_pos e + w \<le> sz" by (auto simp: sz_def)
  then have op: "open_at s' i bs e'" using gs(1) fw cur o(4) by (simp add: open_at_def sel e'_def Let_def)
  have tail: "tail_known bs e'" using tail_advance [OF k(1,2) p k(3) wle(2) wd(2)] by (simp add: e'_def Let_def)
  have kp: "keeps i bs bs s s'"
    using gs(1) sel pb(4) mem by (auto simp: keeps_def marked_def)
  have "file_bytes s' i bs = patch (unat (e_pos e)) c (file_bytes s i bs)"
    using take_patch [of "unat (e_pos e)" "unat (f_size (files s ! i))" "chain_bytes (sector (kdisk s)) bs" c]
      o(5,7) room length_file_chain [OF o(1,2)]
    by (simp add: file_bytes_def sel usz pb(6) p [symmetric] word_le_nat_alt)
  then show ?thesis
    using wb wle(1) op tail kp upos by (auto simp: c_def e'_def Let_def)
qed

section \<open>Writing: the loop\<close>

text \<open>
  The loop writes the data at the position, extending the chain as needed, unless the disk is
  full; then the bytes that found room have been written.
\<close>

lemma write_loop_content:
  assumes "open_at s i bs e" and "tail_known bs e" and "unat remaining \<le> length data"
    and "unat (e_pos e) + unat remaining < 0x10000"
  shows "\<exists>r e' s' bs' w. write_loop data i remaining written e s = Some (r, e', s') \<and> w \<le> unat remaining \<and>
    open_at s' i bs' e' \<and> tail_known bs' e' \<and> keeps i bs bs' s s' \<and> (\<exists>ext. bs' = bs @ ext) \<and>
    file_bytes s' i bs' = patch (unat (e_pos e)) (take w data) (file_bytes s i bs) \<and>
    unat (e_pos e') = unat (e_pos e) + w \<and>
    (r = written + remaining \<and> w = unat remaining \<or> r = -1 \<and> w < unat remaining \<and> disk_full s') \<and>
    e_type e' = e_type e \<and> e_flags e' = e_flags e \<and> e_file e' = e_file e"
  using assms
proof (induction data i remaining written e s arbitrary: bs rule: write_loop.induct)
  case (1 data i remaining written e s)
  have o: "kfs_ok s" "file_with s i bs" "unat (e_pos e) \<le> length (file_bytes s i bs)"
    using 1(2) by (simp_all add: open_at_def length_file_bytes word_le_nat_alt)
  show ?case
  proof (cases "0 < remaining")
    case False
    then have "remaining = 0" using word_gt_0 [of remaining] by auto
    then show ?thesis
      using 1(2,3) o by (subst write_loop.simps) (simp add: patch_Nil, rule exI [of _ bs], simp add: keeps_refl)
  next
    case True
    obtain me s1 where ex: "extend_chain i e s = Some (me, s1)" and me: "case me of None \<Rightarrow> s1 = s \<and> disk_full s
     | Some e1 \<Rightarrow> \<exists>bs1. open_at s1 i bs1 e1 \<and> tail_known bs1 e1 \<and> (\<exists>ext. bs1 = bs @ ext) \<and> keeps i bs bs1 s s1 \<and>
         file_bytes s1 i bs1 = file_bytes s i bs \<and> f_size (files s1 ! i) = f_size (files s ! i) \<and>
         unat (e_pos e) < BLOCK_DATA * length bs1 \<and> e_pos e1 = e_pos e \<and>
         e_type e1 = e_type e \<and> e_flags e1 = e_flags e \<and> e_file e1 = e_file e"
      using extend_chain_content [OF 1(2,3)] by blast
    show ?thesis
    proof (cases me)
      case None
      then have "write_loop data i remaining written e s = Some (-1, e, s)"
        using True ex me by (subst write_loop.simps) simp
      moreover have "0 < unat remaining" using True by (simp add: word_less_nat_alt)
      ultimately show ?thesis
        using 1(2,3) o me None by (simp add: patch_Nil) (rule exI [of _ bs], simp add: keeps_refl)
    next
      case (Some e1)
      then obtain bs1 ext1 where b1: "open_at s1 i bs1 e1" "bs1 = bs @ ext1" "keeps i bs bs1 s s1"
        "file_bytes s1 i bs1 = file_bytes s i bs" "unat (e_pos e) < BLOCK_DATA * length bs1"
        and e1: "e_pos e1 = e_pos e" "e_type e1 = e_type e" "e_flags e1 = e_flags e" "e_file e1 = e_file e"
        using me by auto
      obtain w e2 s2 where wb: "write_block data i remaining e1 s1 = Some (w, e2, s2)" and w: "w \<le> remaining"
        and o2: "open_at s2 i bs1 e2" "tail_known bs1 e2" "keeps i bs1 bs1 s1 s2"
        and c2: "file_bytes s2 i bs1 = patch (unat (e_pos e)) (take (unat w) data) (file_bytes s i bs)"
        and p2: "unat (e_pos e2) = unat (e_pos e) + unat w"
        and e2: "e_type e2 = e_type e" "e_flags e2 = e_flags e" "e_file e2 = e_file e"
        using write_block_content [of s1 i bs1 e1 remaining data] b1 e1 1(4,5) by auto
      have step: "write_loop data i remaining written e s =
          write_loop (drop (unat w) data) i (remaining - w) (written + w) e2 s2"
        using True ex Some wb by (subst write_loop.simps) simp
      have rw: "unat (remaining - w) = unat remaining - unat w" "unat w \<le> unat remaining"
        using w by (simp_all add: unat_sub word_le_nat_alt)
      have len: "unat (remaining - w) \<le> length (drop (unat w) data)" using rw 1(4) by simp
      have bnd: "unat (e_pos e2) + unat (remaining - w) < 0x10000" using 1(5) rw p2 by simp
      obtain r e' s' bs' v where IH: "write_loop (drop (unat w) data) i (remaining - w) (written + w) e2 s2 = Some (r, e', s')"
        "v \<le> unat (remaining - w)" "open_at s' i bs' e'" "tail_known bs' e'" "keeps i bs1 bs' s2 s'" "\<exists>ext. bs' = bs1 @ ext"
        "file_bytes s' i bs' = patch (unat (e_pos e2)) (take v (drop (unat w) data)) (file_bytes s2 i bs1)"
        "unat (e_pos e') = unat (e_pos e2) + v"
        "r = written + w + (remaining - w) \<and> v = unat (remaining - w) \<or> r = -1 \<and> v < unat (remaining - w) \<and> disk_full s'"
        "e_type e' = e_type e2 \<and> e_flags e' = e_flags e2 \<and> e_file e' = e_file e2"
        using 1(1) [OF True ex refl Some wb refl refl o2(1,2) len bnd] by blast
      have "file_bytes s' i bs' = patch (unat (e_pos e)) (take (unat w + v) data) (file_bytes s i bs)"
      proof -
        have "length (take (unat w) data) = unat w" using rw 1(4) by simp
        then show ?thesis
          unfolding IH(7) c2 p2 using patch_append [of "unat (e_pos e)" "take (unat w) data"] by (simp add: take_add)
      qed
      moreover have "keeps i bs bs' s s'" using keeps_trans b1(3) o2(3) IH(5) by blast
      moreover have "\<exists>ext. bs' = bs @ ext" using IH(6) b1(2) by auto
      moreover have "unat (e_pos e') = unat (e_pos e) + (unat w + v)" using IH(8) p2 by simp
      moreover have "r = written + remaining \<and> unat w + v = unat remaining \<or> r = -1 \<and> unat w + v < unat remaining \<and> disk_full s'"
        using IH(9) rw by auto
      ultimately show ?thesis
        unfolding step IH(1) using IH(2-4,10) e2 rw
        by (intro exI [of _ r] exI [of _ e'] exI [of _ s'] exI [of _ bs'] exI [of _ "unat w + v"]) simp
    qed
  qed
qed

end
