(* ===== verification/Mfs_Spec.thy ===== *)
theory Mfs_Spec
  imports Mfs_File
begin

text \<open>
  What the operations of the file system compute: allocation, lookup, descriptors, and what the
  metadata on disk means after a remount.
\<close>

section \<open>Allocation\<close>

text \<open>
  \<^verbatim>\<open>alloc_block\<close> is first fit. If some data block is free it returns the lowest one and
  marks exactly that block in the bitmap; otherwise it returns 0 and changes nothing.
\<close>

theorem alloc_block_first_fit:
  assumes "kfs_ok s" and "0 < data_start_sector (root s)"
  shows "\<exists>r bm. alloc_block s = Some (r, s\<lparr>block_bitmap := bm\<rparr>) \<and>
    (if \<exists>b. data_start_sector (root s) \<le> b \<and> b < total_sectors (root s) \<and> bitmap_get (block_bitmap s) b = Some False
     then data_start_sector (root s) \<le> r \<and> r < total_sectors (root s) \<and>
       bitmap_get (block_bitmap s) r = Some False \<and>
       (\<forall>b. data_start_sector (root s) \<le> b \<and> b < r \<longrightarrow> bitmap_get (block_bitmap s) b = Some True) \<and>
       (\<forall>b. b < total_sectors (root s) \<longrightarrow>
          bitmap_get bm b = (if b = r then Some True else bitmap_get (block_bitmap s) b))
     else r = 0 \<and> bm = block_bitmap s)"
    (is "\<exists>r bm. _ \<and> ?post r bm")
proof -
  let ?free = "\<exists>b. data_start_sector (root s) \<le> b \<and> b < total_sectors (root s) \<and> bitmap_get (block_bitmap s) b = Some False"
  obtain r bm where r: "alloc_loop (data_start_sector (root s)) (total_sectors (root s)) (block_bitmap s) = Some (r, bm)"
    and spec: "if \<exists>b. data_start_sector (root s) \<le> b \<and> b < total_sectors (root s) \<and> bitmap_get (block_bitmap s) b = Some False
     then data_start_sector (root s) \<le> r \<and> r < total_sectors (root s) \<and> bitmap_get (block_bitmap s) r = Some False \<and>
       bitmap_set (block_bitmap s) r = Some bm \<and>
       (\<forall>b. data_start_sector (root s) \<le> b \<and> b < r \<longrightarrow> bitmap_get (block_bitmap s) b = Some True)
     else r = 0 \<and> bm = block_bitmap s"
    using alloc_loop_spec [OF kfs_bm_covers [OF assms(1)] assms(2)] by blast
  have marks: "\<forall>b. b < total_sectors (root s) \<longrightarrow>
      bitmap_get bm b = (if b = r then Some True else bitmap_get (block_bitmap s) b)"
    if "bitmap_set (block_bitmap s) r = Some bm"
    using bitmap.get_mark [OF that] kfs_bm_covers [OF assms(1)] by blast
  have "alloc_block s = Some (r, s\<lparr>block_bitmap := bm\<rparr>)" using r by (simp add: alloc_block_def)
  moreover have "?post r bm"
  proof (cases ?free)
    case True
    note sp = spec [unfolded if_P [OF True]]
    show ?thesis unfolding if_P [OF True] using sp marks by (intro conjI) (elim conjE, assumption)+
  next
    case False
    then show ?thesis using spec by (simp only: if_False)
  qed
  ultimately show ?thesis by blast
qed

definition demo_kstate :: kstate where
  "demo_kstate = boot_kstate\<lparr>kdisk := demo_image, root := demo_root\<rparr>"

lemma demo_kstate_ok: "kfs_ok demo_kstate"
  by (simp add: kfs_ok_def demo_kstate_def boot_kstate_def demo_root_def demo_image_def length_encode_root
      zero_file_def mfs_consts)

theorem alloc_block_first_fit_witness:
  "\<exists>r bm. alloc_block demo_kstate = Some (r, demo_kstate\<lparr>block_bitmap := bm\<rparr>) \<and> r = 3"
proof -
  have ds: "data_start_sector (root demo_kstate) = 3" "total_sectors (root demo_kstate) = 8"
    by (simp_all add: demo_kstate_def demo_root_def)
  have free: "bitmap_get (block_bitmap demo_kstate) 3 = Some False"
    by (simp add: demo_kstate_def boot_kstate_def bitmap_get_def)
  have "0 < data_start_sector (root demo_kstate)" by (simp add: ds)
  from alloc_block_first_fit [OF demo_kstate_ok this] obtain r bm where
    "alloc_block demo_kstate = Some (r, demo_kstate\<lparr>block_bitmap := bm\<rparr>)" "3 \<le> r"
    "\<forall>b. 3 \<le> b \<and> b < r \<longrightarrow> bitmap_get (block_bitmap demo_kstate) b = Some True"
    unfolding ds using free by (auto split: if_splits)
  moreover have "\<not> 3 < r" using calculation(3) free by auto
  ultimately show ?thesis by (metis order.not_eq_order_implies_strict)
qed

section \<open>Lookup\<close>

text \<open>The reference: the first index below \<open>n\<close> whose entry has the name.\<close>

definition first_match :: "u8 list \<Rightarrow> file_t list \<Rightarrow> nat \<Rightarrow> nat option \<Rightarrow> bool" where
  "first_match fname fs n r \<longleftrightarrow>
     (case r of None \<Rightarrow> \<forall>i<n. \<not> same_name fname (fs ! i)
      | Some i \<Rightarrow> i < n \<and> same_name fname (fs ! i) \<and> (\<forall>j<i. \<not> same_name fname (fs ! j)))"

lemma find_loop_first:
  assumes "i + n \<le> length fs" and "\<forall>j<i. \<not> same_name fname (fs ! j)"
  shows "\<exists>r. find_loop fname fs i n = Some r \<and> first_match fname fs (i + n) r"
  using assms
proof (induction fname fs i n rule: find_loop.induct)
  case (1 fname fs i)
  then show ?case by (simp add: first_match_def)
next
  case (2 fname fs i n)
  then show ?case by (cases "same_name fname (fs ! i)") (auto simp: first_match_def less_Suc_eq)
qed

lemma block_loop_find:
  "i + n \<le> length fs \<Longrightarrow> block_loop fname fs i n =
     map_option (\<lambda>r. case r of None \<Rightarrow> 0 | Some k \<Rightarrow> f_block (fs ! k)) (find_loop fname fs i n)"
  by (induction fname fs i n rule: block_loop.induct) simp_all

lemma index_loop_find:
  "i + n \<le> length fs \<Longrightarrow> index_loop fname fs i n =
     map_option (\<lambda>r. case r of None \<Rightarrow> 0xFF | Some k \<Rightarrow> of_nat k) (find_loop fname fs i n)"
  by (induction fname fs i n rule: index_loop.induct) simp_all

text \<open>
  the three lookups agree. \<^verbatim>\<open>find_file\<close> returns the first of the \<open>filecount\<close> entries with
  the name, or none; \<^verbatim>\<open>get_file_index\<close> returns its number, which is never the error value
  0xFF, and \<^verbatim>\<open>get_file_block\<close> its first block.
\<close>

theorem lookups_agree:
  assumes "kfs_ok s"
  shows "\<exists>r. find_file fname s = Some r \<and> first_match fname (files s) (unat (filecount (root s))) r \<and>
    get_file_index fname s = Some (case r of None \<Rightarrow> 0xFF | Some i \<Rightarrow> of_nat i) \<and>
    get_file_block fname s = Some (case r of None \<Rightarrow> 0 | Some i \<Rightarrow> f_block (files s ! i)) \<and>
    (\<forall>i. r = Some i \<longrightarrow> i < 24 \<and> (of_nat i :: u8) \<noteq> 0xFF)"
proof -
  let ?n = "unat (filecount (root s))"
  have n: "0 + ?n \<le> length (files s)" "?n \<le> 24" using assms by (simp_all add: kfs_ok_def mfs_consts)
  then obtain r where r: "find_loop fname (files s) 0 ?n = Some r" "first_match fname (files s) ?n r"
    using find_loop_first [of 0 ?n "files s" fname] by auto
  have "i < 24 \<and> (of_nat i :: u8) \<noteq> 0xFF" if "r = Some i" for i
  proof -
    have "i < 24" using r(2) n(2) that by (simp add: first_match_def)
    then show ?thesis by (simp add: word_unat_eq_iff unat_of_nat)
  qed
  then show ?thesis
    using r block_loop_find [OF n(1)] index_loop_find [OF n(1)]
    by (simp add: find_file_def get_file_block_def get_file_index_def)
qed

theorem lookups_agree_witness: "\<exists>r. find_file [0x41] demo_kstate = Some r"
  using lookups_agree [OF demo_kstate_ok] by blast

text \<open>Names with and without room for the terminator.\<close>

lemma strncmp_eq_prefix:
  "0 \<notin> set xs \<Longrightarrow> length xs \<le> n \<Longrightarrow> strncmp_eq (n + k) (xs @ ys) (xs @ zs) = strncmp_eq (n + k - length xs) ys zs"
proof (induction xs arbitrary: n)
  case (Cons x xs)
  then obtain m where "n = Suc m" by (cases n) auto
  then show ?case using Cons by auto
qed simp

lemma created_name_iff:
  assumes "0 \<notin> set fname" and "length (f_name f) = MAX_FNAME_LEN" and "f_name f ! 11 = 0"
  shows "same_name fname (f\<lparr>f_name := strncpy (f_name f) fname (MAX_FNAME_LEN - 1)\<rparr>) \<longleftrightarrow> length fname \<le> 11"
proof -
  have last: "drop 11 (f_name f) = [0]"
    using assms(2,3) Cons_nth_drop_Suc [of 11 "f_name f"] by (simp add: MAX_FNAME_LEN_def)
  show ?thesis
  proof (cases "length fname \<le> 11")
    case True
    then have "strncpy (f_name f) fname 11 = fname @ 0 # replicate (11 - length fname) 0"
      by (simp add: strncpy_def last replicate_append_same [symmetric])
    moreover have "12 - length fname = Suc (11 - length fname)" using True by simp
    ultimately show ?thesis
      using True assms(1) strncmp_eq_prefix [of fname 11 1 "[0]" "0 # replicate (11 - length fname) 0"]
      by (simp add: same_name_def MAX_FNAME_LEN_def)
  next
    case False
    then have c: "strncpy (f_name f) fname 11 = take 11 fname @ [0]" by (simp add: strncpy_def last)
    have f: "fname @ [0] = take 11 fname @ (fname ! 11 # drop 12 fname @ [0])"
      using False id_take_nth_drop [of 11 fname] by simp
    have "0 \<notin> set (take 11 fname)" "length (take 11 fname) = 11" "fname ! 11 \<noteq> 0"
      using assms(1) False by (auto dest: in_set_takeD) (metis not_le nth_mem Suc_le_eq)
    then show ?thesis
      using False strncmp_eq_prefix [of "take 11 fname" 11 1 "fname ! 11 # drop 12 fname @ [0]" "[0]"]
      by (simp add: same_name_def MAX_FNAME_LEN_def c f)
  qed
qed

text \<open>
  a file can be looked up under the name it was created with exactly when the name has at most
  11 characters: \<^verbatim>\<open>mfs_open\<close> stores 11 characters of the name, the lookups compare 12.
  (The last byte of the name of a free slot is 0.)
\<close>

theorem created_name_found_iff:
  assumes "0 \<notin> set fname" and "length (f_name f) = MAX_FNAME_LEN" and "f_name f ! 11 = 0"
  shows "same_name fname (f\<lparr>f_name := strncpy (f_name f) fname (MAX_FNAME_LEN - 1)\<rparr>) \<longleftrightarrow> length fname \<le> 11"
  by (rule created_name_iff [OF assms])

theorem created_name_found_iff_witness:
  "\<not> same_name (replicate 12 0x41) (zero_file\<lparr>f_name := strncpy (f_name zero_file) (replicate 12 0x41) (MAX_FNAME_LEN - 1)\<rparr>)"
  using created_name_found_iff [of "replicate 12 0x41" zero_file]
  by (simp add: zero_file_def MAX_FNAME_LEN_def)

section \<open>Remounting\<close>

definition meta_sectors :: "MFS_root \<Rightarrow> u16 set" where
  "meta_sectors r = {0, bitmap_sector r, fentry_sector r}"

definition meta_apart :: "MFS_root \<Rightarrow> bool" where
  "meta_apart r \<longleftrightarrow> bitmap_sector r \<noteq> 0 \<and> fentry_sector r \<noteq> 0 \<and> fentry_sector r \<noteq> bitmap_sector r"

lemma write_changes_sectors:
  assumes "kfs_ok s" and "meta_apart (root s)"
  shows "sector (kdisk (write_changes s)) 0 = root_buf s" "has_sector (kdisk (write_changes s)) 0"
    and "sector (kdisk (write_changes s)) (bitmap_sector (root s)) = block_bitmap s"
      "has_sector (kdisk (write_changes s)) (bitmap_sector (root s))"
    and "sector (kdisk (write_changes s)) (fentry_sector (root s)) = files_buf s"
      "has_sector (kdisk (write_changes s)) (fentry_sector (root s))"
proof -
  let ?b = "bitmap_sector (root s)" and ?f = "fentry_sector (root s)"
  let ?d1 = "disk_write (kdisk s) 0 (root_buf s)"
  let ?d2 = "disk_write ?d1 ?b (block_bitmap s)"
  let ?d3 = "disk_write ?d2 ?f (files_buf s)"
  have d: "kdisk (write_changes s) = ?d3" by (simp add: write_changes_def)
  note l = length_root_buf [OF assms(1)] length_files_buf [OF assms(1)]
  have lb: "length (block_bitmap s) = BLOCK_SIZE" using assms(1) by (simp add: kfs_ok_def)
  have ne: "?b \<noteq> 0" "?f \<noteq> 0" "?f \<noteq> ?b" using assms(2) by (simp_all add: meta_apart_def)
  have h: "has_sector ?d1 0" "has_sector ?d2 0" "has_sector ?d2 ?b" "has_sector ?d3 0" "has_sector ?d3 ?b" "has_sector ?d3 ?f"
    by (simp_all add: image.wr_ok image.wr_ok_same l lb)
  then show "has_sector (kdisk (write_changes s)) 0" "has_sector (kdisk (write_changes s)) ?b" "has_sector (kdisk (write_changes s)) ?f"
    by (simp_all add: d)
  show "sector (kdisk (write_changes s)) 0 = root_buf s"
    using ne by (simp add: d image.rd_wr_other [OF h(2)] image.rd_wr_other [OF h(1)] image.rd_wr_same l lb)
  show "sector (kdisk (write_changes s)) ?b = block_bitmap s"
    using ne by (simp add: d image.rd_wr_other [OF h(3)] image.rd_wr_same l lb)
  show "sector (kdisk (write_changes s)) ?f = files_buf s" by (simp add: d image.rd_wr_same l)
qed

text \<open>Data blocks are not touched by the metadata.\<close>

lemma write_changes_other:
  assumes "kfs_ok s" and "has_sector (kdisk s) x" and "x \<notin> meta_sectors (root s)"
  shows "sector (kdisk (write_changes s)) x = sector (kdisk s) x"
proof -
  note l = length_root_buf [OF assms(1)] length_files_buf [OF assms(1)]
  have lb: "length (block_bitmap s) = BLOCK_SIZE" using assms(1) by (simp add: kfs_ok_def)
  have "has_sector (disk_write (kdisk s) 0 (root_buf s)) x"
    "has_sector (disk_write (disk_write (kdisk s) 0 (root_buf s)) (bitmap_sector (root s)) (block_bitmap s)) x"
    by (simp_all add: image.wr_ok assms(2) l lb)
  then show ?thesis
    using assms(2,3) by (auto simp: write_changes_def meta_sectors_def image.rd_wr l lb)
qed

text \<open>Mounting reads the metadata from its three sectors.\<close>

definition holds_metadata :: "u8 list \<Rightarrow> kstate \<Rightarrow> bool" where
  "holds_metadata d s \<longleftrightarrow> has_sector d 0 \<and> sector d 0 = root_buf s \<and>
     has_sector d (bitmap_sector (root s)) \<and> sector d (bitmap_sector (root s)) = block_bitmap s \<and>
     has_sector d (fentry_sector (root s)) \<and> sector d (fentry_sector (root s)) = files_buf s"

lemma mount_metadata:
  assumes "kfs_ok s" and "holds_metadata d s" and "checksum (root s) = CHECKSUM" and "buffers_ok t"
  shows "\<exists>t'. mfs_init (Some d) t = (0, t') \<and>
    root t' = root s \<and> block_bitmap t' = block_bitmap s \<and> files t' = files s \<and> kdisk t' = d \<and>
    tempbuf t' = tempbuf t \<and> root_rest t' = root_rest s \<and> files_rest t' = files_rest s"
proof -
  note w = assms(2) [unfolded holds_metadata_def]
  have jl: "length (jmp (root s)) = 3" "length (files s) = FENTRY_COUNT" "\<forall>f\<in>set (files s). length (f_name f) = 12"
    using assms(1) by (simp_all add: kfs_ok_def MAX_FNAME_LEN_def)
  have r: "disk_read d 0 (root_buf t) = root_buf s"
    using w assms(4) by (simp add: disk_read_sector buffers_ok_def)
  have dr: "decode_root (root_buf s) = root s" "drop 16 (root_buf s) = root_rest s"
    by (simp_all add: root_buf_def decode_encode_root length_encode_root jl)
  have b: "disk_read d (bitmap_sector (root s)) (block_bitmap t) = block_bitmap s"
    using w assms(4) by (simp add: disk_read_sector buffers_ok_def)
  have f: "disk_read d (fentry_sector (root s)) (files_buf t) = files_buf s"
    using w assms(4) by (simp add: disk_read_sector buffers_ok_def)
  have df: "decode_files FENTRY_COUNT (files_buf s) = files s" "drop (FENTRY_COUNT * FENTRY_SIZE) (files_buf s) = files_rest s"
    using decode_encode_files [OF jl(3), of "files_rest s"] length_encode_files [OF jl(3)]
    by (simp_all add: files_buf_def jl(2) mult.commute)
  have "files_buf (t\<lparr>kdisk := d, root := r, root_rest := x, block_bitmap := y\<rparr>) = files_buf t" for d r x y
    by (simp add: files_buf_def)
  then show ?thesis using assms(3) f by (simp add: mfs_init_def r dr b Let_def df)
qed

lemma remount_metadata:
  assumes "kfs_ok s" and "meta_apart (root s)" and "checksum (root s) = CHECKSUM" and "buffers_ok t"
  shows "\<exists>t'. mfs_init (Some (kdisk (write_changes s))) t = (0, t') \<and>
    root t' = root s \<and> block_bitmap t' = block_bitmap s \<and> files t' = files s \<and> kdisk t' = kdisk (write_changes s)"
proof -
  have "holds_metadata (kdisk (write_changes s)) s"
    using write_changes_sectors [OF assms(1,2)] by (simp add: holds_metadata_def)
  from mount_metadata [OF assms(1) this assms(3,4)] show ?thesis by blast
qed

text \<open>
  C18: what \<^verbatim>\<open>write_changes\<close> saves, \<^verbatim>\<open>mfs_init\<close> loads. Mounting the disk after the metadata
  has been written, whatever the kernel's buffers hold, succeeds and restores the root, the bitmap
  and the file table.
\<close>

theorem remount_restores_metadata:
  assumes "kfs_ok s" and "meta_apart (root s)" and "checksum (root s) = CHECKSUM" and "buffers_ok t"
  shows "\<exists>t'. mfs_init (Some (kdisk (write_changes s))) t = (0, t') \<and>
    root t' = root s \<and> block_bitmap t' = block_bitmap s \<and> files t' = files s \<and> kdisk t' = kdisk (write_changes s)"
  by (rule remount_metadata [OF assms])

theorem remount_restores_metadata_witness:
  "\<exists>t'. mfs_init (Some (kdisk (write_changes demo_kstate))) boot_kstate = (0, t') \<and> files t' = files demo_kstate"
  using remount_restores_metadata [OF demo_kstate_ok _ _ boot_kstate_buffers]
  by (auto simp: demo_kstate_def demo_root_def meta_apart_def)

section \<open>Deleting\<close>

lemma delete_loop_chain:
  assumes "chain (sector d) n b bs" and "distinct bs" and "\<And>x. x \<in> set bs \<Longrightarrow> has_sector d x"
    and "\<And>c. c < n \<Longrightarrow> bm_covers bm c" and "length tb = BLOCK_SIZE"
  shows "\<exists>d' bm' tb'. delete_loop n b d bm tb = Some (d', bm', tb') \<and> length tb' = BLOCK_SIZE \<and>
    (\<forall>c<n. bitmap_get bm' c = (if c \<in> set bs then Some False else bitmap_get bm c)) \<and>
    (\<forall>x\<in>set bs. has_sector d' x \<and> sector d' x = zero_block) \<and>
    (\<forall>x. has_sector d x \<longrightarrow> has_sector d' x \<and> (x \<notin> set bs \<longrightarrow> sector d' x = sector d x))"
  using assms
proof (induction bs arbitrary: b d bm tb)
  case Nil
  then have "\<not> (b \<noteq> 0 \<and> b < n)" by auto
  then have "delete_loop n b d bm tb = Some (d, bm, tb)" by (subst delete_loop.simps) auto
  then show ?case using Nil by simp
next
  case (Cons x xs)
  then have x: "b = x" "x \<noteq> 0" "x < n" "has_sector d x" "chain (sector d) n (next_block (sector d x)) xs" "x \<notin> set xs" "distinct xs"
    by auto
  let ?d1 = "disk_write d x zero_block" and ?tb1 = "sector d x"
  obtain bm1 where bm1: "bitmap_clear bm x = Some bm1" using bitmap.free_total Cons(5) [OF x(3)] by blast
  have tb1: "disk_read d x tb = ?tb1" "length ?tb1 = BLOCK_SIZE"
    using disk_read_sector [OF x(4) Cons(6)] image.length_rd [OF x(4)] by simp_all
  have step: "delete_loop n b d bm tb = delete_loop n (next_block ?tb1) ?d1 bm1 ?tb1"
    using x bm1 tb1 by (subst delete_loop.simps) (simp add: next_block_def Let_def)
  have hs: "has_sector ?d1 y" if "has_sector d y" for y by (rule image.wr_ok [OF that length_zero_block])
  have so: "sector ?d1 y = sector d y" if "has_sector d y" "y \<noteq> x" for y
    using that by (intro image.rd_wr_other length_zero_block) auto
  have ch: "chain (sector ?d1) n (next_block ?tb1) xs"
    using image.chain_wr_other(1) [of xs d x zero_block] x Cons(4) length_zero_block by simp
  have cov: "bm_covers bm1 c" if "c < n" for c using bitmap.free_covers [OF bm1] Cons(5) [OF that] by simp
  have hx: "has_sector ?d1 y" if "y \<in> set xs" for y using hs Cons(4) that by simp
  obtain d' bm' tb' where IH: "delete_loop n (next_block ?tb1) ?d1 bm1 ?tb1 = Some (d', bm', tb')" "length tb' = BLOCK_SIZE"
    "\<And>c. c < n \<Longrightarrow> bitmap_get bm' c = (if c \<in> set xs then Some False else bitmap_get bm1 c)"
    "\<And>y. y \<in> set xs \<Longrightarrow> has_sector d' y \<and> sector d' y = zero_block"
    "\<And>y. has_sector ?d1 y \<Longrightarrow> has_sector d' y \<and> (y \<notin> set xs \<longrightarrow> sector d' y = sector ?d1 y)"
    using Cons(1) [OF ch x(7) hx cov tb1(2)] by blast
  have sx: "has_sector d' x \<and> sector d' x = zero_block"
    using IH(5) [OF hs [OF x(4)]] x(6) image.rd_wr_same [OF length_zero_block] by simp
  have "bitmap_get bm' c = (if c \<in> set (x # xs) then Some False else bitmap_get bm c)" if "c < n" for c
    using IH(3) [OF that] bitmap.get_free [OF bm1 Cons(5) [OF that]] by auto
  then show ?case unfolding step IH(1) using IH(2,4,5) sx hs so by auto
qed

lemma delete_frees:
  assumes "kfs_ok s" and "find_file fname s = Some (Some i)" and "file_with s i bs"
  shows "\<exists>s'. mfs_delete fname s = Some (0, s') \<and> files s' = (files s)[i := zero_file] \<and>
    root s' = (root s)\<lparr>filecount := filecount (root s) - 1\<rparr> \<and> fd_table s' = fd_table s \<and>
    (\<forall>c<total_sectors (root s). bitmap_get (block_bitmap s') c = (if c \<in> set bs then Some False else bitmap_get (block_bitmap s) c)) \<and>
    (\<forall>j cs. j \<noteq> i \<and> file_with s j cs \<and> set cs \<inter> (set bs \<union> meta_sectors (root s)) = {} \<longrightarrow>
       file_with s' j cs \<and> file_bytes s' j cs = file_bytes s j cs)"
proof -
  let ?n = "total_sectors (root s)"
  have tb: "length (tempbuf s) = BLOCK_SIZE" using assms(1) by (simp add: kfs_ok_def)
  have ch: "chain (sector (kdisk s)) ?n (f_block (files s ! i)) bs" "distinct bs"
    using assms(3) by (simp_all add: file_with_def)
  obtain d bm tb' where dl: "delete_loop ?n (f_block (files s ! i)) (kdisk s) (block_bitmap s) (tempbuf s) = Some (d, bm, tb')"
    and bm: "\<And>c. c < ?n \<Longrightarrow> bitmap_get bm c = (if c \<in> set bs then Some False else bitmap_get (block_bitmap s) c)"
    and d: "\<And>x. has_sector (kdisk s) x \<Longrightarrow> has_sector d x \<and> (x \<notin> set bs \<longrightarrow> sector d x = sector (kdisk s) x)"
    and tb': "length tb' = BLOCK_SIZE"
    using delete_loop_chain [OF ch file_with_blocks(3) [OF assms(1,3)] kfs_bm_covers [OF assms(1)] tb] by blast
  define s1 where "s1 = s\<lparr>kdisk := d, block_bitmap := bm, tempbuf := tb', files := (files s)[i := zero_file],
           root := (root s)\<lparr>filecount := filecount (root s) - 1\<rparr>\<rparr>"
  have md: "mfs_delete fname s = Some (0, write_changes s1)" using assms(2) dl by (simp add: mfs_delete_def s1_def)
  have fc: "0 < filecount (root s)" using find_file_ok [OF assms(1), of fname] assms(2) by auto
  have k1: "kfs_ok s1"
  proof -
    obtain l: "length (kdisk s) \<le> length d" "length bm = length (block_bitmap s)"
      using delete_loop_ok [where n = ?n and b = "f_block (files s ! i)" and d = "kdisk s", OF kfs_bm_covers [OF assms(1)] tb] dl by auto
    have "unat (filecount (root s) - 1) \<le> unat (filecount (root s))"
      using fc by (simp add: unat_sub word_le_nat_alt word_less_nat_alt)
    then have "kfs_ok (s\<lparr>kdisk := d, block_bitmap := bm, tempbuf := tb', root := (root s)\<lparr>filecount := filecount (root s) - 1\<rparr>\<rparr>)" (is "kfs_ok ?s")
      using assms(1) l tb' by (simp add: kfs_ok_def)
    then have "kfs_ok (?s\<lparr>files := (files ?s)[i := zero_file]\<rparr>)"
      by (rule kfs_ok_file) (simp add: zero_file_def MAX_FNAME_LEN_def)
    then show ?thesis by (simp add: kfs_ok_def s1_def)
  qed
  have other: "file_with (write_changes s1) j cs \<and> file_bytes (write_changes s1) j cs = file_bytes s j cs"
    if j: "j \<noteq> i" "file_with s j cs" "set cs \<inter> (set bs \<union> meta_sectors (root s)) = {}" for j cs
  proof -
    have eq: "sector (kdisk (write_changes s1)) x = sector (kdisk s) x" if x: "x \<in> set cs" for x
    proof -
      have h: "has_sector (kdisk s) x" by (rule file_with_blocks(3) [OF assms(1) j(2) x])
      have "x \<notin> meta_sectors (root s1)" "x \<notin> set bs" using x j(3) by (auto simp: s1_def meta_sectors_def)
      then show ?thesis using write_changes_other [OF k1, of x] d [OF h] by (simp add: s1_def)
    qed
    have "\<forall>x\<in>set cs. marked (write_changes s1) x"
      using j(2,3) bm by (auto simp: file_with_def marked_def s1_def)
    then show ?thesis
      using j(1,2) chain_cong [of cs "sector (kdisk (write_changes s1))" "sector (kdisk s)"]
        chain_bytes_cong [of cs "sector (kdisk (write_changes s1))" "sector (kdisk s)"] eq
      by (simp add: file_with_def file_bytes_def) (simp add: s1_def)
  qed
  have "fd_table s1 = fd_table s" "files s1 = (files s)[i := zero_file]" "block_bitmap s1 = bm"
    "root s1 = (root s)\<lparr>filecount := filecount (root s) - 1\<rparr>" by (simp_all add: s1_def)
  then show ?thesis using md bm other by simp
qed

text \<open>
  C19: deleting a file zeroes its entry, decrements the count, and frees exactly its blocks in the
  bitmap. Every other file whose blocks are apart from them and from the metadata keeps its blocks
  and its bytes.
\<close>

theorem mfs_delete_frees:
  assumes "kfs_ok s" and "find_file fname s = Some (Some i)" and "file_with s i bs"
  shows "\<exists>s'. mfs_delete fname s = Some (0, s') \<and> files s' = (files s)[i := zero_file] \<and>
    root s' = (root s)\<lparr>filecount := filecount (root s) - 1\<rparr> \<and> fd_table s' = fd_table s \<and>
    (\<forall>c<total_sectors (root s). bitmap_get (block_bitmap s') c = (if c \<in> set bs then Some False else bitmap_get (block_bitmap s) c)) \<and>
    (\<forall>j cs. j \<noteq> i \<and> file_with s j cs \<and> set cs \<inter> (set bs \<union> meta_sectors (root s)) = {} \<longrightarrow>
       file_with s' j cs \<and> file_bytes s' j cs = file_bytes s j cs)"
  by (rule delete_frees [OF assms])

text \<open>
  deleting hides a file. The lookups scan the first \<open>filecount\<close> entries, but a deletion leaves
  a hole in the table: after deleting a file in front of it, the file in the last of those entries
  is no longer found, although its entry and its blocks are still there.
\<close>

theorem delete_hides_last_file:
  assumes "kfs_ok s" and "find_file a s = Some (Some i)" and "file_with s i bs"
    and "find_file b s = Some (Some j)" and "i < j" and "Suc j = unat (filecount (root s))"
    and "b \<noteq> []" and "0 \<notin> set b"
  shows "\<exists>s'. mfs_delete a s = Some (0, s') \<and> find_file b s' = Some None \<and> files s' ! j = files s ! j"
proof -
  obtain s' where s': "mfs_delete a s = Some (0, s')" "files s' = (files s)[i := zero_file]"
    "root s' = (root s)\<lparr>filecount := filecount (root s) - 1\<rparr>"
    using delete_frees [OF assms(1-3)] by blast
  have len: "unat (filecount (root s)) \<le> length (files s)" using assms(1) by (simp add: kfs_ok_def)
  have fm: "first_match b (files s) (unat (filecount (root s))) (Some j)"
    using find_loop_first [of 0 "unat (filecount (root s))" "files s" b] len assms(4) by (simp add: find_file_def)
  have n: "unat (filecount (root s) - 1) = j" using assms(6) by (simp add: unat_sub word_le_nat_alt)
  have zn: "\<not> same_name b zero_file"
    using assms(7,8) by (cases b) (auto simp: same_name_def zero_file_def MAX_FNAME_LEN_def numeral_eq_Suc)
  have none: "\<not> same_name b (files s' ! k)" if "k < j" for k
    using that fm zn assms(5,6) len by (cases "k = i") (auto simp: first_match_def s'(2))
  obtain r where r: "find_file b s' = Some r" "first_match b (files s') j r"
    using find_loop_first [of 0 j "files s'" b] len assms(6) by (auto simp: find_file_def s' n)
  then have "r = None" using none by (cases r) (auto simp: first_match_def)
  then show ?thesis using s' r assms(5) by simp
qed

section \<open>Loading programs\<close>

lemma load_loop_content:
  assumes "chain (sector d) n b bs" and "\<And>x. x \<in> set bs \<Longrightarrow> has_sector d x" and "length tb = BLOCK_SIZE"
    and "unat remaining \<le> BLOCK_DATA * length bs" and "unat remaining < 0x8000"
  shows "\<exists>tb'. load_loop d n remaining b tb out = Some (out @ take (unat remaining) (chain_bytes (sector d) bs), tb')"
  using assms
proof (induction bs arbitrary: b remaining tb out)
  case Nil
  then have "remaining = 0" by (simp add: word_unat_eq_iff)
  then show ?case using Nil by (subst load_loop.simps) simp
next
  case (Cons x xs)
  then have x: "b = x" "x \<noteq> 0" "x < n" "has_sector d x" "chain (sector d) n (next_block (sector d x)) xs" by auto
  let ?m = "min (unat remaining) BLOCK_DATA"
  have sd: "sint data_size = int BLOCK_DATA" by (simp add: data_size_def mfs_consts)
  define t where "t = (if sint data_size < sint remaining then data_size else remaining)"
  have "sint data_size < sint remaining \<longleftrightarrow> BLOCK_DATA < unat remaining"
    unfolding sd sint_small [OF Cons(6)] by (rule of_nat_less_iff)
  then have t: "unat t = ?m" by (simp add: t_def data_size_unat min_def)
  have tb1: "disk_read d x tb = sector d x" "length (sector d x) = BLOCK_SIZE"
    using disk_read_sector [OF x(4) Cons(4)] image.length_rd [OF x(4)] by simp_all
  have bd: "length (block_data (sector d x)) = BLOCK_DATA" using tb1 by (simp add: block_data_def mfs_consts)
  show ?case
  proof (cases "remaining = 0")
    case True
    then show ?thesis by (subst load_loop.simps) simp
  next
    case False
    have step: "load_loop d n remaining b tb out =
        load_loop d n (remaining - t) (next_block (sector d x)) (sector d x) (out @ take ?m (block_data (sector d x)))"
      using False x tb1 t unfolding t_def [symmetric]
      by (subst load_loop.simps) (simp add: t_def [symmetric] next_block_def block_data_def Let_def)
    have r: "unat (remaining - t) = unat remaining - ?m" using t by (simp add: unat_sub word_le_nat_alt)
    have le: "unat (remaining - t) \<le> BLOCK_DATA * length xs" "unat (remaining - t) < 0x8000"
      using Cons(5,6) r by auto
    have "has_sector d y" if "y \<in> set xs" for y using Cons(3) that by simp
    from Cons(1) [OF x(5) this tb1(2) le, of "out @ take ?m (block_data (sector d x))"] obtain tb' where
      "load_loop d n (remaining - t) (next_block (sector d x)) (sector d x) (out @ take ?m (block_data (sector d x))) =
        Some ((out @ take ?m (block_data (sector d x))) @ take (unat (remaining - t)) (chain_bytes (sector d) xs), tb')"
      by blast
    moreover have "take (unat remaining) (chain_bytes (sector d) (x # xs)) =
        take ?m (block_data (sector d x)) @ take (unat (remaining - t)) (chain_bytes (sector d) xs)"
      using bd r by (simp add: min_def)
    ultimately show ?thesis unfolding step by simp
  qed
qed

lemma load_executable_file:
  assumes "kfs_ok s" and "find_file fname s = Some r"
    and "\<And>i. r = Some i \<Longrightarrow> file_with s i (bs i) \<and> unat (f_size (files s ! i)) < 0x8000"
  shows "\<exists>s'. load_executable fname s =
      Some (case r of None \<Rightarrow> (-1, [], s) | Some i \<Rightarrow> (0, file_bytes s i (bs i), s'))"
proof -
  let ?n = "unat (filecount (root s))"
  have n: "0 + ?n \<le> length (files s)" "?n \<le> 24" using assms(1) by (simp_all add: kfs_ok_def mfs_consts)
  have fi: "get_file_index fname s = Some (case r of None \<Rightarrow> 0xFF | Some k \<Rightarrow> of_nat k)"
    using index_loop_find [OF n(1), of fname] assms(2) by (simp add: get_file_index_def find_file_def)
  show ?thesis
  proof (cases r)
    case None
    then show ?thesis using fi by (simp add: load_executable_def)
  next
    case (Some i)
    have "i < 24" using find_loop_first [OF n(1), of fname] assms(2) Some n(2) by (auto simp: find_file_def first_match_def)
    then have i: "(of_nat i :: u8) \<noteq> 0xFF" "unat (of_nat i :: u8) = i" by (simp_all add: word_unat_eq_iff unat_of_nat)
    have f: "file_with s i (bs i)" "unat (f_size (files s ! i)) < 0x8000" using assms(3) [OF Some] by blast+
    then have c: "chain (sector (kdisk s)) (total_sectors (root s)) (f_block (files s ! i)) (bs i)"
      "unat (f_size (files s ! i)) \<le> BLOCK_DATA * length (bs i)" by (simp_all add: file_with_def)
    have "length (tempbuf s) = BLOCK_SIZE" using assms(1) by (simp add: kfs_ok_def)
    from load_loop_content [OF c(1) file_with_blocks(3) [OF assms(1) f(1)] this c(2) f(2), of "[]"]
    show ?thesis using fi Some i by (auto simp: load_executable_def Let_def file_bytes_def)
  qed
qed

text \<open>
  loading a program. For a file of less than 32768 bytes \<^verbatim>\<open>load_executable\<close> stores exactly
  the file's bytes at the load address; an unknown name gives -1 and stores nothing.
\<close>

theorem load_executable_loads:
  assumes "kfs_ok s" and "find_file fname s = Some r"
    and "\<And>i. r = Some i \<Longrightarrow> file_with s i (bs i) \<and> unat (f_size (files s ! i)) < 0x8000"
  shows "\<exists>s'. load_executable fname s =
      Some (case r of None \<Rightarrow> (-1, [], s) | Some i \<Rightarrow> (0, file_bytes s i (bs i), s'))"
  by (rule load_executable_file [OF assms])

text \<open>Two files \<open>A\<close> and \<open>B\<close>, without data blocks.\<close>

definition two_files :: kstate where
  "two_files = demo_kstate\<lparr>root := demo_root\<lparr>filecount := 2\<rparr>,
     files := zero_file\<lparr>f_used := 1, f_name := 0x41 # replicate 11 0\<rparr> #
       zero_file\<lparr>f_used := 1, f_name := 0x42 # replicate 11 0\<rparr> # replicate 22 zero_file\<rparr>"

lemma two_files_ok:
  "kfs_ok two_files" "find_file [0x41] two_files = Some (Some 0)" "find_file [0x42] two_files = Some (Some 1)"
  "file_with two_files 0 []" "unat (filecount (root two_files)) = 2"
proof -
  show "kfs_ok two_files"
    using demo_kstate_ok by (simp add: kfs_ok_def two_files_def demo_kstate_def demo_root_def zero_file_def mfs_consts)
  show fc: "unat (filecount (root two_files)) = 2" by (simp add: two_files_def)
  show "find_file [0x41] two_files = Some (Some 0)" "find_file [0x42] two_files = Some (Some 1)"
    unfolding find_file_def fc
    by (simp_all add: two_files_def same_name_def MAX_FNAME_LEN_def numeral_eq_Suc)
  show "file_with two_files 0 []"
    by (simp add: file_with_def two_files_def zero_file_def mfs_consts)
qed

theorem mfs_delete_frees_witness:
  "\<exists>s'. mfs_delete [0x41] two_files = Some (0, s') \<and> files s' ! 0 = zero_file"
  using mfs_delete_frees [OF two_files_ok(1,2,4)] by (auto simp: two_files_def)

theorem delete_hides_last_file_witness:
  "\<exists>s'. mfs_delete [0x41] two_files = Some (0, s') \<and> find_file [0x42] s' = Some None"
  using delete_hides_last_file [OF two_files_ok(1,2,4,3)] two_files_ok(5) by auto

theorem load_executable_loads_witness:
  "\<exists>s'. load_executable [0x41] two_files = Some (0, [], s')"
  using load_executable_loads [OF two_files_ok(1,2), of "\<lambda>_. []"] two_files_ok(4)
  by (auto simp: file_bytes_def two_files_def zero_file_def)

end
