(* ===== verification/Kernel.thy ===== *)
theory Kernel
  imports Kstdio Mfs_Spec
begin

text \<open>
  The kernel proper (\<^verbatim>\<open>kernel/kernel.c\<close>): start-up, the loading of programs with their
  arguments, and the read and write system calls. The console messages of the start-up are not
  modelled; a kernel panic stops the machine. The areas programs are loaded to are apart from the
  kernel's own data (\<^verbatim>\<open>kernel.h\<close>).
\<close>

section \<open>State\<close>

record PIH_t =
  pih_magic :: u16
  pih_size :: u16
  pih_entry :: u16
  pih_flags :: u16
  pih_exitcode :: u16
  pih_argc :: u16
  pih_argv :: "u8 list"

record kernel =
  kfs :: kstate
  ktty :: tty
  pih :: PIH_t
  umem :: "u16 \<Rightarrow> u8"

definition ARGV_SIZE :: nat where "ARGV_SIZE = 242"
definition PIH_ARGV :: u16 where "PIH_ARGV = 0x4F0C"
definition USER_CODE_AREA :: u16 where "USER_CODE_AREA = 0x5000"
definition SHELL_CODE_AREA :: u16 where "SHELL_CODE_AREA = 0x3800"

fun store_bytes :: "u16 \<Rightarrow> u8 list \<Rightarrow> (u16 \<Rightarrow> u8) \<Rightarrow> u16 \<Rightarrow> u8" where
  "store_bytes a [] m = m"
| "store_bytes a (b # bs) m = store_bytes (a + 1) bs (m(a := b))"

text \<open>\<^verbatim>\<open>load_executable(fname, addr)\<close> with its effect on the memory.\<close>

definition load_at :: "u8 list \<Rightarrow> u16 \<Rightarrow> kernel \<Rightarrow> (u16 \<times> kernel) option" where
  "load_at fname addr k = do {
     (r, out, s) \<leftarrow> load_executable fname (kfs k);
     Some (r, k\<lparr>kfs := s, umem := store_bytes addr out (umem k)\<rparr>)
   }"

section \<open>Arguments\<close>

text \<open>
  Steps 1 and 2 of \<^verbatim>\<open>execv\<close>: copy the strings behind each other. \<open>len\<close> and the position are
  16-bit \<^verbatim>\<open>int\<close>s; \<open>None\<close> is a copy that leaves the table.
\<close>

fun copy_args :: "u8 list list \<Rightarrow> nat \<Rightarrow> u16 \<Rightarrow> u8 list \<Rightarrow> u8 list \<Rightarrow> (nat \<times> u8 list \<times> u8 list) option" where
  "copy_args [] argc strpos offsets ptrv = Some (argc, offsets, ptrv)"
| "copy_args (a # args) argc strpos offsets ptrv =
     (if argc < 16 then
        let len = of_nat (length a + 1) :: u16
        in if int (ARGV_SIZE - 16 * 2) < sint (strpos + len) then Some (argc, offsets, ptrv)
           else if ARGV_SIZE < unat strpos + unat len then None
           else copy_args args (argc + 1) (strpos + len) (offsets @ [ucast strpos])
                  (patch (unat strpos) (take (unat len) (a @ [0])) ptrv)
      else Some (argc, offsets, ptrv))"

text \<open>Step 3: the pointers at the end of the table, and the null pointer behind them.\<close>

fun set_pointers :: "nat \<Rightarrow> u8 list \<Rightarrow> u8 list \<Rightarrow> u8 list" where
  "set_pointers p [] ptrv = ptrv[p := 0, p + 1 := 0]"
| "set_pointers p (off # offsets) ptrv =
     (let addr = PIH_ARGV + ucast off
      in set_pointers (p + 2) offsets (ptrv[p := GET_LOW addr, p + 1 := GET_HIGH addr]))"

definition set_args :: "u8 list list \<Rightarrow> PIH_t \<Rightarrow> PIH_t option" where
  "set_args args h = do {
     (argc, offsets, ptrv) \<leftarrow> copy_args args 0 0 [] (replicate ARGV_SIZE 0);
     Some (h\<lparr>pih_argv := set_pointers (ARGV_SIZE - (argc + 1) * 2) offsets ptrv, pih_argc := of_nat argc\<rparr>)
   }"

text \<open>\<open>argv\<close> is \<open>None\<close> for a null pointer.\<close>

definition execv :: "u8 list \<Rightarrow> u8 list list option \<Rightarrow> kernel \<Rightarrow> (u16 \<times> kernel) option" where
  "execv fname argv k = do {
     (r, k1) \<leftarrow> load_at fname USER_CODE_AREA k;
     if r = -1 then Some (-1, k1)
     else do {
       t \<leftarrow> find_file fname (kfs k1);
       i \<leftarrow> t;
       let h = (pih k1)\<lparr>pih_size := f_size (files (kfs k1) ! i)\<rparr>;
       h' \<leftarrow> (case argv of Some args \<Rightarrow> set_args args h
             | None \<Rightarrow> Some (h\<lparr>pih_argc := 0, pih_argv := replicate ARGV_SIZE 0\<rparr>));
       Some (0, k1\<lparr>pih := h'\<rparr>)
     }
   }"

section \<open>Start-up\<close>

datatype boot = Panic | Shell_running

definition exec_init :: "u8 list \<Rightarrow> kernel \<Rightarrow> (boot option \<times> kernel) option" where
  "exec_init fname k = do {
     (r, k1) \<leftarrow> load_at fname SHELL_CODE_AREA k;
     Some (if r = -1 then None else Some Shell_running, k1)
   }"

definition SHELL_BIN :: "u8 list" where
  "SHELL_BIN = [0x53, 0x48, 0x45, 0x4C, 0x4C, 0x2E, 0x42, 0x49, 0x4E]"

definition kernel_main :: "u16 \<Rightarrow> u8 list option \<Rightarrow> kernel \<Rightarrow> (boot \<times> kernel) option" where
  "kernel_main ws drive k =
     (let k1 = k\<lparr>ktty := tty_init ws (ktty k)\<rparr>;
          (r, s) = mfs_init drive (kfs k1);
          k2 = k1\<lparr>kfs := s\<rparr>
      in if r = -1 then Some (Panic, k2)
         else let k3 = k2\<lparr>kfs := snd (fd_init (kfs k2))\<rparr>
              in if fst (fd_init (kfs k2)) = -1 then Some (Panic, k3)
                 else do {
                   (b, k4) \<leftarrow> exec_init SHELL_BIN k3;
                   Some (case b of Some x \<Rightarrow> x | None \<Rightarrow> Panic, k4)
                 })"

section \<open>System calls\<close>

text \<open>
  The descriptor is used as an index without a check: \<open>None\<close> outside the table. A write returns its
  result; a read gives what the line input or the file gives.
\<close>

definition sysc_write :: "int \<Rightarrow> u16 \<Rightarrow> u8 list \<Rightarrow> kernel \<Rightarrow> (u16 \<times> kernel) option" where
  "sysc_write fd count buf k =
     (if fd = -1 then Some (-1, k)
      else if fd < 0 \<or> int FD_MAX \<le> fd then None
      else let e = fd_table (kfs k) (nat fd) in
        if e_type e = FD_TYPE_STDOUT \<or> e_type e = FD_TYPE_STDERR
        then map_option (\<lambda>(r, t). (r, k\<lparr>ktty := t\<rparr>)) (kputslen buf count (ktty k))
        else map_option (\<lambda>(r, s). (r, k\<lparr>kfs := s\<rparr>)) (mfs_write fd buf count (kfs k)))"

datatype read_result = Read_error | Read_line getline | Read_file u16 "u8 list" kstate

definition sysc_read :: "int \<Rightarrow> u16 \<Rightarrow> u8 list \<Rightarrow> u8 list \<Rightarrow> kernel \<Rightarrow> read_result option" where
  "sysc_read fd count buf inp k =
     (if fd = -1 then Some Read_error
      else if fd < 0 \<or> int FD_MAX \<le> fd then None
      else if e_type (fd_table (kfs k) (nat fd)) = FD_TYPE_STDIN
        then Some (Read_line (kgetslen buf count inp (ktty k)))
        else map_option (\<lambda>(r, out, s). Read_file r out s) (mfs_read fd count (kfs k)))"

end
