(* ===== verification/Mfs_Access.thy ===== *)
theory Mfs_Access
  imports Mfs_File
begin

text \<open>
  Files as byte sequences: the calls. \<open>random_access\<close> is the interface of a file open for reading
  and writing, a byte list with a position; \<^verbatim>\<open>mfs_read\<close>, \<^verbatim>\<open>mfs_write\<close> and
  \<^verbatim>\<open>mfs_seek\<close> on an open descriptor implement it.
\<close>

section \<open>Seeking\<close>

lemma seek_loop_content:
  assumes "chain (sector d) n block bs" and "\<And>x. x \<in> set bs \<Longrightarrow> has_sector d x" and "length tb = BLOCK_SIZE"
    and "unat offset \<le> BLOCK_DATA * length bs" and "seek_loop d n offset block tb = (off, b, tb')"
  shows "unat off = unat offset mod BLOCK_DATA \<and> chain (sector d) n b (drop (unat offset div BLOCK_DATA) bs)"
  using assms
proof (induction d n offset block tb arbitrary: bs rule: seek_loop.induct)
  case (1 d n offset block tb)
  show ?case
  proof (cases "data_size \<le> offset \<and> block \<noteq> 0 \<and> block < n")
    case False
    then have r: "off = offset" "b = block" using 1(6) by (subst (asm) seek_loop.simps; auto)+
    have "unat offset < BLOCK_DATA"
    proof (rule ccontr)
      assume "\<not> unat offset < BLOCK_DATA"
      then have "data_size \<le> offset" by (simp add: word_le_nat_alt data_size_unat)
      moreover have "bs \<noteq> []" using \<open>\<not> unat offset < BLOCK_DATA\<close> 1(5) BLOCK_DATA_pos by auto
      then have "block \<noteq> 0 \<and> block < n" using 1(2) by (cases bs) auto
      ultimately show False using False by simp
    qed
    then show ?thesis using r 1(2) by simp
  next
    case True
    then obtain xs where bs: "bs = block # xs" "chain (sector d) n (next_block (sector d block)) xs"
      using 1(2) by (cases bs) auto
    have tb1: "disk_read d block tb = sector d block" "length (sector d block) = BLOCK_SIZE"
      using disk_read_sector [OF 1(3) 1(4), of block] image.length_rd [OF 1(3), of block] bs by simp_all
    have o: "unat (offset - data_size) = unat offset - BLOCK_DATA" "BLOCK_DATA \<le> unat offset"
      using True by (simp_all add: unat_sub word_le_nat_alt data_size_unat)
    have st: "seek_loop d n (offset - data_size) (get16 (sector d block) 1) (sector d block) = (off, b, tb')"
      using 1(6) True tb1 by (subst (asm) seek_loop.simps) (simp add: Let_def)
    have le: "unat (offset - data_size) \<le> BLOCK_DATA * length xs" using 1(5) bs o by simp
    have "unat off = unat (offset - data_size) mod BLOCK_DATA \<and>
        chain (sector d) n b (drop (unat (offset - data_size) div BLOCK_DATA) xs)"
      using 1(1) [OF True refl, unfolded tb1(1) get16_next, OF bs(2) _ tb1(2) le st [unfolded get16_next]] 1(3) bs(1) by simp
    moreover have "unat offset div BLOCK_DATA = Suc (unat (offset - data_size) div BLOCK_DATA)"
      "unat offset mod BLOCK_DATA = unat (offset - data_size) mod BLOCK_DATA"
      using o BLOCK_DATA_pos by (simp_all add: le_div_geq le_mod_geq)
    ultimately show ?thesis using bs(1) by simp
  qed
qed

section \<open>The interface\<close>

text \<open>
  A file open for reading: its bytes, a position, and what a read promises.
\<close>

locale readable =
  fixes inv :: "'s \<Rightarrow> bool" and bytes :: "'s \<Rightarrow> u8 list" and pos :: "'s \<Rightarrow> nat"
    and rd :: "u16 \<Rightarrow> 's \<Rightarrow> (u8 list \<times> 's) option"
  assumes read_law: "inv s \<Longrightarrow> \<exists>s'. rd n s = Some (take (unat n) (drop (pos s) (bytes s)), s') \<and> inv s' \<and>
      bytes s' = bytes s \<and> pos s' = min (pos s + unat n) (length (bytes s))"
    and pos_le: "inv s \<Longrightarrow> pos s \<le> length (bytes s)"
begin

text \<open>Two reads in a row return what one read of both lengths returns.\<close>

lemma read_read:
  assumes "inv s" and "unat n + unat k < 0x10000"
  shows "\<exists>xs s1 ys s2 s3. rd n s = Some (xs, s1) \<and> rd k s1 = Some (ys, s2) \<and> rd (n + k) s = Some (xs @ ys, s3) \<and>
    pos s3 = pos s2"
proof -
  obtain s1 where s1: "rd n s = Some (take (unat n) (drop (pos s) (bytes s)), s1)" "inv s1" "bytes s1 = bytes s"
    "pos s1 = min (pos s + unat n) (length (bytes s))" using read_law [OF assms(1)] by blast
  obtain s2 where s2: "rd k s1 = Some (take (unat k) (drop (pos s1) (bytes s1)), s2)"
    "pos s2 = min (pos s1 + unat k) (length (bytes s1))" using read_law [OF s1(2)] by blast
  obtain s3 where s3: "rd (n + k) s = Some (take (unat (n + k)) (drop (pos s) (bytes s)), s3)"
    "pos s3 = min (pos s + unat (n + k)) (length (bytes s))" using read_law [OF assms(1)] by blast
  have u: "unat (n + k) = unat n + unat k" by (rule unat_add_u16 [OF assms(2)])
  have "take (unat n + unat k) (drop (pos s) (bytes s)) =
      take (unat n) (drop (pos s) (bytes s)) @ take (unat k) (drop (pos s1) (bytes s))"
    unfolding take_add by (simp add: s1(4) min_def add.commute)
  then show ?thesis using s1 s2 s3 by (simp add: u min_def)
qed

end

text \<open>A file open for random access. \<open>ready\<close> says that a write may extend the file.\<close>

locale random_access = readable inv bytes pos rd
  for inv :: "'s \<Rightarrow> bool" and bytes :: "'s \<Rightarrow> u8 list" and pos :: "'s \<Rightarrow> nat"
    and rd :: "u16 \<Rightarrow> 's \<Rightarrow> (u8 list \<times> 's) option" +
  fixes ready :: "'s \<Rightarrow> bool"
    and wr :: "u8 list \<Rightarrow> 's \<Rightarrow> (u16 \<times> 's) option"
    and seek :: "u16 \<Rightarrow> 's \<Rightarrow> 's option"
  assumes write_law: "inv s \<Longrightarrow> ready s \<Longrightarrow> pos s + length data < 0xFFFF \<Longrightarrow>
      \<exists>r s' w. wr data s = Some (r, s') \<and> inv s' \<and> ready s' \<and> w \<le> length data \<and>
        bytes s' = patch (pos s) (take w data) (bytes s) \<and> pos s' = pos s + w \<and>
        (if w = length data then r = of_nat w else r = -1)"
    and seek_law: "inv s \<Longrightarrow> unat p \<le> length (bytes s) \<Longrightarrow>
      \<exists>s'. seek p s = Some s' \<and> inv s' \<and> bytes s' = bytes s \<and> pos s' = unat p"
begin

text \<open>What was written is read back.\<close>

lemma write_seek_read:
  assumes "inv s" and "ready s" and "unat n = length data" and "unat p = pos s" and "pos s + length data < 0xFFFF"
    and "wr data s = Some (n, s1)"
  shows "\<exists>s2 s3. seek p s1 = Some s2 \<and> rd n s2 = Some (data, s3) \<and> bytes s3 = patch (pos s) data (bytes s)"
proof -
  obtain r s' w where w: "wr data s = Some (r, s')" "inv s'" "w \<le> length data"
    "bytes s' = patch (pos s) (take w data) (bytes s)" "if w = length data then r = of_nat w else r = -1"
    using write_law [OF assms(1,2,5)] by blast
  have "unat (- 1 :: u16) = 0xFFFF" by (simp add: unsigned_minus_1_eq_mask mask_eq_exp_minus_1)
  then have "n \<noteq> -1" using assms(3,5) by auto
  then have eq: "s' = s1" "w = length data" using w assms(6) by (auto split: if_splits)
  have b: "bytes s1 = patch (pos s) data (bytes s)" using w(4) eq by simp
  have "unat p \<le> length (bytes s1)" using pos_le [OF assms(1)] by (simp add: b length_patch assms(4))
  from seek_law [OF w(2) [unfolded eq(1)] this] obtain s2 where s2: "seek p s1 = Some s2" "inv s2" "bytes s2 = bytes s1" "pos s2 = unat p"
    by blast
  moreover have "take (length data) (drop (pos s) (patch (pos s) data (bytes s))) = data" by (rule take_drop_patch)
  ultimately show ?thesis using read_law [OF s2(2), of n] by (auto simp: b assms(3,4))
qed

end

section \<open>Descriptors as open files\<close>

definition blocks_of :: "kstate \<Rightarrow> nat \<Rightarrow> u16 list" where
  "blocks_of s i =
     follow (sector (kdisk s)) (total_sectors (root s)) (unat (total_sectors (root s))) (f_block (files s ! i))"

definition fd_file :: "int \<Rightarrow> kstate \<Rightarrow> nat" where
  "fd_file fd s = the (e_file (fd_table s (nat fd)))"

definition fd_bytes :: "int \<Rightarrow> kstate \<Rightarrow> u8 list" where
  "fd_bytes fd s = file_bytes s (fd_file fd s) (blocks_of s (fd_file fd s))"

definition fd_pos :: "int \<Rightarrow> kstate \<Rightarrow> nat" where
  "fd_pos fd s = unat (e_pos (fd_table s (nat fd)))"

text \<open>A descriptor open for reading, on a sound file, its cursor in place.\<close>

definition fd_rinv :: "int \<Rightarrow> kstate \<Rightarrow> bool" where
  "fd_rinv fd s \<longleftrightarrow> fs_ok s \<and> fd_get fd = Some (nat fd) \<and> e_type (fd_table s (nat fd)) = FD_TYPE_FILE \<and>
     e_flags (fd_table s (nat fd)) AND FD_FLAGS_READ \<noteq> 0 \<and>
     e_file (fd_table s (nat fd)) = Some (fd_file fd s) \<and>
     open_at s (fd_file fd s) (blocks_of s (fd_file fd s)) (fd_table s (nat fd))"

text \<open>A descriptor open for reading and writing.\<close>

definition fd_inv :: "int \<Rightarrow> kstate \<Rightarrow> bool" where
  "fd_inv fd s \<longleftrightarrow> fs_ok s \<and> fd_get fd = Some (nat fd) \<and> e_type (fd_table s (nat fd)) = FD_TYPE_FILE \<and>
     e_flags (fd_table s (nat fd)) = FD_FLAGS_READ OR FD_FLAGS_WRITE \<and>
     e_file (fd_table s (nat fd)) = Some (fd_file fd s) \<and>
     open_at s (fd_file fd s) (blocks_of s (fd_file fd s)) (fd_table s (nat fd))"

definition fd_ready :: "int \<Rightarrow> kstate \<Rightarrow> bool" where
  "fd_ready fd s \<longleftrightarrow> tail_known (blocks_of s (fd_file fd s)) (fd_table s (nat fd))"

definition fd_read :: "int \<Rightarrow> u16 \<Rightarrow> kstate \<Rightarrow> (u8 list \<times> kstate) option" where
  "fd_read fd n s = map_option snd (mfs_read fd n s)"

definition fd_write :: "int \<Rightarrow> u8 list \<Rightarrow> kstate \<Rightarrow> (u16 \<times> kstate) option" where
  "fd_write fd data s = mfs_write fd data (of_nat (length data)) s"

definition fd_seek :: "int \<Rightarrow> u16 \<Rightarrow> kstate \<Rightarrow> kstate option" where
  "fd_seek fd p s = map_option snd (mfs_seek fd p SEEK_SET s)"

lemma blocks_of_eq: "file_with s i bs \<Longrightarrow> blocks_of s i = bs"
proof -
  assume f: "file_with s i bs"
  then have "length bs \<le> unat (total_sectors (root s))"
    by (intro distinct_below) (auto simp: file_with_def marked_def)
  then show ?thesis using f follow_chain by (simp add: blocks_of_def file_with_def)
qed

lemma rw_flags: "(FD_FLAGS_READ OR FD_FLAGS_WRITE) AND FD_FLAGS_READ \<noteq> 0" "(FD_FLAGS_READ OR FD_FLAGS_WRITE) AND FD_FLAGS_WRITE \<noteq> 0"
  by (simp_all add: FD_FLAGS_READ_def FD_FLAGS_WRITE_def)

lemma fd_inv_rinv: "fd_inv fd s \<longleftrightarrow> fd_rinv fd s \<and> e_flags (fd_table s (nat fd)) = FD_FLAGS_READ OR FD_FLAGS_WRITE"
  using rw_flags(1) by (auto simp: fd_inv_def fd_rinv_def)

lemma fd_rinvD:
  assumes "fd_rinv fd s"
  shows "fs_ok s" "kfs_ok s" "file_with s (fd_file fd s) (blocks_of s (fd_file fd s))"
    "length (fd_bytes fd s) = unat (f_size (files s ! fd_file fd s))" "fd_pos fd s \<le> length (fd_bytes fd s)"
    "length (tempbuf s) = BLOCK_SIZE"
  using assms length_file_bytes [of s] by (simp_all add: fd_rinv_def fs_ok_def open_at_def fd_bytes_def fd_pos_def word_le_nat_alt kfs_ok_def)

lemma fd_invD:
  assumes "fd_inv fd s"
  shows "fs_ok s" "kfs_ok s" "file_with s (fd_file fd s) (blocks_of s (fd_file fd s))"
    "length (fd_bytes fd s) = unat (f_size (files s ! fd_file fd s))" "fd_pos fd s \<le> length (fd_bytes fd s)"
    "length (tempbuf s) = BLOCK_SIZE"
  using assms fd_rinvD [of fd s] by (simp_all add: fd_inv_rinv)

text \<open>A new entry for the same file, on the same disk.\<close>

lemma fd_inv_entry:
  assumes "fd_rinv fd s" and "fs_ok (s\<lparr>fd_table := (fd_table s)(nat fd := e), tempbuf := tb\<rparr>)" and "e_type e = FD_TYPE_FILE"
    and "e_flags e = e_flags (fd_table s (nat fd))" and "e_file e = Some (fd_file fd s)"
    and "cursor_at (sector (kdisk s)) (total_sectors (root s)) (blocks_of s (fd_file fd s)) e"
    and "unat (e_pos e) \<le> length (fd_bytes fd s)"
  defines "s' \<equiv> s\<lparr>fd_table := (fd_table s)(nat fd := e), tempbuf := tb\<rparr>"
  shows "fd_rinv fd s' \<and> (fd_inv fd s \<longrightarrow> fd_inv fd s') \<and> fd_bytes fd s' = fd_bytes fd s \<and> fd_pos fd s' = unat (e_pos e)"
proof -
  have f: "fd_file fd s' = fd_file fd s" using assms(5) by (simp add: fd_file_def s'_def)
  have b: "blocks_of s' i = blocks_of s i" "file_bytes s' i bs = file_bytes s i bs" "file_with s' i bs = file_with s i bs" for i bs
    by (simp_all add: blocks_of_def file_bytes_def file_with_def marked_def s'_def)
  have "e_pos e \<le> f_size (files s ! fd_file fd s)"
    using assms(7) fd_rinvD(4) [OF assms(1)] by (simp add: word_le_nat_alt)
  then have "open_at s' (fd_file fd s) (blocks_of s (fd_file fd s)) e"
    using assms(1,2,6) b(3) by (simp add: open_at_def fd_rinv_def fs_ok_def s'_def)
  then have "fd_rinv fd s'" using assms(1-6) f b by (simp add: fd_rinv_def s'_def)
  then show ?thesis using assms(1,4) f b by (simp add: fd_inv_rinv fd_bytes_def fd_pos_def s'_def)
qed

lemma fd_read_law:
  assumes "fd_rinv fd s"
  shows "\<exists>s'. fd_read fd n s = Some (take (unat n) (drop (fd_pos fd s) (fd_bytes fd s)), s') \<and>
    fd_rinv fd s' \<and> (fd_inv fd s \<longrightarrow> fd_inv fd s') \<and>
    fd_bytes fd s' = fd_bytes fd s \<and> fd_pos fd s' = min (fd_pos fd s + unat n) (length (fd_bytes fd s))"
proof -
  let ?e = "fd_table s (nat fd)" and ?i = "fd_file fd s"
  let ?sz = "f_size (files s ! ?i)"
  note d = fd_rinvD [OF assms]
  have e: "fd_get fd = Some (nat fd)" "e_type ?e = FD_TYPE_FILE" "e_flags ?e AND FD_FLAGS_READ \<noteq> 0" "e_file ?e = Some ?i"
    and op: "open_at s ?i (blocks_of s ?i) ?e"
    using assms by (simp_all add: fd_rinv_def)
  show ?thesis
  proof (cases "?sz \<le> e_pos ?e")
    case True
    then have "drop (fd_pos fd s) (fd_bytes fd s) = []" "fd_pos fd s = length (fd_bytes fd s)"
      using d(4,5) by (simp_all add: fd_pos_def word_le_nat_alt)
    then show ?thesis using True e assms by (simp add: fd_read_def mfs_read_def Let_def)
  next
    case False
    have c: "cursor_at (sector (kdisk s)) (total_sectors (root s)) (blocks_of s ?i) ?e" "e_pos ?e \<le> ?sz"
      using op by (simp_all add: open_at_def)
    have sz: "unat ?sz \<le> BLOCK_DATA * length (blocks_of s ?i)" using d(3) by (simp add: file_with_def)
    obtain e' tb' where rl: "read_loop (kdisk s) (total_sectors (root s)) ?sz n ?e (tempbuf s) [] =
        Some (e', tb', [] @ take (unat n) (drop (unat (e_pos ?e)) (take (unat ?sz) (chain_bytes (sector (kdisk s)) (blocks_of s ?i)))))"
      and e': "cursor_at (sector (kdisk s)) (total_sectors (root s)) (blocks_of s ?i) e'"
        "unat (e_pos e') = min (unat (e_pos ?e) + unat n) (unat ?sz)"
        "e_type e' = e_type ?e" "e_flags e' = e_flags ?e" "e_file e' = e_file ?e"
      using read_loop_content [OF file_with_blocks(3) [OF d(2,3)] c(1) d(6) sz c(2), of n "[]"] by blast
    let ?s' = "s\<lparr>fd_table := (fd_table s)(nat fd := e'), tempbuf := tb'\<rparr>"
    have mr: "mfs_read fd n s = Some (of_nat (length (take (unat n) (drop (fd_pos fd s) (fd_bytes fd s)))),
        take (unat n) (drop (fd_pos fd s) (fd_bytes fd s)), ?s')"
      using False e rl by (simp add: mfs_read_def Let_def fd_pos_def fd_bytes_def file_bytes_def)
    then have "fs_ok ?s'" using mfs_read_ok [OF d(1), of fd n] by simp
    then show ?thesis
      using fd_inv_entry [OF assms _ _ _ _ e'(1)] e e' d(4) mr by (simp add: fd_read_def fd_pos_def)
  qed
qed

interpretation ro: readable "fd_rinv fd" "fd_bytes fd" "fd_pos fd" "fd_read fd" for fd
  by unfold_locales (use fd_read_law fd_rinvD(5) in blast)+

lemma fd_seek_law:
  assumes "fd_inv fd s" and "unat p \<le> length (fd_bytes fd s)"
  shows "\<exists>s'. fd_seek fd p s = Some s' \<and> fd_inv fd s' \<and> fd_bytes fd s' = fd_bytes fd s \<and> fd_pos fd s' = unat p"
proof -
  let ?e = "fd_table s (nat fd)" and ?i = "fd_file fd s"
  note d = fd_invD [OF assms(1)]
  have e: "fd_get fd = Some (nat fd)" "e_type ?e = FD_TYPE_FILE" "e_file ?e = Some ?i"
    "e_flags ?e = FD_FLAGS_READ OR FD_FLAGS_WRITE"
    using assms(1) by (simp_all add: fd_inv_def)
  obtain off b tb where sl: "seek_loop (kdisk s) (total_sectors (root s)) p (f_block (files s ! ?i)) (tempbuf s) = (off, b, tb)"
    by (metis prod_cases3)
  let ?e' = "?e\<lparr>e_pos := p, e_cur_block := b, e_block_offset := off\<rparr>"
  have le: "unat p \<le> BLOCK_DATA * length (blocks_of s ?i)" using assms(2) d(3,4) by (simp add: file_with_def)
  have ch: "chain (sector (kdisk s)) (total_sectors (root s)) (f_block (files s ! ?i)) (blocks_of s ?i)"
    using d(3) by (simp add: file_with_def)
  from seek_loop_content [OF ch file_with_blocks(3) [OF d(2,3)] d(6) le sl]
  have c: "cursor_at (sector (kdisk s)) (total_sectors (root s)) (blocks_of s ?i) ?e'" by (simp add: cursor_at_def)
  have ms: "mfs_seek fd p SEEK_SET s = Some (p, s\<lparr>fd_table := (fd_table s)(nat fd := ?e'), tempbuf := tb\<rparr>)"
    using e sl by (simp add: mfs_seek_def Let_def)
  then have "fs_ok (s\<lparr>fd_table := (fd_table s)(nat fd := ?e'), tempbuf := tb\<rparr>)"
    using mfs_seek_ok [OF d(1), of SEEK_SET fd p] by simp
  from fd_inv_entry [OF _ this _ _ _ c] show ?thesis
    using e ms assms by (simp add: fd_seek_def fd_inv_rinv [of fd s])
qed

text \<open>The write, with what it leaves alone.\<close>

lemma fd_write_full:
  assumes "fd_inv fd s" and "fd_ready fd s" and "fd_pos fd s + length data < 0x10000"
  shows "\<exists>r s' w. fd_write fd data s = Some (r, s') \<and> fd_inv fd s' \<and> fd_ready fd s' \<and> w \<le> length data \<and>
    fd_bytes fd s' = patch (fd_pos fd s) (take w data) (fd_bytes fd s) \<and> fd_pos fd s' = fd_pos fd s + w \<and>
    (r = of_nat (length data) \<and> w = length data \<or> r = -1 \<and> w < length data \<and> disk_full s') \<and>
    (\<forall>j cs. j \<noteq> fd_file fd s \<and> file_with s j cs \<and> set cs \<inter> set (blocks_of s (fd_file fd s)) = {} \<longrightarrow>
       file_with s' j cs \<and> file_bytes s' j cs = file_bytes s j cs)"
proof -
  let ?e = "fd_table s (nat fd)" and ?i = "fd_file fd s" and ?n = "of_nat (length data) :: u16"
  note d = fd_invD [OF assms(1)]
  have e: "fd_get fd = Some (nat fd)" "e_type ?e = FD_TYPE_FILE" "e_file ?e = Some ?i"
    "e_flags ?e = FD_FLAGS_READ OR FD_FLAGS_WRITE"
    and op: "open_at s ?i (blocks_of s ?i) ?e"
    using assms(1) by (simp_all add: fd_inv_def)
  have n: "unat ?n = length data" using assms(3) by (simp add: unat_of_nat)
  obtain r e' s' bs' w where wl: "write_loop data ?i ?n 0 ?e s = Some (r, e', s')" and w: "w \<le> unat ?n"
    and o': "open_at s' ?i bs' e'" "tail_known bs' e'" and kp: "keeps ?i (blocks_of s ?i) bs' s s'"
    and fb: "file_bytes s' ?i bs' = patch (unat (e_pos ?e)) (take w data) (file_bytes s ?i (blocks_of s ?i))"
    and p': "unat (e_pos e') = unat (e_pos ?e) + w"
    and r: "r = 0 + ?n \<and> w = unat ?n \<or> r = -1 \<and> w < unat ?n \<and> disk_full s'"
    and e': "e_type e' = e_type ?e \<and> e_flags e' = e_flags ?e \<and> e_file e' = e_file ?e"
    using write_loop_content [OF op assms(2) [unfolded fd_ready_def], of ?n data 0] assms(3) n
    by (auto simp: fd_pos_def)
  let ?s' = "s'\<lparr>fd_table := (fd_table s')(nat fd := e')\<rparr>"
  have mw: "mfs_write fd data ?n s = Some (r, ?s')" using e wl rw_flags by (simp add: mfs_write_def Let_def)
  then have ok: "fs_ok ?s'" using mfs_write_ok [OF d(1), of ?n data fd] n by simp
  have eq: "file_with ?s' j cs = file_with s' j cs" "file_bytes ?s' j cs = file_bytes s' j cs" "blocks_of ?s' j = blocks_of s' j"
    "disk_full ?s' = disk_full s'" for j cs
    by (simp_all add: file_with_def file_bytes_def marked_def blocks_of_def disk_full_def)
  have bl: "blocks_of s' ?i = bs'" using o'(1) blocks_of_eq by (simp add: open_at_def)
  have f: "fd_file fd ?s' = ?i" unfolding fd_file_def [of fd ?s'] using e' e(3) by simp
  have "open_at ?s' ?i bs' e'" using o'(1) ok eq by (simp add: open_at_def fs_ok_def)
  then have "fd_inv fd ?s'" using ok e e' f bl eq by (simp add: fd_inv_def)
  moreover have "fd_ready fd ?s'" using o'(2) f bl eq by (simp add: fd_ready_def)
  moreover have "fd_bytes fd ?s' = patch (fd_pos fd s) (take w data) (fd_bytes fd s)"
    using fb f bl eq by (simp add: fd_bytes_def fd_pos_def)
  moreover have "fd_pos fd ?s' = fd_pos fd s + w" using p' by (simp add: fd_pos_def)
  moreover have "\<forall>j cs. j \<noteq> ?i \<and> file_with s j cs \<and> set cs \<inter> set (blocks_of s ?i) = {} \<longrightarrow>
       file_with ?s' j cs \<and> file_bytes ?s' j cs = file_bytes s j cs"
    unfolding eq using other_file_kept [OF kp d(2)] by blast
  moreover have "r = of_nat (length data) \<and> w = length data \<or> r = -1 \<and> w < length data \<and> disk_full ?s'"
    using r n eq by auto
  ultimately show ?thesis
    using mw w n unfolding fd_write_def by (intro exI [of _ r] exI [of _ ?s'] exI [of _ w]) simp
qed

interpretation rw: random_access "fd_inv fd" "fd_bytes fd" "fd_pos fd" "fd_read fd" "fd_ready fd" "fd_write fd" "fd_seek fd" for fd
proof unfold_locales
  show "\<exists>r s' w. fd_write fd data s = Some (r, s') \<and> fd_inv fd s' \<and> fd_ready fd s' \<and> w \<le> length data \<and>
      fd_bytes fd s' = patch (fd_pos fd s) (take w data) (fd_bytes fd s) \<and> fd_pos fd s' = fd_pos fd s + w \<and>
      (if w = length data then r = of_nat w else r = -1)"
    if "fd_inv fd s" "fd_ready fd s" "fd_pos fd s + length data < 0xFFFF" for s data
  proof -
    have "fd_pos fd s + length data < 0x10000" using that(3) by simp
    from fd_write_full [OF that(1,2) this] obtain r s' w where
      "fd_write fd data s = Some (r, s')" "fd_inv fd s'" "fd_ready fd s'" "w \<le> length data"
      "fd_bytes fd s' = patch (fd_pos fd s) (take w data) (fd_bytes fd s)" "fd_pos fd s' = fd_pos fd s + w"
      "r = of_nat (length data) \<and> w = length data \<or> r = -1 \<and> w < length data" by blast
    then show ?thesis by (intro exI [of _ r] exI [of _ s'] exI [of _ w]) auto
  qed
qed (use fd_read_law fd_seek_law fd_invD(5) fd_inv_rinv in blast)+

section \<open>The guarantees of the calls\<close>

lemma mfs_read_count:
  "fd_rinv fd s \<Longrightarrow> fd_read fd n s = Some (out, s') \<Longrightarrow> mfs_read fd n s = Some (of_nat (length out), out, s')"
  by (auto simp: fd_read_def mfs_read_def fd_rinv_def Let_def split: if_splits Option.bind_splits)

lemma mfs_seek_pos:
  "fd_inv fd s \<Longrightarrow> fd_seek fd p s = Some s' \<Longrightarrow> mfs_seek fd p SEEK_SET s = Some (p, s')"
  by (auto simp: fd_seek_def mfs_seek_def fd_inv_def Let_def split: prod.splits)

text \<open>
  C15: reading. A read through an open descriptor stores exactly the next \<open>count\<close> bytes of the file,
  or what is left of it, returns their number, moves the position past them and changes nothing
  else of the file.
\<close>

theorem mfs_read_refines:
  assumes "fd_inv fd s"
  shows "\<exists>out s'. mfs_read fd count s = Some (of_nat (length out), out, s') \<and>
    out = take (unat count) (drop (fd_pos fd s) (fd_bytes fd s)) \<and> fd_inv fd s' \<and>
    fd_bytes fd s' = fd_bytes fd s \<and> fd_pos fd s' = fd_pos fd s + length out"
proof -
  obtain s' where s': "fd_read fd count s = Some (take (unat count) (drop (fd_pos fd s) (fd_bytes fd s)), s')" "fd_inv fd s'"
    "fd_bytes fd s' = fd_bytes fd s" "fd_pos fd s' = min (fd_pos fd s + unat count) (length (fd_bytes fd s))"
    using rw.read_law [OF assms] by blast
  then show ?thesis using mfs_read_count [OF _ s'(1)] assms fd_inv_rinv rw.pos_le [OF assms] by simp
qed

text \<open>
  C16: writing. A write through an open descriptor overlays the file's bytes from the position on,
  extending the chain of blocks as needed, and returns the count. When the disk is full it returns
  -1 and a prefix of the data has been written. Every other file whose blocks are apart keeps its
  blocks and bytes.
\<close>

theorem mfs_write_refines:
  assumes "fd_inv fd s" and "fd_ready fd s" and "fd_pos fd s + length data < 0x10000"
  shows "\<exists>r s' w. mfs_write fd data (of_nat (length data)) s = Some (r, s') \<and> fd_inv fd s' \<and> fd_ready fd s' \<and>
    fd_bytes fd s' = patch (fd_pos fd s) (take w data) (fd_bytes fd s) \<and> fd_pos fd s' = fd_pos fd s + w \<and>
    (r = of_nat (length data) \<and> w = length data \<or> r = -1 \<and> w < length data \<and> disk_full s') \<and>
    (\<forall>j cs. j \<noteq> fd_file fd s \<and> file_with s j cs \<and> set cs \<inter> set (blocks_of s (fd_file fd s)) = {} \<longrightarrow>
       file_with s' j cs \<and> file_bytes s' j cs = file_bytes s j cs)"
  using fd_write_full [OF assms] unfolding fd_write_def by blast

text \<open>
  C17: what a successful write stored, a seek back to where it began and a read of as many bytes
  return.
\<close>

theorem write_then_read:
  assumes "fd_inv fd s" and "fd_ready fd s" and "unat n = length data" and "unat p = fd_pos fd s"
    and "fd_pos fd s + length data < 0xFFFF" and "mfs_write fd data n s = Some (n, s1)"
  shows "\<exists>s2 s3. mfs_seek fd p SEEK_SET s1 = Some (p, s2) \<and> mfs_read fd n s2 = Some (n, data, s3) \<and>
    fd_bytes fd s3 = patch (fd_pos fd s) data (fd_bytes fd s)"
proof -
  have n: "of_nat (length data) = n" by (simp flip: assms(3))
  have w: "fd_write fd data s = Some (n, s1)" using assms(6) by (simp add: fd_write_def n)
  obtain s2 s3 where s: "fd_seek fd p s1 = Some s2" "fd_read fd n s2 = Some (data, s3)"
    "fd_bytes fd s3 = patch (fd_pos fd s) data (fd_bytes fd s)"
    using rw.write_seek_read [OF assms(1-5) w] by blast
  have i1: "fd_inv fd s1" "unat p \<le> length (fd_bytes fd s1)"
    using rw.write_law [OF assms(1,2,5)] w rw.pos_le [OF assms(1)] assms(4) by (auto simp: length_patch)
  then have "fd_inv fd s2" using rw.seek_law [OF i1] s(1) by simp
  then show ?thesis using mfs_seek_pos [OF i1(1) s(1)] mfs_read_count [OF _ s(2)] s(3) n by (auto simp: fd_inv_rinv)
qed

text \<open>
  C24: a defect of the cursor. \<^verbatim>\<open>prev_block\<close> is set by writes only. When a read or a seek has
  moved the descriptor to the end of a file that fills its last block and no write has come before,
  the next write does not link its block behind the last one: it makes the new block the first
  block of the file, and the old content is lost.
\<close>

theorem write_at_full_end_loses_file:
  assumes "fd_inv fd s" and "fd_pos fd s = BLOCK_DATA * length (blocks_of s (fd_file fd s))"
    and "e_prev_block (fd_table s (nat fd)) = 0" and "\<not> disk_full s" and "data \<noteq> []" and "length data \<le> BLOCK_DATA"
  shows "\<exists>r s'. mfs_write fd data (of_nat (length data)) s = Some (r, s') \<and> f_block (files s' ! fd_file fd s) \<notin> set (blocks_of s (fd_file fd s)) \<and>
    f_block (files s' ! fd_file fd s) \<noteq> 0"
proof -
  let ?e = "fd_table s (nat fd)" and ?i = "fd_file fd s" and ?n = "of_nat (length data) :: u16"
  let ?bs = "blocks_of s ?i"
  note d = fd_invD [OF assms(1)]
  have e: "fd_get fd = Some (nat fd)" "e_type ?e = FD_TYPE_FILE" "e_file ?e = Some ?i"
    "e_flags ?e = FD_FLAGS_READ OR FD_FLAGS_WRITE"
    and op: "open_at s ?i ?bs ?e"
    using assms(1) by (simp_all add: fd_inv_def)
  have n: "unat ?n = length data" using assms(6) by (simp add: unat_of_nat mfs_consts)
  then have n0: "0 < ?n" using assms(5) by (simp add: word_less_nat_alt)
  have o: "0 < data_start_sector (root s)" "i < FENTRY_COUNT \<longrightarrow> i < length (files s)" "?i < FENTRY_COUNT" for i
    using op by (simp_all add: open_at_def file_with_def kfs_ok_def)
  have "cursor_at (sector (kdisk s)) (total_sectors (root s)) ?bs ?e" using op by (simp add: open_at_def)
  then have cur: "e_cur_block ?e = 0 \<or> total_sectors (root s) \<le> e_cur_block ?e"
    using assms(2) BLOCK_DATA_pos by (simp add: cursor_at_def fd_pos_def)
  show ?thesis
  proof (cases rule: alloc_block_cases [OF d(2) o(1)])
    case 1
    then show ?thesis using assms(4) by simp
  next
    case (2 b bm)
    let ?e2 = "?e\<lparr>e_cur_block := b, e_block_offset := 0\<rparr>"
    let ?s2 = "s\<lparr>block_bitmap := bm, tempbuf := fresh_block, kdisk := disk_write (kdisk s) b fresh_block,
        files := (files s)[?i := (files s ! ?i)\<lparr>f_block := b\<rparr>]\<rparr>"
    have ex: "extend_chain ?i ?e s = Some (Some ?e2, ?s2)"
      using cur 2 assms(3) by (simp add: extend_chain_def Let_def)
    have nb: "b \<notin> set ?bs" using d(3) 2(4) by (auto simp: file_with_def)
    have "kfs_ok (s\<lparr>block_bitmap := bm, tempbuf := fresh_block, kdisk := disk_write (kdisk s) b fresh_block\<rparr>)"
      using kfs_ok_disk_write [OF 2(5), of fresh_block fresh_block b] by simp
    then have k2: "kfs_ok ?s2"
      using kfs_ok_name [OF d(2) o(3)] kfs_ok_file [of "s\<lparr>block_bitmap := bm, tempbuf := fresh_block, kdisk := disk_write (kdisk s) b fresh_block\<rparr>"] by simp
    have wr: "write_ready (total_sectors (root ?s2)) ?e2"
      using 2(2,3) data_size_pos by (simp add: write_ready_def)
    have le: "unat ?n \<le> length data" using n by simp
    obtain w e' s' where wb: "write_block data ?i ?n ?e2 ?s2 = Some (w, e', s')"
      using write_block_ok [OF k2 o(3) wr le] by blast
    have "\<not> ?n < data_size \<Longrightarrow> ?n = data_size"
      using assms(6) n by (simp add: word_less_nat_alt word_unat_eq_iff data_size_unat)
    then have w: "w = ?n" using wb by (auto simp: write_block_def Let_def split: if_splits)
    have fb: "f_block (files s' ! ?i) = b"
      using wb o by (auto simp: write_block_def Let_def split: if_splits)
    have "write_loop data ?i ?n 0 ?e s = Some (?n, e', s')"
      using n0 ex wb w by (subst write_loop.simps) (simp, subst write_loop.simps, simp)
    then have "mfs_write fd data ?n s = Some (?n, s'\<lparr>fd_table := (fd_table s')(nat fd := e')\<rparr>)"
      using e rw_flags by (simp add: mfs_write_def Let_def)
    then show ?thesis using fb nb 2(2) by simp
  qed
qed

section \<open>Examples\<close>

text \<open>A volume with one file of \<open>sz\<close> bytes in block 3, open as descriptor 3 at position \<open>p\<close>.\<close>

definition demo_open :: "u16 \<Rightarrow> u16 \<Rightarrow> u16 \<Rightarrow> kstate" where
  "demo_open sz p cur = boot_kstate\<lparr>
     kdisk := replicate (3 * BLOCK_SIZE) 0 @ [1, 0, 0, 0, 7, 8, 9] @ replicate (5 * BLOCK_SIZE - 7) 0,
     root := demo_root\<lparr>filecount := 1\<rparr>, block_bitmap := 15 # replicate 511 0,
     files := \<lparr>f_used = 1, f_flags = 2, f_id = 0, f_name = 0x41 # replicate 11 0,
       f_size = sz, f_block_size = 0, f_block = 3\<rparr> # replicate 23 zero_file,
     fd_table := (\<lambda>_. zero_entry)(3 := \<lparr>e_type = FD_TYPE_FILE, e_flags = FD_FLAGS_READ OR FD_FLAGS_WRITE,
       e_pos = p, e_cur_block = cur, e_prev_block = 0, e_block_offset = 0, e_file = Some 0\<rparr>)\<rparr>"

lemma demo_open_sel:
  "total_sectors (root (demo_open sz p cur)) = 8" "data_start_sector (root (demo_open sz p cur)) = 3"
  "fd_file 3 (demo_open sz p cur) = 0" "f_size (files (demo_open sz p cur) ! 0) = sz" "f_block (files (demo_open sz p cur) ! 0) = 3"
  "fd_table (demo_open sz p cur) 3 = \<lparr>e_type = FD_TYPE_FILE, e_flags = FD_FLAGS_READ OR FD_FLAGS_WRITE,
       e_pos = p, e_cur_block = cur, e_prev_block = 0, e_block_offset = 0, e_file = Some 0\<rparr>"
  by (simp_all add: demo_open_def demo_root_def fd_file_def)

lemma demo_open_kfs: "kfs_ok (demo_open sz p cur)"
  by (simp add: kfs_ok_def demo_open_def boot_kstate_def demo_root_def zero_file_def mfs_consts)

lemma demo_open_sector: "sector (kdisk (demo_open sz p cur)) 3 = [1, 0, 0, 0, 7, 8, 9] @ replicate (BLOCK_SIZE - 7) 0"
  by (simp add: sector_def demo_open_def mfs_consts)

lemma demo_open_file:
  assumes "unat sz \<le> BLOCK_DATA"
  shows "file_with (demo_open sz p cur) 0 [3]" and "blocks_of (demo_open sz p cur) 0 = [3]"
proof -
  have "next_block (sector (kdisk (demo_open sz p cur)) 3) = 0"
    unfolding demo_open_sector by (simp add: next_block_def get16_def mk16_def)
  moreover have "bitmap_get (block_bitmap (demo_open sz p cur)) 3 = Some True"
    by (simp add: demo_open_def bitmap_get_def)
  ultimately show "file_with (demo_open sz p cur) 0 [3]"
    using assms by (simp add: file_with_def demo_open_sel marked_def mfs_consts)
  then show "blocks_of (demo_open sz p cur) 0 = [3]" by (rule blocks_of_eq)
qed

lemma demo_open_inv:
  assumes "unat sz \<le> BLOCK_DATA" and "p \<le> sz" and "cursor_at (sector (kdisk (demo_open sz p cur))) 8 [3] (fd_table (demo_open sz p cur) 3)"
  shows "fd_inv 3 (demo_open sz p cur)"
proof -
  have f: "file_with (demo_open sz p cur) 0 [3]" "blocks_of (demo_open sz p cur) 0 = [3]"
    using demo_open_file [OF assms(1)] by blast+
  have "fs_ok (demo_open sz p cur)"
    using demo_open_kfs by (auto simp: fs_ok_def entry_ok_def demo_open_def zero_entry_def data_size_def mfs_consts FD_TYPE_FILE_def)
  moreover have "open_at (demo_open sz p cur) 0 [3] (fd_table (demo_open sz p cur) 3)"
    using assms(2,3) f demo_open_kfs by (simp add: open_at_def demo_open_sel)
  ultimately show ?thesis by (simp add: fd_inv_def demo_open_sel f fd_get_def FD_MAX_def)
qed

lemma demo_small: "fd_inv 3 (demo_open 3 0 3)" "fd_ready 3 (demo_open 3 0 3)"
  "fd_bytes 3 (demo_open 3 0 3) = [7, 8, 9]" "fd_pos 3 (demo_open 3 0 3) = 0"
proof -
  have sz: "unat (3 :: u16) \<le> BLOCK_DATA" by (simp add: mfs_consts)
  note f = demo_open_file [OF this, of 0 3]
  have "cursor_at (sector (kdisk (demo_open 3 0 3))) 8 [3] (fd_table (demo_open 3 0 3) 3)"
    using f(1) by (simp add: cursor_at_def demo_open_sel file_with_def)
  then show "fd_inv 3 (demo_open 3 0 3)" by (intro demo_open_inv sz) simp_all
  show "fd_ready 3 (demo_open 3 0 3)" by (simp add: fd_ready_def tail_known_def demo_open_sel f mfs_consts)
  show "fd_bytes 3 (demo_open 3 0 3) = [7, 8, 9]"
    by (simp add: fd_bytes_def file_bytes_def demo_open_sel f demo_open_sector block_data_def mfs_consts)
  show "fd_pos 3 (demo_open 3 0 3) = 0" by (simp add: fd_pos_def demo_open_sel)
qed

theorem mfs_read_refines_witness: "\<exists>s'. mfs_read 3 2 (demo_open 3 0 3) = Some (2, [7, 8], s') \<and> fd_pos 3 s' = 2"
  using mfs_read_refines [OF demo_small(1), of 2] by (auto simp: demo_small)

theorem mfs_write_refines_witness:
  "\<exists>r s' w. mfs_write 3 [1, 2, 3, 4] 4 (demo_open 3 0 3) = Some (r, s') \<and> fd_bytes 3 s' = patch 0 (take w [1, 2, 3, 4]) [7, 8, 9]"
proof -
  have "fd_pos 3 (demo_open 3 0 3) + length [1, 2, 3, 4 :: u8] < 0x10000" by (simp add: demo_small)
  from mfs_write_refines [OF demo_small(1,2) this] show ?thesis by (auto simp: demo_small)
qed

theorem write_then_read_witness:
  "\<exists>s1. mfs_write 3 [1, 2] 2 (demo_open 3 0 3) = Some (2, s1) \<and>
    (\<exists>s2 s3. mfs_seek 3 0 SEEK_SET s1 = Some (0, s2) \<and> mfs_read 3 2 s2 = Some (2, [1, 2], s3))"
proof -
  let ?s = "demo_open 3 0 3" and ?e = "fd_table (demo_open 3 0 3) 3"
  have rd: "disk_read (kdisk ?s) 3 (tempbuf ?s) = [1, 0, 0, 0, 7, 8, 9] @ replicate (BLOCK_SIZE - 7) 0"
    unfolding disk_read_def demo_open_sector by (simp add: demo_open_def boot_kstate_def mfs_consts)
  have "\<exists>e' s1. write_block [1, 2] 0 2 ?e ?s = Some (2, e', s1)"
    by (simp add: write_block_def demo_open_sel rd Let_def data_size_def mfs_consts)
  then obtain e' s1 where wb: "write_block [1, 2] 0 2 ?e ?s = Some (2, e', s1)" by blast
  have "write_loop [1, 2] 0 2 0 ?e ?s = Some (2, e', s1)"
    by (subst write_loop.simps, simp add: extend_chain_def demo_open_sel wb [unfolded demo_open_sel], subst write_loop.simps, simp)
  then have w: "mfs_write 3 [1, 2] 2 ?s = Some (2, s1\<lparr>fd_table := (fd_table s1)(3 := e')\<rparr>)"
    by (simp add: mfs_write_def fd_get_def FD_MAX_def demo_open_sel Let_def FD_FLAGS_READ_def FD_FLAGS_WRITE_def)
  from write_then_read [OF demo_small(1,2) _ _ _ w, of 0] show ?thesis using w by (auto simp: demo_small)
qed

theorem write_at_full_end_loses_file_witness:
  "\<exists>r s'. mfs_write 3 [1, 2] 2 (demo_open 508 508 0) = Some (r, s') \<and> f_block (files s' ! 0) \<noteq> 3"
proof -
  let ?s = "demo_open 508 508 0"
  have sz: "unat (508 :: u16) \<le> BLOCK_DATA" by (simp add: mfs_consts)
  note f = demo_open_file [OF this, of 508 0]
  have "cursor_at (sector (kdisk ?s)) 8 [3] (fd_table ?s 3)"
    by (simp add: cursor_at_def demo_open_sel mfs_consts)
  then have i: "fd_inv 3 ?s" by (intro demo_open_inv sz) simp_all
  have free: "\<not> marked ?s 4" by (simp add: marked_def demo_open_sel demo_open_def bitmap_get_def)
  have full: "\<not> disk_full ?s"
    unfolding disk_full_def using free by (auto simp: demo_open_sel intro!: exI [of _ 4])
  from write_at_full_end_loses_file [OF i _ _ full, of "[1, 2]"] show ?thesis
    by (auto simp: demo_open_sel f fd_pos_def mfs_consts)
qed

end
