(* ===== verification/Kernel_Spec.thy ===== *)
theory Kernel_Spec
  imports Kernel Mfs_Access
begin

text \<open>
  What a started program finds: the argument table built by \<^verbatim>\<open>execv\<close> as the array of C strings
  that was passed, and the shell in memory after the start-up.
\<close>

section \<open>The argument table\<close>

text \<open>The strings with their terminators, and the C string at an offset of the table.\<close>

definition packed :: "u8 list list \<Rightarrow> u8 list" where
  "packed args = concat (map (\<lambda>a. a @ [0]) args)"

definition cstr :: "u8 list \<Rightarrow> nat \<Rightarrow> u8 list" where
  "cstr buf off = takeWhile (\<lambda>c. c \<noteq> 0) (drop off buf)"

lemma packed_simps [simp]: "packed [] = []" "packed (a # args) = a @ 0 # packed args" "packed (xs @ ys) = packed xs @ packed ys"
  by (simp_all add: packed_def)

lemma packed_take_Suc: "n < length args \<Longrightarrow> packed (take (Suc n) args) = packed (take n args) @ args ! n @ [0]"
  by (simp add: take_Suc_conv_app_nth)

lemma packed_take_mono: "i \<le> n \<Longrightarrow> length (packed (take i args)) \<le> length (packed (take n args))"
proof -
  assume "i \<le> n"
  then have "take n args = take i args @ take (n - i) (drop i args)" by (metis le_add_diff_inverse take_add)
  then show ?thesis by simp
qed

lemma cstr_packed:
  assumes "i < length args" and "0 \<notin> set (args ! i)"
  shows "cstr (packed args @ rest) (length (packed (take i args))) = args ! i"
proof -
  have "args = take i args @ args ! i # drop (Suc i) args" using assms(1) by (rule id_take_nth_drop)
  then have "packed args = packed (take i args) @ args ! i @ 0 # packed (drop (Suc i) args)"
    by (metis packed_simps(2,3))
  then have "drop (length (packed (take i args))) (packed args @ rest) = args ! i @ 0 # packed (drop (Suc i) args) @ rest"
    by simp
  moreover have "takeWhile (\<lambda>c. c \<noteq> 0) (args ! i @ 0 # ys) = args ! i" for ys
    using assms(2) by (subst takeWhile_append2) auto
  ultimately show ?thesis by (simp add: cstr_def)
qed

lemma patch_zeros:
  "off = length xs \<Longrightarrow> length ys \<le> m \<Longrightarrow> patch off ys (xs @ replicate m 0) = (xs @ ys) @ replicate (m - length ys) 0"
  by (simp add: patch_def)

lemma copy_args_packed:
  assumes "ptrv = packed done @ replicate (ARGV_SIZE - length (packed done)) 0" and "argc = length done" and "argc \<le> 16"
    and "unat strpos = length (packed done)" and "length (packed done) \<le> 210"
    and "offsets = map (\<lambda>i. of_nat (length (packed (take i done)))) [0..<length done]"
    and "\<forall>a\<in>set args. length a < 0x7F00"
  shows "\<exists>n. n \<le> length args \<and> argc + n \<le> 16 \<and> length (packed (done @ take n args)) \<le> 210 \<and>
    (n = length args \<or> argc + n = 16 \<or> 210 < length (packed (done @ take (Suc n) args))) \<and>
    copy_args args argc strpos offsets ptrv = Some (argc + n,
      map (\<lambda>i. of_nat (length (packed (take i (done @ take n args))))) [0..<argc + n],
      packed (done @ take n args) @ replicate (ARGV_SIZE - length (packed (done @ take n args))) 0)"
  using assms
proof (induction args arbitrary: argc strpos offsets ptrv "done")
  case Nil
  then show ?case by auto
next
  case (Cons a args)
  let ?len = "of_nat (length a + 1) :: u16" and ?p = "length (packed done)"
  have la: "unat ?len = length a + 1"
  proof -
    have "length a + 1 < 2 ^ LENGTH(16)" using Cons(8) by simp
    then show ?thesis by (simp only: unat_of_nat mod_less)
  qed
  have sum: "unat (strpos + ?len) = ?p + length a + 1"
    using Cons(5,6,8) la by (subst unat_add_lem [THEN iffD1]) auto
  have ss: "sint (strpos + ?len) = int (?p + length a + 1)"
  proof -
    have "unat (strpos + ?len) < 0x8000" using sum Cons(6,8) by simp
    then show ?thesis using sint_small sum by metis
  qed
  show ?case
  proof (cases "argc < 16 \<and> ?p + length a + 1 \<le> 210")
    case False
    then show ?thesis using Cons(2-8) ss by (intro exI [of _ 0]) (auto simp: ARGV_SIZE_def)
  next
    case True
    let ?d = "done @ [a]"
    have pd: "length (packed ?d) = ?p + length a + 1" by simp
    have fit: "Suc (length a) \<le> 242 - ?p" using True by linarith
    have "take (unat ?len) (a @ [0]) = a @ [0]" unfolding la by simp
    then have ptr: "patch (unat strpos) (take (unat ?len) (a @ [0])) ptrv = packed ?d @ replicate (ARGV_SIZE - length (packed ?d)) 0"
      using Cons(2,5) fit patch_zeros [of "unat strpos" "packed done" "a @ [0]" "ARGV_SIZE - ?p"]
      by (simp add: ARGV_SIZE_def)
    have off: "offsets @ [ucast strpos] = map (\<lambda>i. of_nat (length (packed (take i ?d)))) [0..<length ?d]"
    proof -
      have "ucast strpos = (of_nat ?p :: u8)" 
        by (simp add: word_unat_eq_iff unsigned_ucast_eq unat_of_nat take_bit_eq_mod Cons(5))
      then show ?thesis using Cons(7) by simp
    qed
    have step: "copy_args (a # args) argc strpos offsets ptrv =
        copy_args args (argc + 1) (strpos + ?len) (offsets @ [ucast strpos]) (patch (unat strpos) (take (unat ?len) (a @ [0])) ptrv)"
      using True ss la Cons(5) by (simp add: Let_def ARGV_SIZE_def)
    obtain n where n: "n \<le> length args" "argc + 1 + n \<le> 16" "length (packed (?d @ take n args)) \<le> 210"
      "n = length args \<or> argc + 1 + n = 16 \<or> 210 < length (packed (?d @ take (Suc n) args))"
      "copy_args args (argc + 1) (strpos + ?len) (offsets @ [ucast strpos]) (patch (unat strpos) (take (unat ?len) (a @ [0])) ptrv) =
        Some (argc + 1 + n, map (\<lambda>i. of_nat (length (packed (take i (?d @ take n args))))) [0..<argc + 1 + n],
          packed (?d @ take n args) @ replicate (ARGV_SIZE - length (packed (?d @ take n args))) 0)"
      using Cons(1) [OF ptr _ _ _ _ off, of "argc + 1" "strpos + ?len"] Cons(3,4,8) True pd sum by auto
    show ?thesis unfolding step n(5) using n(1-4) by (intro exI [of _ "Suc n"]) simp
  qed
qed

text \<open>The pointers fill the end of the table exactly.\<close>

definition pointers :: "u8 list \<Rightarrow> u8 list" where
  "pointers offsets = concat (map (\<lambda>off. bytes16 (PIH_ARGV + ucast off)) offsets) @ [0, 0]"

lemma update_two: "p + 2 \<le> length xs \<Longrightarrow> xs[p := a, p + 1 := b] = take p xs @ [a, b] @ drop (p + 2) xs"
  by (simp add: upd_conv_take_nth_drop take_Suc_conv_app_nth Cons_nth_drop_Suc nth_append list_update_append drop_update_swap)

lemma set_pointers_table:
  "p + 2 * Suc (length offsets) = length ptrv \<Longrightarrow> set_pointers p offsets ptrv = take p ptrv @ pointers offsets"
proof (induction p offsets ptrv rule: set_pointers.induct)
  case (1 p ptrv)
  then show ?case using update_two [of p ptrv 0 0] by (simp add: pointers_def)
next
  case (2 p off offsets ptrv)
  let ?addr = "PIH_ARGV + ucast off"
  let ?q = "ptrv[p := GET_LOW ?addr, p + 1 := GET_HIGH ?addr]"
  have q: "?q = take p ptrv @ bytes16 ?addr @ drop (p + 2) ptrv"
    using 2(2) update_two [of p ptrv] by (simp add: bytes16_def)
  have "set_pointers (p + 2) offsets ?q = take (p + 2) ?q @ pointers offsets"
    using 2(2) by (intro 2(1) [OF refl]) simp
  moreover have "take (p + 2) ?q = take p ptrv @ bytes16 ?addr" unfolding q using 2(2) by (simp add: bytes16_def)
  ultimately show ?case by (simp add: Let_def pointers_def)
qed

lemma pointers_nth:
  assumes "i \<le> length offsets"
  shows "get16 (pre @ pointers offsets) (length pre + 2 * i) = (if i < length offsets then PIH_ARGV + ucast (offsets ! i) else 0)"
  using assms
proof (induction offsets arbitrary: i pre)
  case Nil
  then show ?case by (simp add: pointers_def get16_def nth_append mk16_def)
next
  case (Cons off offsets)
  show ?case
  proof (cases i)
    case 0
    then show ?thesis by (simp add: pointers_def get16_def nth_append bytes16_def)
  next
    case (Suc j)
    then show ?thesis
      using Cons(1) [of j "pre @ bytes16 (PIH_ARGV + ucast off)"] Cons(2) by (simp add: pointers_def)
  qed
qed

lemma set_args_table:
  assumes "\<forall>a\<in>set args. length a < 0x7F00"
  shows "\<exists>n. n \<le> length args \<and> n \<le> 16 \<and> length (packed (take n args)) \<le> 210 \<and>
    (n = length args \<or> n = 16 \<or> 210 < length (packed (take (Suc n) args))) \<and>
    set_args args h = Some (h\<lparr>pih_argv := take (ARGV_SIZE - (n + 1) * 2) (packed (take n args) @ replicate (ARGV_SIZE - length (packed (take n args))) 0) @
        pointers (map (\<lambda>i. of_nat (length (packed (take i (take n args))))) [0..<n]), pih_argc := of_nat n\<rparr>)"
proof -
  have "(replicate ARGV_SIZE 0 :: u8 list) = packed [] @ replicate (ARGV_SIZE - length (packed [])) 0" by simp
  from copy_args_packed [OF this, of 0 0 "[]" args] assms obtain n where n: "n \<le> length args" "n \<le> 16"
    "length (packed (take n args)) \<le> 210" "n = length args \<or> n = 16 \<or> 210 < length (packed (take (Suc n) args))"
    "copy_args args 0 0 [] (replicate ARGV_SIZE 0) = Some (n, map (\<lambda>i. of_nat (length (packed (take i (take n args))))) [0..<n],
       packed (take n args) @ replicate (ARGV_SIZE - length (packed (take n args))) 0)"
    by auto
  let ?buf = "packed (take n args) @ replicate (ARGV_SIZE - length (packed (take n args))) 0"
  let ?off = "map (\<lambda>i. of_nat (length (packed (take i (take n args))))) [0..<n] :: u8 list"
  have "ARGV_SIZE - (n + 1) * 2 + 2 * Suc (length ?off) = length ?buf"
    using n(2,3) by (simp add: ARGV_SIZE_def)
  from set_pointers_table [OF this] have "set_pointers (ARGV_SIZE - (n + 1) * 2) ?off ?buf = take (ARGV_SIZE - (n + 1) * 2) ?buf @ pointers ?off" .
  then have "set_args args h = Some (h\<lparr>pih_argv := take (ARGV_SIZE - (n + 1) * 2) ?buf @ pointers ?off, pih_argc := of_nat n\<rparr>)"
    unfolding set_args_def n(5) by simp
  then show ?thesis using n(1-4) by blast
qed

lemma argument_table:
  assumes "\<forall>a\<in>set args. length a < 0x7F00 \<and> 0 \<notin> set a"
  shows "\<exists>n h'. set_args args h = Some h' \<and> pih_argc h' = of_nat n \<and> n \<le> 16 \<and> n \<le> length args \<and>
    (n = length args \<or> n = 16 \<or> 210 < length (packed (take (Suc n) args))) \<and>
    (n < 16 \<or> length (packed (take n args)) \<le> 208 \<longrightarrow>
       (\<forall>i\<le>n. let p = get16 (pih_argv h') (ARGV_SIZE - (n + 1) * 2 + 2 * i) in
          if i < n then cstr (pih_argv h') (unat (p - PIH_ARGV)) = args ! i else p = 0))"
proof -
  obtain n where n: "n \<le> length args" "n \<le> 16" "length (packed (take n args)) \<le> 210"
    "n = length args \<or> n = 16 \<or> 210 < length (packed (take (Suc n) args))"
    and h: "set_args args h = Some (h\<lparr>pih_argv := take (ARGV_SIZE - (n + 1) * 2) (packed (take n args) @ replicate (ARGV_SIZE - length (packed (take n args))) 0) @
        pointers (map (\<lambda>i. of_nat (length (packed (take i (take n args))))) [0..<n]), pih_argc := of_nat n\<rparr>)"
    using set_args_table [of args h] assms by blast
  let ?P = "packed (take n args)"
  let ?p = "ARGV_SIZE - (n + 1) * 2"
  let ?off = "map (\<lambda>i. of_nat (length (packed (take i (take n args))))) [0..<n] :: u8 list"
  let ?t = "take ?p (?P @ replicate (ARGV_SIZE - length ?P) 0) @ pointers ?off"
  have good: "let q = get16 ?t (?p + 2 * i) in if i < n then cstr ?t (unat (q - PIH_ARGV)) = args ! i else q = 0"
    if room: "n < 16 \<or> length ?P \<le> 208" and i: "i \<le> n" for i
  proof -
    have Pp: "length ?P \<le> ?p" using room n(2,3) by (auto simp: ARGV_SIZE_def)
    have lp: "length (take ?p (?P @ replicate (ARGV_SIZE - length ?P) 0)) = ?p"
      using n(2,3) by (simp add: ARGV_SIZE_def)
    have q: "get16 ?t (?p + 2 * i) = (if i < n then PIH_ARGV + ucast (?off ! i) else 0)"
      using pointers_nth [of i ?off "take ?p (?P @ replicate (ARGV_SIZE - length ?P) 0)"] i unfolding lp by simp
    have "cstr ?t (unat (PIH_ARGV + ucast (?off ! i) - PIH_ARGV)) = args ! i" if "i < n"
    proof -
      let ?o = "length (packed (take i args))"
      have "?o \<le> 210" using packed_take_mono [of i n args] that n(3) by simp
      then have u: "unat (PIH_ARGV + ucast (?off ! i) - PIH_ARGV) = ?o"
        using that by (simp add: unat_ucast_up unat_of_nat min_def)
      have t: "?t = ?P @ take (?p - length ?P) (replicate (ARGV_SIZE - length ?P) 0) @ pointers ?off" using Pp by simp
      have "0 \<notin> set (args ! i)" using assms that n(1) by simp
      then show ?thesis
        unfolding u unfolding t using cstr_packed [of i "take n args"] that n(1) by (simp add: min_def)
    qed
    then show ?thesis unfolding q by simp
  qed
  let ?h = "h\<lparr>pih_argv := ?t, pih_argc := of_nat n\<rparr>"
  have "pih_argv ?h = ?t" "pih_argc ?h = of_nat n" by simp_all
  then show ?thesis using h n(1,2,4) good by (intro exI [of _ n] exI [of _ ?h]) presburger
qed



text \<open>
  the table overlaps the strings. The strings may take 210 bytes, but with 16 arguments the
  pointer table needs the last 34 of the 242: when 16 arguments fill the 210 bytes, the first
  pointer overwrites the terminator of the last string, and the program sees another argument.
\<close>

theorem execv_table_overlap:
  assumes "length args = 16" and "\<forall>a\<in>set args. length a < 0x7F00" and "length (packed args) = 210"
  shows "\<exists>h'. set_args args h = Some h' \<and> pih_argc h' = 16 \<and>
    cstr (pih_argv h') (length (packed (take 15 args))) \<noteq> args ! 15"
proof -
  obtain n where n: "n \<le> length args" "n \<le> 16" "n = length args \<or> n = 16 \<or> 210 < length (packed (take (Suc n) args))"
    and h: "set_args args h = Some (h\<lparr>pih_argv := take (ARGV_SIZE - (n + 1) * 2) (packed (take n args) @ replicate (ARGV_SIZE - length (packed (take n args))) 0) @
        pointers (map (\<lambda>i. of_nat (length (packed (take i (take n args))))) [0..<n]), pih_argc := of_nat n\<rparr>)"
    using set_args_table [OF assms(2), of h] by blast
  have "n = 16"
    using n packed_take_mono [of "Suc n" 16 args] assms(1,3) by (cases "n < 16") auto
  define t where "t = take 208 (packed args @ replicate 32 0) @
      pointers (map (\<lambda>i. of_nat (length (packed (take i args)))) [0..<16])"
  have t: "set_args args h = Some (h\<lparr>pih_argv := t, pih_argc := 16\<rparr>)"
    using h assms(1,3) unfolding \<open>n = 16\<close> t_def by (simp add: ARGV_SIZE_def min_def cong: map_cong)
  have "\<exists>rest. pointers (map (\<lambda>i. of_nat (length (packed (take i args)))) [0..<16]) = 0x0C # 0x4F # rest"
    by (simp add: pointers_def upt_conv_Cons bytes16_def PIH_ARGV_def GET_LOW_def GET_HIGH_def)
  then obtain rest where pt: "pointers (map (\<lambda>i. of_nat (length (packed (take i args)))) [0..<16]) = 0x0C # 0x4F # rest" ..
  have t209: "t ! 209 = 0x4F" "209 < length t"
    unfolding t_def pt using assms(3) by (simp_all add: nth_append)
  have o: "length (packed (take 15 args)) + length (args ! 15) = 209"
    using packed_take_Suc [of 15 args] assms(1,3) by simp
  have "cstr t (length (packed (take 15 args))) \<noteq> args ! 15"
  proof
    let ?xs = "drop (length (packed (take 15 args))) t"
    assume "cstr t (length (packed (take 15 args))) = args ! 15"
    then have l: "length (takeWhile (\<lambda>c. c \<noteq> 0) ?xs) = length (args ! 15)" by (simp add: cstr_def)
    then have "length (takeWhile (\<lambda>c. c \<noteq> 0) ?xs) < length ?xs" using o t209(2) by simp
    from nth_length_takeWhile [OF this] have "?xs ! length (args ! 15) = 0" unfolding l by blast
    then have "t ! (length (packed (take 15 args)) + length (args ! 15)) = 0" using o t209(2) by simp
    then show False unfolding o t209(1) by simp
  qed
  then show ?thesis using t by simp
qed

theorem execv_table_overlap_witness:
  "\<exists>h'. set_args (replicate 15 (replicate 12 0x61) @ [replicate 14 0x62])
      \<lparr>pih_magic = 0, pih_size = 0, pih_entry = 0, pih_flags = 0, pih_exitcode = 0, pih_argc = 0, pih_argv = []\<rparr> = Some h' \<and>
    cstr (pih_argv h') 195 \<noteq> replicate 14 0x62"
proof -
  let ?args = "replicate 15 (replicate 12 0x61) @ [replicate 14 0x62] :: u8 list list"
  let ?h = "\<lparr>pih_magic = 0, pih_size = 0, pih_entry = 0, pih_flags = 0, pih_exitcode = 0, pih_argc = 0, pih_argv = []\<rparr>"
  have "length (packed (replicate k (replicate 12 0x61))) = 13 * k" for k by (induction k) simp_all
  then have p: "length (packed ?args) = 210" "length (packed (take 15 ?args)) = 195" by simp_all
  have "?args ! 15 = replicate 14 0x62" by (simp add: nth_append)
  moreover have "length ?args = 16" "\<forall>a\<in>set ?args. length a < 0x7F00" by auto
  ultimately show ?thesis using execv_table_overlap [of ?args ?h] p by metis
qed

section \<open>Start-up\<close>

lemma store_bytes_other: "(\<forall>j<length bs. x \<noteq> a + of_nat j) \<Longrightarrow> store_bytes a bs m x = m x"
proof (induction bs arbitrary: a m)
  case (Cons b bs)
  have "x \<noteq> a" using Cons(2) by (auto dest: spec [of _ 0])
  moreover have "\<forall>j<length bs. x \<noteq> a + 1 + of_nat j"
    using Cons(2) by (auto dest: spec [of _ "Suc _"] simp: add.assoc)
  ultimately have "store_bytes (a + 1) bs (m(a := b)) x = (m(a := b)) x" by (intro Cons(1))
  also have "\<dots> = m x" using \<open>x \<noteq> a\<close> by (rule fun_upd_other)
  finally show ?case by (simp only: store_bytes.simps)
qed simp

lemma store_bytes_nth:
  "length bs \<le> 0x10000 \<Longrightarrow> j < length bs \<Longrightarrow> store_bytes a bs m (a + of_nat j) = bs ! j"
proof (induction bs arbitrary: a m j)
  case (Cons b bs)
  show ?case
  proof (cases j)
    case 0
    have "a \<noteq> a + 1 + of_nat i" if "i < length bs" for i
    proof
      assume "a = a + 1 + of_nat i"
      then have "(of_nat (Suc i) :: u16) = 0" by (simp add: add.assoc)
      then have "unat (of_nat (Suc i) :: u16) = 0" by (simp only: unat_0)
      then have "Suc i mod 2 ^ LENGTH(16) = 0" by (simp only: unat_of_nat)
      then show False using that Cons(2) by simp
    qed
    then show ?thesis using 0 store_bytes_other [of bs a "a + 1" "m(a := b)"] by simp
  next
    case (Suc i)
    have "store_bytes (a + 1) bs (m(a := b)) (a + 1 + of_nat i) = bs ! i" using Suc Cons(2,3) by (intro Cons(1)) simp_all
    then show ?thesis using Suc by (simp add: add.assoc)
  qed
qed simp

text \<open>
  C29: the kernel reaches the shell. From a mountable image whose \<^verbatim>\<open>SHELL.BIN\<close> is intact and smaller
  than 32768 bytes, the start-up ends in the shell, with exactly the file's bytes at the shell's
  load address; without a disk it panics.
\<close>

theorem kernel_reaches_shell:
  assumes "mountable img" and "buffers_ok (kfs k)" and "s = snd (fd_init (snd (mfs_init (Some img) (kfs k))))"
    and "find_file SHELL_BIN s = Some (Some i)" and "file_with s i bs" and "unat (f_size (files s ! i)) < 0x8000"
  shows "(\<exists>k'. kernel_main ws (Some img) k = Some (Shell_running, k') \<and>
      (\<forall>j<length (file_bytes s i bs). umem k' (SHELL_CODE_AREA + of_nat j) = file_bytes s i bs ! j)) \<and>
    (\<exists>k'. kernel_main ws None k = Some (Panic, k'))"
proof -
  have m: "fst (mfs_init (Some img) (kfs k)) = 0" "kfs_ok s"
    using mfs_init_ok [OF assms(1,2)] by (simp_all add: assms(3) fs_ok_def)
  obtain s' where le: "load_executable SHELL_BIN s = Some (0, file_bytes s i bs, s')"
    using load_executable_file [OF m(2) assms(4), of "\<lambda>_. bs"] assms(5,6) by auto
  let ?k3 = "k\<lparr>ktty := tty_init ws (ktty k), kfs := s\<rparr>"
  have "kernel_main ws (Some img) k = Some (Shell_running,
      ?k3\<lparr>kfs := s', umem := store_bytes SHELL_CODE_AREA (file_bytes s i bs) (umem k)\<rparr>)"
    using m(1) le assms(3)
    by (simp add: kernel_main_def exec_init_def load_at_def Let_def split_beta fd_init_def)
  moreover have "length (file_bytes s i bs) \<le> 0x10000"
    using assms(6) by (simp add: file_bytes_def)
  ultimately show ?thesis
    by (auto simp: store_bytes_nth kernel_main_def mfs_init_def Let_def)
qed

text \<open>A volume with a shell of three bytes.\<close>

definition shell_volume :: kstate where
  "shell_volume = (demo_open 3 0 3)\<lparr>files := (files (demo_open 3 0 3) ! 0)\<lparr>f_name := SHELL_BIN @ [0, 0, 0]\<rparr> # replicate 23 zero_file\<rparr>"

definition shell_kernel :: kernel where
  "shell_kernel = \<lparr>kfs = boot_kstate, ktty = demo_tty,
     pih = \<lparr>pih_magic = 0, pih_size = 0, pih_entry = 0, pih_flags = 0, pih_exitcode = 0, pih_argc = 0, pih_argv = []\<rparr>, umem = \<lambda>_. 0\<rparr>"

lemma shell_volume_sel:
  "root shell_volume = demo_root\<lparr>filecount := 1\<rparr>" "kdisk shell_volume = kdisk (demo_open 3 0 3)"
  "f_size (files shell_volume ! 0) = 3" "f_block (files shell_volume ! 0) = 3" "meta_apart (root shell_volume)"
  "checksum (root shell_volume) = CHECKSUM"
  by (simp_all add: shell_volume_def demo_open_def demo_root_def meta_apart_def)

lemma shell_volume_ok: "kfs_ok shell_volume" "file_with shell_volume 0 [3]" "find_file SHELL_BIN shell_volume = Some (Some 0)"
proof -
  show "kfs_ok shell_volume"
    using demo_open_kfs [of 3 0 3] by (simp add: kfs_ok_def shell_volume_def zero_file_def SHELL_BIN_def mfs_consts)
  have "file_with (demo_open 3 0 3) 0 [3]" by (rule demo_open_file) (simp add: mfs_consts)
  then show "file_with shell_volume 0 [3]" by (simp add: file_with_def marked_def shell_volume_def)
  have "unat (filecount (root shell_volume)) = 1" by (simp add: shell_volume_sel)
  then show "find_file SHELL_BIN shell_volume = Some (Some 0)"
    by (simp add: find_file_def shell_volume_def same_name_def SHELL_BIN_def MAX_FNAME_LEN_def numeral_eq_Suc)
qed

lemma shell_image_mountable: "mountable (kdisk (write_changes shell_volume))"
proof -
  note w = write_changes_sectors [OF shell_volume_ok(1) shell_volume_sel(5)]
  have r: "decode_root (sector (kdisk (write_changes shell_volume)) 0) = root shell_volume"
    unfolding w(1) root_buf_def by (rule decode_encode_root) (simp add: shell_volume_sel demo_root_def)
  have "kfs_ok (write_changes shell_volume)" by (rule write_changes_ok [OF shell_volume_ok(1)])
  then show ?thesis
    using w(2) unfolding mountable_def r by (simp add: kfs_ok_def has_sector_def shell_volume_sel demo_root_def mfs_consts)
qed

theorem kernel_reaches_shell_witness:
  "\<exists>k'. kernel_main 0x2000 (Some (kdisk (write_changes shell_volume))) shell_kernel = Some (Shell_running, k') \<and> umem k' 0x3801 = 8"
proof -
  let ?img = "kdisk (write_changes shell_volume)"
  have kb: "buffers_ok (kfs shell_kernel)" using boot_kstate_buffers by (simp add: shell_kernel_def)
  obtain t where t: "mfs_init (Some ?img) (kfs shell_kernel) = (0, t)" "root t = root shell_volume"
    "block_bitmap t = block_bitmap shell_volume" "files t = files shell_volume" "kdisk t = ?img"
    using remount_metadata [OF shell_volume_ok(1) shell_volume_sel(5,6) kb] by blast
  define s where "s = snd (fd_init (snd (mfs_init (Some ?img) (kfs shell_kernel))))"
  have s: "root s = root shell_volume" "block_bitmap s = block_bitmap shell_volume" "files s = files shell_volume" "kdisk s = ?img"
    using t by (simp_all add: s_def fd_init_def)
  have "has_sector (kdisk shell_volume) 3"
    using shell_volume_ok(1) by (rule kfs_has_sector) (simp add: shell_volume_sel demo_root_def)
  then have sec: "sector ?img 3 = sector (kdisk (demo_open 3 0 3)) 3"
    using write_changes_other [OF shell_volume_ok(1), of 3] by (simp add: meta_sectors_def shell_volume_sel demo_root_def)
  have fw: "file_with s 0 [3]"
    using shell_volume_ok(2) sec by (simp add: file_with_def marked_def s shell_volume_sel(2))
  have fb: "file_bytes s 0 [3] = [7, 8, 9]"
    unfolding file_bytes_def s shell_volume_sel
    by (simp add: sec demo_open_sector [of 3 0 3, unfolded append.simps] block_data_def mfs_consts)
  have ff: "find_file SHELL_BIN s = Some (Some 0)" using shell_volume_ok(3) by (simp add: find_file_def s)
  from kernel_reaches_shell [OF shell_image_mountable kb s_def ff fw, of "0x2000"]
  obtain k' where "kernel_main 0x2000 (Some ?img) shell_kernel = Some (Shell_running, k')"
    "\<forall>j<length [7, 8, 9 :: u8]. umem k' (SHELL_CODE_AREA + of_nat j) = [7, 8, 9] ! j"
    unfolding fb by (auto simp: s shell_volume_sel)
  moreover from this(2) have "umem k' (SHELL_CODE_AREA + of_nat 1) = [7, 8, 9] ! 1" by (metis length_Cons less_Suc_eq list.size(3) One_nat_def)
  ultimately show ?thesis by (auto simp: SHELL_CODE_AREA_def)
qed

end
