(* ===== verification/M80asm.thy ===== *)
theory M80asm
  imports Clib
begin

text \<open>
  The Z80 assembler of the userland (\<^verbatim>\<open>userland/m80asm.c\<close>), in its build for Manux, where
  \<^verbatim>\<open>int\<close> has 16 bits and \<^verbatim>\<open>long\<close> 32. The globals are a record passed through the
  functions; \<open>out\<close> holds the bytes written to the output file. Each group of the instruction
  selection returns \<open>None\<close> when control falls through to the groups behind it. The messages are not
  modelled.
\<close>

section \<open>State\<close>

record asm =
  pc :: u16
  pass :: nat
  labels :: "(string \<times> u16) list"
  out :: "u8 list"

definition int16 :: "int \<Rightarrow> int" where
  "int16 i = sint (of_int i :: u16)"

definition strtol :: "string \<Rightarrow> int" where
  "strtol s = int16 (strtol_clip 32 s)"

definition get_label_addr :: "string \<Rightarrow> asm \<Rightarrow> int" where
  "get_label_addr name st =
     (if pass st = 0 then -1
      else case find (\<lambda>l. fst l = name) (labels st) of None \<Rightarrow> -1 | Some l \<Rightarrow> sint (snd l))"

definition emitb :: "u8 \<Rightarrow> asm \<Rightarrow> asm" where
  "emitb b st =
     (let st1 = st\<lparr>pc := pc st + 1\<rparr>
      in if pass st1 = 0 then st1 else st1\<lparr>out := out st1 @ [b]\<rparr>)"

definition emitw :: "u16 \<Rightarrow> asm \<Rightarrow> asm" where
  "emitw w st = (if pass st = 0 then st\<lparr>pc := pc st + 2\<rparr> else emitb (GET_HIGH w) (emitb (GET_LOW w) st))"

definition emits :: "u8 list \<Rightarrow> asm \<Rightarrow> asm" where
  "emits bs st = fold emitb bs st"

definition emit_rel :: "string \<Rightarrow> u16 \<Rightarrow> asm \<Rightarrow> int \<times> asm" where
  "emit_rel addr base_pc st =
     (if pass st = 0 then (0, emitb 0 st)
      else let num = strtol addr in
        if -128 \<le> num \<and> num \<le> 127 then (0, emitb (of_int num) st)
        else if 0 \<le> num \<and> num \<le> 0xFF then (0, emitb (of_int num) st)
        else let offset = int16 (num - sint (base_pc + 2)) in
          if offset < -128 \<or> offset > 127 then (-1, st)
          else (0, emitb (of_int offset) st))"

section \<open>Operands\<close>

definition reg8 :: "string \<Rightarrow> int" where
  "reg8 name =
     (if name = ''B'' then 0 else if name = ''C'' then 1 else if name = ''D'' then 2
      else if name = ''E'' then 3 else if name = ''H'' then 4 else if name = ''L'' then 5
      else if name = ''(HL)'' then 6 else if name = ''A'' then 7 else -1)"

definition reg16 :: "string \<Rightarrow> int" where
  "reg16 name =
     (if name = ''BC'' then 0 else if name = ''DE'' then 1 else if name = ''HL'' then 2
      else if name = ''SP'' \<or> name = ''AF'' then 3 else -1)"

definition index_reg :: "string \<Rightarrow> int" where
  "index_reg name = (if name = ''IX'' then 0xDD else if name = ''IY'' then 0xFD else -1)"

definition jpcond :: "string \<Rightarrow> int" where
  "jpcond name =
     (if name = ''NZ'' then 0 else if name = ''Z'' then 1 else if name = ''NC'' then 2
      else if name = ''C'' then 3 else if name = ''PO'' then 4 else if name = ''PE'' then 5
      else if name = ''P'' then 6 else if name = ''M'' then 7 else -1)"

definition jrcond :: "string \<Rightarrow> int" where
  "jrcond name =
     (if name = ''NZ'' then 0 else if name = ''Z'' then 1 else if name = ''NC'' then 2
      else if name = ''C'' then 3 else -1)"

text \<open>The text between the parentheses of an operand of at least \<open>n\<close> characters.\<close>

definition inner :: "nat \<Rightarrow> string \<Rightarrow> string option" where
  "inner n s =
     (if length s < n \<or> hd s \<noteq> CHR ''('' \<or> last s \<noteq> CHR '')'' then None
      else Some (butlast (tl s)))"

definition mem_addr :: "string \<Rightarrow> int" where
  "mem_addr addr = (case inner 3 addr of None \<Rightarrow> -1 | Some b \<Rightarrow> strtol b)"

definition index_addr :: "string \<Rightarrow> (u8 \<times> int) option" where
  "index_addr str =
     (case inner 5 str of None \<Rightarrow> None
      | Some b \<Rightarrow>
        let prefix = (if take 2 b = ''IX'' then Some 0xDD else if take 2 b = ''IY'' then Some 0xFD else None);
            disp = strtol (drop 2 b)
        in case prefix of None \<Rightarrow> None
           | Some p \<Rightarrow>
             if b ! 2 \<noteq> CHR ''+'' \<and> b ! 2 \<noteq> CHR ''-'' then None
             else if disp < -128 \<or> disp > 127 then None
             else Some (p, disp))"

definition is_label :: "string \<Rightarrow> asm \<Rightarrow> string" where
  "is_label str st = (let a = get_label_addr str st in if a \<noteq> -1 then show_int a else str)"

definition is_label_ptr :: "string \<Rightarrow> asm \<Rightarrow> string" where
  "is_label_ptr str st =
     (case inner 3 str of None \<Rightarrow> str
      | Some b \<Rightarrow> let a = get_label_addr b st in if a \<noteq> -1 then ''('' @ show_int a @ '')'' else str)"

section \<open>Instruction selection\<close>

type_synonym result = "(int \<times> asm) option"

abbreviation ok :: "asm \<Rightarrow> result" where "ok st \<equiv> Some (0, st)"
abbreviation fail :: "asm \<Rightarrow> result" where "fail st \<equiv> Some (-1, st)"

text \<open>\<^verbatim>\<open>emitb(n)\<close> and \<^verbatim>\<open>emitw(n)\<close> with an \<^verbatim>\<open>int\<close> argument.\<close>

abbreviation byte :: "int \<Rightarrow> u8" where "byte i \<equiv> of_int i"
abbreviation wd :: "int \<Rightarrow> u16" where "wd i \<equiv> of_int i"

definition no_arg_ops :: "(string \<times> u8) list" where
  "no_arg_ops =
     [(''NOP'', 0x00), (''HALT'', 0x76), (''DI'', 0xF3), (''EI'', 0xFB), (''CPL'', 0x2F), (''SCF'', 0x37),
      (''CCF'', 0x3F), (''DAA'', 0x27), (''RLCA'', 0x07), (''RRCA'', 0x0F), (''RLA'', 0x17), (''RRA'', 0x1F),
      (''EXX'', 0xD9)]"

definition gen_ld :: "string \<Rightarrow> string \<Rightarrow> asm \<Rightarrow> result" where
  "gen_ld arg1 arg2 st =
     (let reg1 = reg8 arg1; reg2 = reg8 arg2 in
      if index_addr arg2 \<noteq> None \<and> reg1 \<noteq> -1 \<and> reg1 \<noteq> 6 then
        let (p, d) = the (index_addr arg2) in ok (emits [p, byte (0x46 + reg1 * 8), byte d] st)
      else if index_addr arg1 \<noteq> None then
        let (p, d) = the (index_addr arg1) in
        if reg2 \<noteq> -1 \<and> reg2 \<noteq> 6 then ok (emits [p, byte (0x70 + reg2), byte d] st)
        else ok (emits [p, 0x36, byte d, byte (strtol arg2)] st)
      else if arg1 = ''A'' \<and> arg2 = ''(BC)'' then ok (emits [0x0A] st)
      else if arg1 = ''A'' \<and> arg2 = ''(DE)'' then ok (emits [0x1A] st)
      else if arg1 = ''(BC)'' \<and> arg2 = ''A'' then ok (emits [0x02] st)
      else if arg1 = ''(DE)'' \<and> arg2 = ''A'' then ok (emits [0x12] st)
      else if arg1 = ''A'' \<and> 0 \<le> mem_addr arg2 then ok (emitw (wd (mem_addr arg2)) (emitb 0x3A st))
      else if arg1 = ''HL'' \<and> 0 \<le> mem_addr arg2 then ok (emitw (wd (mem_addr arg2)) (emitb 0x2A st))
      else if arg2 = ''A'' \<and> 0 \<le> mem_addr arg1 then ok (emitw (wd (mem_addr arg1)) (emitb 0x32 st))
      else if arg2 = ''HL'' \<and> 0 \<le> mem_addr arg1 then ok (emitw (wd (mem_addr arg1)) (emitb 0x22 st))
      else if index_reg arg2 \<noteq> -1 \<and> 0 \<le> mem_addr arg1 then
        ok (emitw (wd (mem_addr arg1)) (emits [byte (index_reg arg2), 0x22] st))
      else if arg1 = ''SP'' \<and> arg2 = ''HL'' then ok (emits [0xF9] st)
      else if reg1 \<noteq> -1 \<and> reg2 \<noteq> -1 then
        if reg1 = 6 \<and> reg2 = 6 then fail st else ok (emits [byte (0x40 + reg1 * 8 + reg2)] st)
      else if reg1 \<noteq> -1 then ok (emits [byte (0x06 + reg1 * 8), byte (strtol arg2)] st)
      else if arg1 = ''SP'' \<and> index_reg arg2 \<noteq> -1 then ok (emits [byte (index_reg arg2), 0xF9] st)
      else if reg16 arg1 \<noteq> -1 then ok (emitw (wd (strtol arg2)) (emitb (byte (0x01 + reg16 arg1 * 16)) st))
      else if index_reg arg1 \<noteq> -1 then
        ok (emitw (wd (strtol arg2)) (emits [byte (index_reg arg1), 0x21] st))
      else None)"

definition gen_inc :: "string \<Rightarrow> asm \<Rightarrow> result" where
  "gen_inc arg1 st =
     (if reg8 arg1 \<noteq> -1 then ok (emits [byte (0x04 + reg8 arg1 * 8)] st)
      else if reg16 arg1 \<noteq> -1 then ok (emits [byte (0x03 + reg16 arg1 * 16)] st)
      else if index_reg arg1 \<noteq> -1 then ok (emits [byte (index_reg arg1), 0x23] st)
      else None)"

definition gen_dec :: "string \<Rightarrow> asm \<Rightarrow> result" where
  "gen_dec arg1 st =
     (if reg8 arg1 \<noteq> -1 then ok (emits [byte (0x05 + reg8 arg1 * 8)] st)
      else if reg16 arg1 \<noteq> -1 then ok (emits [byte (0x0B + reg16 arg1 * 16)] st)
      else if index_reg arg1 \<noteq> -1 then ok (emits [byte (index_reg arg1), 0x2B] st)
      else None)"

definition gen_add :: "string \<Rightarrow> string \<Rightarrow> asm \<Rightarrow> result" where
  "gen_add arg1 arg2 st =
     (if arg1 = ''A'' then
        if reg8 arg2 \<noteq> -1 then ok (emits [byte (0x80 + reg8 arg2)] st)
        else ok (emits [0xC6, byte (strtol arg2)] st)
      else if arg1 = ''HL'' \<and> reg16 arg2 \<noteq> -1 then ok (emits [byte (0x09 + reg16 arg2 * 16)] st)
      else if index_reg arg1 \<noteq> -1 \<and> reg16 arg2 \<noteq> -1 then
        ok (emits [byte (index_reg arg1), byte (0x09 + reg16 arg2 * 16)] st)
      else None)"

definition gen_adc :: "string \<Rightarrow> string \<Rightarrow> asm \<Rightarrow> result" where
  "gen_adc arg1 arg2 st =
     (if arg1 \<noteq> ''A'' then fail st
      else if reg8 arg2 \<noteq> -1 then ok (emits [byte (0x88 + reg8 arg2)] st)
      else ok (emits [0xCE, byte (strtol arg2)] st))"

definition gen_sub :: "string \<Rightarrow> asm \<Rightarrow> result" where
  "gen_sub arg1 st =
     (if reg8 arg1 \<noteq> -1 then ok (emits [byte (0x90 + reg8 arg1)] st)
      else ok (emits [0xD6, byte (strtol arg1)] st))"

definition gen_sbc :: "string \<Rightarrow> string \<Rightarrow> asm \<Rightarrow> result" where
  "gen_sbc arg1 arg2 st =
     (if arg1 \<noteq> ''A'' then fail st
      else if reg8 arg2 \<noteq> -1 then ok (emits [byte (0x98 + reg8 arg2)] st)
      else ok (emits [0xDE, byte (strtol arg2)] st))"

definition gen_logic :: "int \<Rightarrow> u8 \<Rightarrow> string \<Rightarrow> asm \<Rightarrow> result" where
  "gen_logic base imm_base arg1 st =
     (if reg8 arg1 \<noteq> -1 then ok (emits [byte (base + reg8 arg1)] st)
      else ok (emits [imm_base, byte (strtol arg1)] st))"

definition gen_push_pop :: "int \<Rightarrow> u8 \<Rightarrow> string \<Rightarrow> asm \<Rightarrow> result" where
  "gen_push_pop base index_op arg1 st =
     (if reg16 arg1 \<noteq> -1 then ok (emits [byte (base + reg16 arg1 * 16)] st)
      else if index_reg arg1 \<noteq> -1 then ok (emits [byte (index_reg arg1), index_op] st)
      else None)"

definition gen_rst :: "string \<Rightarrow> asm \<Rightarrow> result" where
  "gen_rst arg1 st =
     (if 0 \<le> strtol arg1 \<and> strtol arg1 \<le> 0x38 then ok (emits [byte (0xC7 + strtol arg1)] st) else None)"

definition gen_jp :: "string \<Rightarrow> string \<Rightarrow> asm \<Rightarrow> result" where
  "gen_jp arg1 arg2 st =
     (if arg1 = ''(HL)'' then ok (emits [0xE9] st)
      else if arg2 \<noteq> [] then
        if jpcond arg1 = -1 then fail st
        else ok (emitw (wd (strtol arg2)) (emitb (byte (0xC2 + jpcond arg1 * 8)) st))
      else if arg1 \<noteq> [] then ok (emitw (wd (strtol arg1)) (emitb 0xC3 st))
      else None)"

definition gen_jr :: "string \<Rightarrow> string \<Rightarrow> asm \<Rightarrow> result" where
  "gen_jr arg1 arg2 st =
     (let curr_pc = pc st in
      if arg2 \<noteq> [] then
        if jrcond arg1 = -1 then fail st
        else Some (emit_rel arg2 curr_pc (emitb (byte (0x20 + jrcond arg1 * 8)) st))
      else if arg1 \<noteq> [] then Some (emit_rel arg1 curr_pc (emitb 0x18 st))
      else None)"

definition call_target :: "string \<Rightarrow> asm \<Rightarrow> asm" where
  "call_target arg st =
     (let label_addr = get_label_addr arg st
      in if label_addr \<noteq> -1 then emitw (wd label_addr) st else emitw (wd (strtol arg)) st)"

definition gen_call :: "string \<Rightarrow> string \<Rightarrow> asm \<Rightarrow> result" where
  "gen_call arg1 arg2 st =
     (if arg2 \<noteq> [] then
        if jpcond arg1 = -1 then fail st
        else ok (call_target arg2 (emitb (byte (0xC4 + jpcond arg1 * 8)) st))
      else if arg1 \<noteq> [] then ok (call_target arg1 (emitb 0xCD st))
      else None)"

definition gen_ret :: "string \<Rightarrow> asm \<Rightarrow> result" where
  "gen_ret arg1 st =
     (if arg1 \<noteq> [] then
        if jpcond arg1 = -1 then fail st else ok (emits [byte (0xC0 + jpcond arg1 * 8)] st)
      else ok (emits [0xC9] st))"

definition gen_in :: "string \<Rightarrow> string \<Rightarrow> asm \<Rightarrow> result" where
  "gen_in arg1 arg2 st =
     (if arg1 = ''A'' \<and> arg2 \<noteq> [] then ok (emits [0xDB, byte (mem_addr arg2)] st) else None)"

definition gen_out :: "string \<Rightarrow> string \<Rightarrow> asm \<Rightarrow> result" where
  "gen_out arg1 arg2 st =
     (if arg2 = ''A'' \<and> arg1 \<noteq> [] then ok (emits [0xD3, byte (mem_addr arg1)] st) else None)"

definition gen_ex :: "string \<Rightarrow> string \<Rightarrow> asm \<Rightarrow> result" where
  "gen_ex arg1 arg2 st =
     (if arg1 = ''AF'' \<and> arg2 = ''AF'' @ [CHR 0x27] then ok (emits [0x08] st)
      else if arg1 = ''DE'' \<and> arg2 = ''HL'' then ok (emits [0xEB] st)
      else if arg1 = ''(SP)'' \<and> arg2 = ''HL'' then ok (emits [0xE3] st)
      else None)"

definition gen_args :: "string \<Rightarrow> string \<Rightarrow> string \<Rightarrow> asm \<Rightarrow> result" where
  "gen_args op arg1 arg2 st =
     (if op = ''LD'' then gen_ld arg1 arg2 st
      else if op = ''INC'' then gen_inc arg1 st
      else if op = ''DEC'' then gen_dec arg1 st
      else if op = ''ADD'' then gen_add arg1 arg2 st
      else if op = ''ADC'' then gen_adc arg1 arg2 st
      else if op = ''SUB'' then gen_sub arg1 st
      else if op = ''SBC'' then gen_sbc arg1 arg2 st
      else if op = ''AND'' then gen_logic 0xA0 0xE6 arg1 st
      else if op = ''OR'' then gen_logic 0xB0 0xF6 arg1 st
      else if op = ''XOR'' then gen_logic 0xA8 0xEE arg1 st
      else if op = ''CP'' then gen_logic 0xB8 0xFE arg1 st
      else if op = ''PUSH'' then gen_push_pop 0xC5 0xE5 arg1 st
      else if op = ''POP'' then gen_push_pop 0xC1 0xE1 arg1 st
      else if op = ''RST'' then gen_rst arg1 st
      else if op = ''JP'' then gen_jp arg1 arg2 st
      else if op = ''JR'' then gen_jr arg1 arg2 st
      else if op = ''CALL'' then gen_call arg1 arg2 st
      else if op = ''RET'' then gen_ret arg1 st
      else if op = ''IN'' then gen_in arg1 arg2 st
      else if op = ''OUT'' then gen_out arg1 arg2 st
      else if op = ''DJNZ'' then Some (emit_rel arg1 (pc st) (emitb 0x10 st))
      else if op = ''EX'' then gen_ex arg1 arg2 st
      else None)"

text \<open>The part of \<^verbatim>\<open>line_codegen\<close> behind the tokens.\<close>

definition gen_line :: "string \<Rightarrow> string \<Rightarrow> string \<Rightarrow> asm \<Rightarrow> int \<times> asm" where
  "gen_line op arg1 arg2 st =
     (case map_of no_arg_ops op of Some b \<Rightarrow> (0, emitb b st)
      | None \<Rightarrow>
        let res = (\<lambda>a. if pass st = 1 then is_label_ptr (is_label a st) st else a)
        in case gen_args op (res arg1) (res arg2) st of Some r \<Rightarrow> r | None \<Rightarrow> (-1, st))"

definition define_label :: "string \<Rightarrow> asm \<Rightarrow> int \<times> asm" where
  "define_label name st =
     (if pass st = 0 then
        if 32 \<le> length (labels st) then (-1, st)
        else (0, st\<lparr>labels := labels st @ [(take 19 name, pc st)]\<rparr>)
      else (0, st))"

section \<open>Lines\<close>

datatype stmt = Blank | Label string | Instr string string string

definition next_arg :: "string \<Rightarrow> string \<times> string" where
  "next_arg s = (case strtok s [CHR '' '', CHR 0x09, CHR '',''] of None \<Rightarrow> ([], []) | Some (t, rest) \<Rightarrow> (take 19 t, rest))"

text \<open>Comments, upper case and the tokens, cut to 19 characters.\<close>

definition parse_line :: "string \<Rightarrow> stmt" where
  "parse_line line =
     (if line \<noteq> [] \<and> hd line = CHR '';'' then Blank
      else case strtok (map toupper (takeWhile (\<lambda>c. c \<noteq> CHR '';'') line)) [CHR '' '', CHR 0x09] of None \<Rightarrow> Blank
        | Some (token, rest) \<Rightarrow>
          let op = take 19 token in
          if last op = CHR '':'' then Label (butlast op)
          else let (arg1, rest1) = next_arg rest; (arg2, rest2) = next_arg rest1 in Instr op arg1 arg2)"

fun gen_stmt :: "stmt \<Rightarrow> asm \<Rightarrow> int \<times> asm" where
  "gen_stmt Blank st = (0, st)"
| "gen_stmt (Label name) st = define_label name st"
| "gen_stmt (Instr op arg1 arg2) st = gen_line op arg1 arg2 st"

definition line_codegen :: "string \<Rightarrow> asm \<Rightarrow> int \<times> asm" where
  "line_codegen line st = gen_stmt (parse_line line) st"

section \<open>The passes\<close>

text \<open>
  The loop that reads a line of at most \<open>n\<close> characters: the line, whether the end of the file was
  met, and the rest of the input.
\<close>

fun read_line :: "nat \<Rightarrow> string \<Rightarrow> string \<times> bool \<times> string" where
  "read_line 0 inp = ([], False, inp)"
| "read_line (Suc n) [] = ([], True, [])"
| "read_line (Suc n) (c # cs) =
     (if c = CHR 0x0A then ([], False, cs)
      else let (l, e, r) = read_line n cs in (c # l, e, r))"

lemma read_line_shorter: "read_line (Suc n) (c # cs) = (l, e, r) \<Longrightarrow> length r < length (c # cs)"
proof -
  have "length (snd (snd (read_line n cs))) \<le> length cs" for n cs
    by (induction n cs rule: read_line.induct) (auto simp: split_beta Let_def)
  from this [of n cs] show "read_line (Suc n) (c # cs) = (l, e, r) \<Longrightarrow> ?thesis"
    by (auto simp: split_beta Let_def split: if_splits)
qed

lemma read_line_less: "(l, e, r) = read_line 126 inp \<Longrightarrow> \<not> (e \<and> l = []) \<Longrightarrow> length r < length inp"
  using read_line_shorter [of 125 "hd inp" "tl inp" l e r] by (cases inp) (simp_all add: numeral_eq_Suc)

text \<open>
  The reads of a pass: the characters they deliver, and whether the read behind the last character
  fails (\<^verbatim>\<open>code < 0\<close>) instead of reporting the end of the file. A failed read ends the pass,
  also in the middle of a line.
\<close>

type_synonym reading = "string \<times> bool"

function pass_loop :: "reading \<Rightarrow> asm \<Rightarrow> asm" where
  "pass_loop (inp, err) st =
     (case read_line 126 inp of (l, e, r) \<Rightarrow>
        if e \<and> (l = [] \<or> err) then st
        else case line_codegen (takeWhile (\<lambda>c. c \<noteq> CHR 0x00) l) st of (code, st1) \<Rightarrow>
          if code < 0 then st1 else pass_loop (r, err) st1)"
  by pat_completeness auto
termination
  by (relation "measure (\<lambda>((inp, err), st). length inp)") (use read_line_less in auto)

declare pass_loop.simps [simp del]

text \<open>
  The two passes from the start address. In front of each pass the program seeks to the beginning of
  the input file; \<open>reads p\<close> is what the reads of pass \<open>p\<close> behind that seek deliver.
\<close>

definition assemble :: "u16 \<Rightarrow> (nat \<Rightarrow> reading) \<Rightarrow> asm" where
  "assemble basepc reads =
     (let st0 = pass_loop (reads 0) \<lparr>pc = basepc, pass = 0, labels = [], out = []\<rparr>
      in pass_loop (reads 1) (st0\<lparr>pc := basepc, pass := 1\<rparr>))"

text \<open>\<^verbatim>\<open>--org\<close> among the additional arguments; the last one counts.\<close>

fun parse_org :: "string list \<Rightarrow> u16 \<Rightarrow> u16" where
  "parse_org (a # b # rest) basepc =
     (if a = ''--org'' then parse_org rest (of_int (strtol_clip 32 b)) else parse_org (b # rest) basepc)"
| "parse_org _ basepc = basepc"

text \<open>
  \<^verbatim>\<open>main\<close>: the exit code and the bytes given to the writes of the output file. \<open>files\<close> are the
  input files that can be opened, with what the reads of the two passes deliver.
\<close>

definition m80asm_main :: "string list \<Rightarrow> (string \<Rightarrow> (nat \<Rightarrow> reading) option) \<Rightarrow> bool \<Rightarrow> int \<times> u8 list option" where
  "m80asm_main argv files can_write =
     (if length argv < 3 then (-1, None)
      else let basepc = parse_org (drop 3 argv) 0x5000
        in case files (argv ! 1) of None \<Rightarrow> (-1, None)
           | Some reads \<Rightarrow> if \<not> can_write then (-1, None) else (0, Some (out (assemble basepc reads))))"

end
