(* ===== verification/M80asm_Spec.thy ===== *)
theory M80asm_Spec
  imports M80asm
begin

text \<open>
  The two passes of the assembler agree. The first pass assigns the addresses of the labels before
  any label is known, so it must give every line the size the second pass gives it. It does for
  labels that are identifiers, no names of registers or conditions, and below 0x8000.
\<close>

section \<open>Sizes\<close>

lemma emitb_sel [simp]:
  "pc (emitb b st) = pc st + 1" "pass (emitb b st) = pass st" "labels (emitb b st) = labels st"
  "out (emitb b st) = (if pass st = 0 then out st else out st @ [b])"
  by (simp_all add: emitb_def Let_def)

lemma emitw_sel [simp]:
  "pc (emitw w st) = pc st + 2" "pass (emitw w st) = pass st" "labels (emitw w st) = labels st"
  "out (emitw w st) = (if pass st = 0 then out st else out st @ [GET_LOW w, GET_HIGH w])"
  by (simp_all add: emitw_def)

lemma emits_sel [simp]:
  "pc (emits bs st) = pc st + of_nat (length bs)" "pass (emits bs st) = pass st" "labels (emits bs st) = labels st"
  "out (emits bs st) = (if pass st = 0 then out st else out st @ bs)"
  by (induction bs arbitrary: st) (simp_all add: emits_def)

lemma emit_rel_sel:
  "0 \<le> fst (emit_rel a b st) \<Longrightarrow> pc (snd (emit_rel a b st)) = pc st + 1"
  "pass (snd (emit_rel a b st)) = pass st" "labels (snd (emit_rel a b st)) = labels st"
  "pass st = 0 \<Longrightarrow> fst (emit_rel a b st) = 0"
  by (auto simp: emit_rel_def Let_def split: if_splits)

lemma call_target_sel [simp]:
  "pc (call_target a st) = pc st + 2" "pass (call_target a st) = pass st" "labels (call_target a st) = labels st"
  by (simp_all add: call_target_def Let_def)

section \<open>Operands of the same shape\<close>

definition special_operands :: "string list" where
  "special_operands = [''A'', ''HL'', ''SP'', ''DE'', ''AF'', ''AF'' @ [CHR 0x27], ''(BC)'', ''(DE)'', ''(HL)'', ''(SP)'']"

text \<open>All that the selection of an instruction looks at, apart from values of numbers.\<close>

definition same_shape :: "string \<Rightarrow> string \<Rightarrow> bool" where
  "same_shape a b \<longleftrightarrow> reg8 a = reg8 b \<and> reg16 a = reg16 b \<and> index_reg a = index_reg b \<and>
     jpcond a = jpcond b \<and> jrcond a = jrcond b \<and> index_addr a = index_addr b \<and>
     (0 \<le> mem_addr a) = (0 \<le> mem_addr b) \<and> (\<forall>k\<in>set special_operands. (a = k) = (b = k)) \<and>
     (a = []) = (b = []) \<and> (a = b \<or> strtol a = 0)"

lemma same_shape_refl [simp]: "same_shape a a"
  by (simp add: same_shape_def)

lemma same_shapeD:
  assumes "same_shape a b"
  shows "reg8 a = reg8 b" "reg16 a = reg16 b" "index_reg a = index_reg b" "jpcond a = jpcond b" "jrcond a = jrcond b"
    "index_addr a = index_addr b" "(0 \<le> mem_addr a) = (0 \<le> mem_addr b)" "(a = []) = (b = [])"
    "(a = ''A'') = (b = ''A'')" "(a = ''HL'') = (b = ''HL'')" "(a = ''SP'') = (b = ''SP'')" "(a = ''DE'') = (b = ''DE'')"
    "(a = ''AF'') = (b = ''AF'')" "(a = ''AF'' @ [CHR 0x27]) = (b = ''AF'' @ [CHR 0x27])" "(a = ''(BC)'') = (b = ''(BC)'')"
    "(a = ''(DE)'') = (b = ''(DE)'')" "(a = ''(HL)'') = (b = ''(HL)'')" "(a = ''(SP)'') = (b = ''(SP)'')"
  using assms by (simp_all add: same_shape_def special_operands_def)

text \<open>The first pass succeeds and takes as many bytes where the second succeeds.\<close>

definition agree :: "result \<Rightarrow> result \<Rightarrow> bool" where
  "agree r0 r1 \<longleftrightarrow>
     (\<forall>c1 s1. r1 = Some (c1, s1) \<and> 0 \<le> c1 \<longrightarrow> (\<exists>c0 s0. r0 = Some (c0, s0) \<and> 0 \<le> c0 \<and> pc s0 = pc s1))"

lemma agree_if: "agree r q \<Longrightarrow> agree r' q' \<Longrightarrow> agree (if c then r else r') (if c then q else q')"
  by simp

lemma agree_ok: "pc s0 = pc s1 \<Longrightarrow> agree (ok s0) (ok s1)"
  by (simp add: agree_def)

lemma agree_fail: "agree r (fail s)" "agree r None"
  by (simp_all add: agree_def)

lemmas agree_rules = agree_if agree_ok agree_fail

lemma agree_pair: "(\<And>x y. agree (f x y) (g x y)) \<Longrightarrow> agree (let (x, y) = p in f x y) (let (x, y) = p in g x y)"
  by (simp add: split_beta)

lemma gen_ld_agree:
  assumes "same_shape a1 b1" and "same_shape a2 b2" and "pc s0 = pc s1"
  shows "agree (gen_ld a1 a2 s0) (gen_ld b1 b2 s1)"
  unfolding gen_ld_def Let_def [of "reg8 _"] same_shapeD [OF assms(1)] same_shapeD [OF assms(2)]
  by (intro agree_rules agree_pair) (simp_all add: assms(3))

lemma gen_small_agree:
  assumes "same_shape a1 b1" and "same_shape a2 b2" and "pc s0 = pc s1"
  shows "agree (gen_inc a1 s0) (gen_inc b1 s1)" "agree (gen_dec a1 s0) (gen_dec b1 s1)"
    "agree (gen_add a1 a2 s0) (gen_add b1 b2 s1)" "agree (gen_adc a1 a2 s0) (gen_adc b1 b2 s1)"
    "agree (gen_sub a1 s0) (gen_sub b1 s1)" "agree (gen_sbc a1 a2 s0) (gen_sbc b1 b2 s1)"
    "agree (gen_logic base ib a1 s0) (gen_logic base ib b1 s1)"
    "agree (gen_push_pop base ib a1 s0) (gen_push_pop base ib b1 s1)"
    "agree (gen_jp a1 a2 s0) (gen_jp b1 b2 s1)" "agree (gen_call a1 a2 s0) (gen_call b1 b2 s1)"
    "agree (gen_ret a1 s0) (gen_ret b1 s1)" "agree (gen_in a1 a2 s0) (gen_in b1 b2 s1)"
    "agree (gen_out a1 a2 s0) (gen_out b1 b2 s1)" "agree (gen_ex a1 a2 s0) (gen_ex b1 b2 s1)"
  unfolding gen_inc_def gen_dec_def gen_add_def gen_adc_def gen_sub_def gen_sbc_def gen_logic_def gen_push_pop_def
    gen_jp_def gen_call_def gen_ret_def gen_in_def gen_out_def gen_ex_def
    same_shapeD [OF assms(1)] same_shapeD [OF assms(2)]
  by (simp_all add: agree_def assms(3))

lemma gen_rel_agree:
  assumes "same_shape a1 b1" and "same_shape a2 b2" and "pc s0 = pc s1" and "pass s0 = 0"
  shows "agree (gen_jr a1 a2 s0) (gen_jr b1 b2 s1)"
    "agree (Some (emit_rel a1 (pc s0) (emitb x s0))) (Some (emit_rel b1 (pc s1) (emitb x s1)))"
    "agree (gen_rst a1 s0) (gen_rst b1 s1)"
proof -
  have rel: "agree (Some (emit_rel a p (emitb x s0))) (Some (emit_rel b q (emitb x s1)))" for a b p q x
    using emit_rel_sel(4) [of "emitb x s0" a p] emit_rel_sel(1) [of a p "emitb x s0"] emit_rel_sel(1) [of b q "emitb x s1"] assms(3,4)
    by (cases "emit_rel a p (emitb x s0)"; cases "emit_rel b q (emitb x s1)") (auto simp: agree_def)
  then show "agree (Some (emit_rel a1 (pc s0) (emitb x s0))) (Some (emit_rel b1 (pc s1) (emitb x s1)))" .
  show "agree (gen_jr a1 a2 s0) (gen_jr b1 b2 s1)"
    unfolding gen_jr_def Let_def same_shapeD [OF assms(1)] same_shapeD [OF assms(2)]
    using rel by (simp add: agree_def)
  show "agree (gen_rst a1 s0) (gen_rst b1 s1)"
    using assms(1,3) unfolding same_shape_def gen_rst_def by (elim conjE disjE) (simp_all add: agree_def)
qed

lemma gen_args_agree:
  assumes "same_shape a1 b1" and "same_shape a2 b2" and "pc s0 = pc s1" and "pass s0 = 0"
  shows "agree (gen_args op a1 a2 s0) (gen_args op b1 b2 s1)"
  unfolding gen_args_def
  by (intro agree_if agree_fail gen_ld_agree [OF assms(1-3)] gen_small_agree [OF assms(1-3)] gen_rel_agree [OF assms])

section \<open>Labels that keep the shape\<close>

definition reserved :: "string list" where
  "reserved = [''A'', ''B'', ''C'', ''D'', ''E'', ''H'', ''L'', ''BC'', ''DE'', ''HL'', ''SP'', ''AF'', ''IX'', ''IY'',
     ''NZ'', ''Z'', ''NC'', ''PO'', ''PE'', ''P'', ''M'']"

definition ident_char :: "char \<Rightarrow> bool" where
  "ident_char c \<longleftrightarrow> digit_value c \<noteq> None \<or> c = CHR ''_''"

definition plain_label :: "string \<Rightarrow> bool" where
  "plain_label name \<longleftrightarrow> name \<noteq> [] \<and> list_all ident_char name \<and> digits 10 1 [hd name] = 1 \<and> name \<notin> set reserved"

lemma not_ident [simp]: "\<not> ident_char CHR ''(''" "\<not> ident_char CHR '')''" "\<not> ident_char CHR ''+''" "\<not> ident_char CHR ''-''"
    "\<not> ident_char CHR '' ''" "\<not> ident_char (CHR 0x27)"
  by (simp_all add: ident_char_def digit_value_def)

lemma ident_not_space: "ident_char c \<Longrightarrow> \<not> is_space c"
  by (auto simp: ident_char_def is_space_def digit_value_def Let_def split: if_splits)

lemma ident_digit_char [simp]: "d < 10 \<Longrightarrow> ident_char (digit_char d)"
  by (simp add: ident_char_def)

lemma strtol_no_number:
  assumes "s \<noteq> []" and "\<not> is_space (hd s)" and "hd s \<noteq> CHR ''+''" and "hd s \<noteq> CHR ''-''" and "digits 10 1 [hd s] = 1"
  shows "strtol s = 0"
proof -
  obtain c cs where s: "s = c # cs" using assms(1) by (cases s) auto
  have c0: "c \<noteq> CHR ''0''" using assms(5) s by (auto simp: digit_value_def)
  have "digits 10 0 (c # cs) = 0" using assms(5) s by (simp split: option.splits if_splits)
  then show ?thesis using assms s c0
    by (auto simp: strtol_def strtol_clip_def strtol_value_def Let_def magnitude_def is_hex_prefix_def int16_def split: list.splits)
qed

lemma strtol_show:
  assumes "n < 0x8000"
  shows "strtol (show_nat n) = int n"
proof -
  have "strtol_clip 32 (show_int (int n)) = int n" by (rule strtol_show_int) (use assms in simp_all)
  moreover have "sint (word_of_int (int n) :: u16) = int n" using assms sint_small [of "of_nat n"] by (simp add: unat_of_nat)
  ultimately show ?thesis by (simp add: strtol_def int16_def show_int_def)
qed

text \<open>An operand that is neither a register nor a condition nor in parentheses.\<close>

definition unnamed :: "string \<Rightarrow> bool" where
  "unnamed s \<longleftrightarrow> s \<noteq> [] \<and> s \<notin> set reserved \<and> s \<notin> set special_operands"

lemma unnamed_shape:
  assumes "unnamed s"
  shows "reg8 s = -1" "reg16 s = -1" "index_reg s = -1" "jpcond s = -1" "jrcond s = -1"
  using assms
  unfolding unnamed_def reserved_def special_operands_def reg8_def reg16_def index_reg_def jpcond_def jrcond_def
  by simp_all

lemma same_shapeI:
  assumes "unnamed a" and "unnamed b" and "index_addr a = None" and "index_addr b = None"
    and "(0 \<le> mem_addr a) = (0 \<le> mem_addr b)" and "strtol a = 0"
  shows "same_shape a b"
  using assms(3-6) unnamed_shape [OF assms(1)] unnamed_shape [OF assms(2)] assms(1,2)
  by (auto simp: same_shape_def unnamed_def)

lemma show_ident: "list_all ident_char (show_nat n)"
  using show_nat_digits [of n] by (auto simp: list_all_iff)

lemma ident_no_paren: "list_all ident_char s \<Longrightarrow> inner n s = None \<or> s = []"
  by (cases s) (auto simp: inner_def)

lemma ident_operand:
  assumes "list_all ident_char s" and "s \<noteq> []"
  shows "index_addr s = None" "mem_addr s = -1" "is_label_ptr s st = s"
  using ident_no_paren [OF assms(1), of 3] ident_no_paren [OF assms(1), of 5] assms(2)
  by (simp_all add: index_addr_def mem_addr_def is_label_ptr_def)

lemma ident_unnamed:
  assumes "list_all ident_char s" and "s \<noteq> []" and "s \<notin> set reserved"
  shows "unnamed s"
proof -
  have "list_all (\<lambda>w. list_all ident_char w \<longrightarrow> List.member reserved w) special_operands" by code_simp
  then show ?thesis using assms by (auto simp: unnamed_def list_all_iff)
qed

lemma show_not_reserved: "show_nat n \<notin> set reserved"
proof -
  have "list_all (\<lambda>w. w \<noteq> [] \<and> digits 10 1 [hd w] = 1) reserved" by code_simp
  moreover obtain d where "d < 10" "hd (show_nat n) = digit_char d"
    using show_nat_digits [of n] by (metis list.set_sel(1) show_nat_not_Nil)
  then have "digits 10 1 [hd (show_nat n)] \<noteq> 1" by simp
  ultimately show ?thesis by (auto simp: list_all_iff)
qed

definition resolve :: "asm \<Rightarrow> string \<Rightarrow> string" where
  "resolve st a = is_label_ptr (is_label a st) st"

definition good_labels :: "asm \<Rightarrow> bool" where
  "good_labels st = list_all (\<lambda>(n, a). plain_label n \<and> a < 0x8000) (labels st)"

lemma get_label_addr_cases:
  assumes "good_labels st"
  obtains "get_label_addr n st = -1"
  | a where "plain_label n" and "a < 0x8000" and "get_label_addr n st = int a" and "show_int (int a) = show_nat a"
proof (cases "find (\<lambda>l. fst l = n) (labels st)")
  case None
  then show thesis using that(1) by (simp add: get_label_addr_def)
next
  case (Some l)
  then have l: "l \<in> set (labels st)" "fst l = n" by (auto simp: find_Some_iff)
  then have g: "plain_label n" "snd l < 0x8000" using assms by (auto simp: good_labels_def list_all_iff)
  then have u: "unat (snd l) < 0x8000" by (simp add: word_less_nat_alt)
  show thesis
  proof (cases "pass st = 0")
    case True
    then show thesis using that(1) by (simp add: get_label_addr_def)
  next
    case False
    then show thesis
      using that(2) [of "unat (snd l)"] g(1) u Some sint_small [OF u] by (simp add: get_label_addr_def show_int_def)
  qed
qed

lemma plain_labelD:
  assumes "plain_label n"
  shows "n \<noteq> []" "list_all ident_char n" "n \<notin> set reserved" "unnamed n" "strtol n = 0"
proof -
  show n: "n \<noteq> []" "list_all ident_char n" "n \<notin> set reserved" using assms by (auto simp: plain_label_def)
  show "unnamed n" using n by (intro ident_unnamed)
  have "ident_char (hd n)" using n by (cases n) auto
  then show "strtol n = 0"
    using assms n(1) by (intro strtol_no_number) (auto simp: plain_label_def ident_not_space)
qed

lemma paren_inner: "b \<noteq> [] \<Longrightarrow> inner 3 (''('' @ b @ '')'') = Some b"
  by (cases b rule: rev_cases) (simp_all add: inner_def butlast_append)

lemma inner_paren: "inner n s = Some b \<Longrightarrow> 2 \<le> n \<Longrightarrow> s = ''('' @ b @ '')''"
  by (cases s; cases "tl s" rule: rev_cases) (auto simp: inner_def split: if_splits)

lemma paren_operand:
  assumes "list_all ident_char b" and "b \<noteq> []" and "b \<notin> set reserved"
  shows "unnamed (''('' @ b @ '')'')" "index_addr (''('' @ b @ '')'') = None"
    "mem_addr (''('' @ b @ '')'') = strtol b" "strtol (''('' @ b @ '')'') = 0"
proof -
  have "list_all (\<lambda>w. case inner 3 w of None \<Rightarrow> True | Some b \<Rightarrow> List.member reserved b) (reserved @ special_operands)"
    by code_simp
  then have "w \<notin> set (reserved @ special_operands)" if "inner 3 w = Some b" for w
    using that assms(3) by (auto simp: list_all_iff dest!: bspec)
  from this [OF paren_inner [OF assms(2)]] show "unnamed (''('' @ b @ '')'')"
    by (simp add: unnamed_def)
  show "mem_addr (''('' @ b @ '')'') = strtol b" by (simp add: mem_addr_def paren_inner [OF assms(2)] del: append_Cons append_Nil)
  show "strtol (''('' @ b @ '')'') = 0" by (rule strtol_no_number) (simp_all add: is_space_def digit_value_def)
  have "b ! 2 \<noteq> CHR ''+''" "b ! 2 \<noteq> CHR ''-''" if "3 \<le> length b"
    using assms(1) that by (auto simp: list_all_length dest!: spec [of _ 2])
  then show "index_addr (''('' @ b @ '')'') = None"
    using inner_paren [of 5 "''('' @ b @ '')''"] by (auto simp: index_addr_def inner_def Let_def split: option.splits)
qed

text \<open>Replacing a label by its address keeps the shape of an operand.\<close>

lemma resolve_shape:
  assumes "good_labels st"
  shows "same_shape a (resolve st a)"
proof (cases rule: get_label_addr_cases [OF assms, of a])
  case (2 n)
  have s: "list_all ident_char (show_nat n)" "show_nat n \<noteq> []" "show_nat n \<notin> set reserved"
    using show_ident show_not_reserved by simp_all
  have "resolve st a = show_nat n" using 2 ident_operand(3) [OF s(1,2)] by (simp add: resolve_def is_label_def Let_def)
  then show ?thesis
    using plain_labelD [OF 2(1)] ident_operand [OF s(1,2)] ident_operand [OF plain_labelD(2,1) [OF 2(1)]] ident_unnamed [OF s]
    by (simp add: same_shapeI)
next
  case 1
  then have r: "resolve st a = is_label_ptr a st" by (simp add: resolve_def is_label_def)
  show ?thesis
  proof (cases "inner 3 a")
    case None
    then show ?thesis by (simp add: r is_label_ptr_def)
  next
    case (Some b)
    then have a: "a = ''('' @ b @ '')''" using inner_paren by simp
    show ?thesis
    proof (cases rule: get_label_addr_cases [OF assms, of b])
      case 1
      then show ?thesis using Some by (simp add: r is_label_ptr_def)
    next
      case (2 n)
      have s: "list_all ident_char (show_nat n)" "show_nat n \<noteq> []" "show_nat n \<notin> set reserved"
        using show_ident show_not_reserved by simp_all
      have "resolve st a = ''('' @ show_nat n @ '')''" using 2 Some by (simp add: r is_label_ptr_def)
      then show ?thesis
        unfolding a using paren_operand [OF s] paren_operand [OF plain_labelD(2,1,3) [OF 2(1)]] plain_labelD(5) [OF 2(1)]
          strtol_show [OF 2(2)] by (simp add: same_shapeI)
    qed
  qed
qed

section \<open>Frames of the instruction selection\<close>

text \<open>
  What every line keeps: the pass and, away from label lines, the labels; in the second pass the
  program counter moves with the bytes of the output, which only grows; the first pass writes nothing.
\<close>

definition in_step :: "asm \<Rightarrow> asm \<Rightarrow> bool" where
  "in_step st st' \<longleftrightarrow> pass st' = pass st \<and> labels st' = labels st \<and>
     (\<exists>bs. out st' = out st @ bs \<and> (pass st = 0 \<longrightarrow> bs = []) \<and>
       (pass st = 1 \<longrightarrow> pc st' = pc st + of_nat (length bs)))"

lemma in_step_refl [intro!]: "in_step st st"
  by (simp add: in_step_def)

lemma in_step_trans: "in_step a b \<Longrightarrow> in_step b c \<Longrightarrow> in_step a c"
  by (auto simp: in_step_def)

lemma in_step_emit:
  "in_step a st \<Longrightarrow> in_step a (emitb x st)" "in_step a st \<Longrightarrow> in_step a (emitw w st)"
  "in_step a st \<Longrightarrow> in_step a (emits bs st)" "in_step a st \<Longrightarrow> in_step a (call_target arg st)"
  "in_step a st \<Longrightarrow> in_step a (snd (emit_rel arg p st))"
  by (auto simp: in_step_def call_target_def emit_rel_def Let_def)

definition framed :: "asm \<Rightarrow> result \<Rightarrow> bool" where
  "framed st r \<longleftrightarrow> (\<forall>c st'. r = Some (c, st') \<longrightarrow> in_step st st')"

lemma framed_rules:
  "framed st None" "in_step st st' \<Longrightarrow> framed st (Some (c, st'))" "in_step st (snd p) \<Longrightarrow> framed st (Some p)"
  "framed st r \<Longrightarrow> framed st q \<Longrightarrow> framed st (if b then r else q)"
  by (auto simp: framed_def)

lemma framed_pair: "(\<And>x y. framed st (f x y)) \<Longrightarrow> framed st (let (x, y) = p in f x y)"
  by (simp add: split_beta)

lemmas in_step_rules = framed_rules framed_pair in_step_emit in_step_refl

lemma gen_ld_framed: "framed st (gen_ld a1 a2 st)"
  unfolding gen_ld_def Let_def [of "reg8 _"] by (intro in_step_rules)

lemma gen_other_framed:
  "framed st (gen_inc a1 st)" "framed st (gen_dec a1 st)" "framed st (gen_add a1 a2 st)" "framed st (gen_adc a1 a2 st)"
  "framed st (gen_sub a1 st)" "framed st (gen_sbc a1 a2 st)" "framed st (gen_logic base ib a1 st)"
  "framed st (gen_push_pop base ib a1 st)" "framed st (gen_rst a1 st)" "framed st (gen_jp a1 a2 st)"
  "framed st (gen_jr a1 a2 st)" "framed st (gen_call a1 a2 st)" "framed st (gen_ret a1 st)"
  "framed st (gen_in a1 a2 st)" "framed st (gen_out a1 a2 st)" "framed st (gen_ex a1 a2 st)"
  unfolding gen_inc_def gen_dec_def gen_add_def gen_adc_def gen_sub_def gen_sbc_def gen_logic_def gen_push_pop_def
    gen_rst_def gen_jp_def gen_jr_def gen_call_def gen_ret_def gen_in_def gen_out_def gen_ex_def Let_def
  by (intro in_step_rules)+

lemma gen_args_framed: "framed st (gen_args op a1 a2 st)"
  unfolding gen_args_def by (intro framed_rules(1,3,4) gen_ld_framed gen_other_framed in_step_emit in_step_refl)

lemma gen_line_framed: "in_step st (snd (gen_line op a1 a2 st))"
  using gen_args_framed [of st op]
  by (auto simp: gen_line_def Let_def framed_def in_step_emit in_step_refl split: option.split)

lemma gen_line_agree:
  assumes "good_labels s1" and "pc s0 = pc s1" and "pass s0 = 0" and "pass s1 = 1" and "0 \<le> fst (gen_line op a1 a2 s1)"
  shows "0 \<le> fst (gen_line op a1 a2 s0)" and "pc (snd (gen_line op a1 a2 s0)) = pc (snd (gen_line op a1 a2 s1))"
proof -
  have r1: "gen_line op a1 a2 s1 = (case map_of no_arg_ops op of Some b \<Rightarrow> (0, emitb b s1)
      | None \<Rightarrow> case gen_args op (resolve s1 a1) (resolve s1 a2) s1 of Some r \<Rightarrow> r | None \<Rightarrow> (-1, s1))"
    using assms(4) by (simp add: gen_line_def resolve_def cong: option.case_cong)
  have r0: "gen_line op a1 a2 s0 = (case map_of no_arg_ops op of Some b \<Rightarrow> (0, emitb b s0)
      | None \<Rightarrow> case gen_args op a1 a2 s0 of Some r \<Rightarrow> r | None \<Rightarrow> (-1, s0))"
    using assms(3) by (simp add: gen_line_def cong: option.case_cong)
  have "agree (gen_args op a1 a2 s0) (gen_args op (resolve s1 a1) (resolve s1 a2) s1)"
    by (intro gen_args_agree resolve_shape assms)
  then have "0 \<le> fst (gen_line op a1 a2 s0) \<and> pc (snd (gen_line op a1 a2 s0)) = pc (snd (gen_line op a1 a2 s1))"
    using assms(2,5) unfolding r0 r1 agree_def by (auto split: option.splits)
  then show "0 \<le> fst (gen_line op a1 a2 s0)" "pc (snd (gen_line op a1 a2 s0)) = pc (snd (gen_line op a1 a2 s1))"
    by simp_all
qed

section \<open>Runs over lines\<close>

function source_lines :: "string \<Rightarrow> string list" where
  "source_lines inp =
     (case read_line 126 inp of (l, e, r) \<Rightarrow>
        if e \<and> l = [] then [] else takeWhile (\<lambda>c. c \<noteq> CHR 0x00) l # source_lines r)"
  by pat_completeness auto
termination
  by (relation "measure length") (use read_line_less in auto)

declare source_lines.simps [simp del]

fun run_lines :: "string list \<Rightarrow> asm \<Rightarrow> asm" where
  "run_lines [] st = st"
| "run_lines (l # ls) st = (case line_codegen l st of (c, st1) \<Rightarrow> if c < 0 then st1 else run_lines ls st1)"

fun accepts :: "string list \<Rightarrow> asm \<Rightarrow> asm option" where
  "accepts [] st = Some st"
| "accepts (l # ls) st = (case line_codegen l st of (c, st1) \<Rightarrow> if c < 0 then None else accepts ls st1)"

lemma pass_loop_lines: "pass_loop (inp, False) st = run_lines (source_lines inp) st"
proof (induction "(inp, False)" st arbitrary: inp rule: pass_loop.induct)
  case (1 inp st)
  then show ?case
    by (subst pass_loop.simps, subst source_lines.simps) (auto split: prod.splits)
qed

lemma run_accepts: "accepts pre st = Some st1 \<Longrightarrow> run_lines (pre @ ls) st = run_lines ls st1"
  by (induction pre arbitrary: st) (auto split: prod.splits if_splits)

fun label_names :: "string list \<Rightarrow> string list" where
  "label_names [] = []"
| "label_names (l # ls) = (case parse_line l of Label n \<Rightarrow> n # label_names ls | _ \<Rightarrow> label_names ls)"

lemma label_names_append [simp]: "label_names (xs @ ys) = label_names xs @ label_names ys"
  by (induction xs) (auto split: stmt.splits)

lemma parse_label_short: "parse_line l = Label n \<Longrightarrow> take 19 n = n"
  by (auto simp: parse_line_def Let_def split: if_splits option.splits prod.splits)

lemma line_second: "pass st = 1 \<Longrightarrow> in_step st (snd (line_codegen l st))"
  by (cases "parse_line l") (auto simp: line_codegen_def define_label_def gen_line_framed)

lemma line_first:
  "pass st = 0 \<Longrightarrow> pass (snd (line_codegen l st)) = 0"
  "\<exists>xs. labels (snd (line_codegen l st)) = labels st @ xs"
  "pass st = 0 \<Longrightarrow> 0 \<le> fst (line_codegen l st) \<Longrightarrow>
     map fst (labels (snd (line_codegen l st))) = map fst (labels st) @ label_names [l]"
proof -
  have f: "pass (snd (gen_line op a b st)) = pass st" "labels (snd (gen_line op a b st)) = labels st" for op a b
    using gen_line_framed [of st op a b] by (simp_all add: in_step_def)
  show "pass st = 0 \<Longrightarrow> pass (snd (line_codegen l st)) = 0" "\<exists>xs. labels (snd (line_codegen l st)) = labels st @ xs"
    by (cases "parse_line l"; simp add: line_codegen_def define_label_def f)+
  show "pass st = 0 \<Longrightarrow> 0 \<le> fst (line_codegen l st) \<Longrightarrow>
     map fst (labels (snd (line_codegen l st))) = map fst (labels st) @ label_names [l]"
    using parse_label_short [of l] by (cases "parse_line l") (auto simp: line_codegen_def define_label_def f split: if_splits)
qed

lemma run_lines_second: "pass st = 1 \<Longrightarrow> in_step st (run_lines ls st)"
proof (induction ls arbitrary: st)
  case (Cons l ls)
  from line_second [OF Cons.prems] have i: "in_step st (snd (line_codegen l st))" "pass (snd (line_codegen l st)) = 1"
    using Cons.prems by (simp_all add: in_step_def)
  then show ?case using in_step_trans [OF i(1) Cons.IH [OF i(2)]] by (auto split: prod.split)
qed auto

lemma accepts_second: "pass st = 1 \<Longrightarrow> accepts ls st = Some st1 \<Longrightarrow> in_step st st1"
  using run_lines_second [of st ls] run_accepts [of ls st st1 "[]"] by simp

lemma run_lines_labels: "\<exists>xs. labels (run_lines ls st) = labels st @ xs"
proof (induction ls arbitrary: st)
  case (Cons l ls)
  obtain c st1 where l: "line_codegen l st = (c, st1)" by fastforce
  with line_first(2) [of l st] Cons.IH [of st1] show ?case by auto
qed simp

lemma accepts_first_labels:
  assumes "pass st = 0" and "accepts ls st = Some st1"
  shows "map fst (labels st1) = map fst (labels st) @ label_names ls \<and> pass st1 = 0"
  using assms
proof (induction ls arbitrary: st)
  case (Cons l ls)
  obtain c s where l: "line_codegen l st = (c, s)" by fastforce
  with Cons.prems line_first(1,3) [of st l] have s: "pass s = 0" "map fst (labels s) = map fst (labels st) @ label_names [l]"
    by (auto split: if_splits)
  then show ?case using Cons.IH [of s] Cons.prems l by (auto split: if_splits stmt.splits)
qed simp

text \<open>Where the second pass accepts the lines, so did the first, with the same program counter.\<close>

lemma passes_in_step:
  assumes "accepts ls s1 = Some t1" and "good_labels s1" and "pc s0 = pc s1" and "pass s0 = 0" and "pass s1 = 1"
    and "length (labels s0) + length (label_names ls) \<le> 32"
  shows "\<exists>t0. accepts ls s0 = Some t0 \<and> pc t0 = pc t1"
  using assms
proof (induction ls arbitrary: s0 s1)
  case (Cons l ls)
  obtain c1 r1 where l1: "line_codegen l s1 = (c1, r1)" by fastforce
  obtain c0 r0 where l0: "line_codegen l s0 = (c0, r0)" by fastforce
  from Cons.prems(1) l1 have a1: "0 \<le> c1" "accepts ls r1 = Some t1" by (auto split: if_splits)
  have step: "0 \<le> c0 \<and> pc r0 = pc r1"
  proof (cases "parse_line l")
    case (Instr op a b)
    then show ?thesis
      using gen_line_agree [OF Cons.prems(2-5), of op a b] l0 l1 a1(1) by (simp add: line_codegen_def)
  qed (use l0 l1 a1(1) Cons.prems in \<open>auto simp: line_codegen_def define_label_def split: if_splits\<close>)
  have r1: "good_labels r1" "pass r1 = 1"
    using line_second [OF Cons.prems(5), of l] l1 Cons.prems(2,5) by (simp_all add: in_step_def good_labels_def)
  have r0: "pass r0 = 0" "map fst (labels r0) = map fst (labels s0) @ label_names [l]"
    using line_first(1,3) [OF Cons.prems(4), of l] l0 step by simp_all
  from arg_cong [OF r0(2), of length] Cons.prems(6) have "length (labels r0) + length (label_names ls) \<le> 32"
    by (auto split: stmt.splits)
  then show ?case using Cons.IH [OF a1(2) r1(1) _ r0(1) r1(2)] step l0 by simp
qed simp

lemma find_append: "find P (xs @ ys) = (case find P xs of None \<Rightarrow> find P ys | Some x \<Rightarrow> Some x)"
  by (induction xs) simp_all

text \<open>The state between the passes.\<close>

definition first_pass :: "u16 \<Rightarrow> string \<Rightarrow> asm" where
  "first_pass basepc inp = (pass_loop (inp, False) \<lparr>pc = basepc, pass = 0, labels = [], out = []\<rparr>)\<lparr>pc := basepc, pass := 1\<rparr>"

text \<open>
  The seek in front of each pass goes back to the beginning of the file, as \<^verbatim>\<open>doc/syscalls.md\<close>
  documents it, and no read fails: both passes read the whole text.
\<close>

definition rewinds :: "(nat \<Rightarrow> reading) \<Rightarrow> string \<Rightarrow> bool" where
  "rewinds reads inp \<longleftrightarrow> reads 0 = (inp, False) \<and> reads 1 = (inp, False)"

lemma assemble_passes: "rewinds reads inp \<Longrightarrow> assemble basepc reads = pass_loop (inp, False) (first_pass basepc inp)"
  by (simp add: assemble_def first_pass_def rewinds_def Let_def)

lemma first_pass_out: "pass st = 0 \<Longrightarrow> out (run_lines ls st) = out st"
proof (induction ls arbitrary: st)
  case (Cons l ls)
  obtain c s where l: "line_codegen l st = (c, s)" by fastforce
  have "out (snd (line_codegen l st)) = out st"
    using Cons.prems gen_line_framed [of st] by (cases "parse_line l") (auto simp: line_codegen_def define_label_def in_step_def)
  then show ?case using Cons.IH [of s] Cons.prems l line_first(1) [of st l] by auto
qed simp

lemma first_pass_sel [simp]:
  "pc (first_pass basepc inp) = basepc" "pass (first_pass basepc inp) = 1" "out (first_pass basepc inp) = []"
  by (simp_all add: first_pass_def pass_loop_lines first_pass_out)

lemma label_address:
  assumes "source_lines inp = pre @ l # post" and "parse_line l = Label name"
    and "accepts pre (first_pass basepc inp) = Some s1"
    and "good_labels (first_pass basepc inp)" and "distinct (label_names (source_lines inp))"
    and "length (label_names (source_lines inp)) \<le> 32" and "rewinds reads inp"
  shows "get_label_addr name s1 = uint (pc s1)" and "pc s1 = basepc + of_nat (length (out s1))"
    and "\<exists>code. out (assemble basepc reads) = out s1 @ code"
proof -
  let ?i = "\<lparr>pc = basepc, pass = 0, labels = [], out = []\<rparr> :: asm"
  let ?f = "first_pass basepc inp"
  obtain t0 where t0: "accepts pre ?i = Some t0" "pc t0 = pc s1"
    using passes_in_step [OF assms(3,4), of ?i] assms(1,6) by auto
  have n0: "map fst (labels t0) = label_names pre" "pass t0 = 0"
    using accepts_first_labels [OF _ t0(1)] by simp_all
  have fresh: "name \<notin> set (label_names pre)" "length (label_names pre) < 32" using assms(1,2,5,6) by auto
  from arg_cong [OF n0(1), of length] fresh(2) have ll: "length (labels t0) < 32" by simp
  have "line_codegen l t0 = (0, t0\<lparr>labels := labels t0 @ [(name, pc s1)]\<rparr>)"
    using n0(2) ll assms(2) parse_label_short [OF assms(2)] t0(2) by (simp add: line_codegen_def define_label_def)
  then have "labels (run_lines (l # post) t0) = labels (run_lines post (t0\<lparr>labels := labels t0 @ [(name, pc s1)]\<rparr>))"
    by simp
  also obtain xs where "\<dots> = labels t0 @ (name, pc s1) # xs"
    using run_lines_labels [of post "t0\<lparr>labels := labels t0 @ [(name, pc s1)]\<rparr>"] by auto
  finally have lf: "labels ?f = labels t0 @ (name, pc s1) # xs"
    using run_accepts [OF t0(1), of "l # post"] assms(1) by (simp add: first_pass_def pass_loop_lines)
  have "find (\<lambda>p. fst p = name) (labels t0) = None"
    using fresh(1) unfolding n0(1) [symmetric] by (force simp: find_None_iff)
  then have find: "find (\<lambda>p. fst p = name) (labels ?f) = Some (name, pc s1)" by (simp add: lf find_append)
  have step: "in_step ?f s1" by (rule accepts_second [OF _ assms(3)]) simp
  have "unat (pc s1) < 0x8000" using assms(4) by (simp add: good_labels_def lf word_less_nat_alt)
  then show "get_label_addr name s1 = uint (pc s1)"
    using step find by (simp add: in_step_def get_label_addr_def sint_small)
  show "pc s1 = basepc + of_nat (length (out s1))" using step by (auto simp: in_step_def)
  have "in_step s1 (run_lines (l # post) s1)" by (rule run_lines_second) (use step in \<open>simp add: in_step_def\<close>)
  then show "\<exists>code. out (assemble basepc reads) = out s1 @ code"
    unfolding assemble_passes [OF assms(7)] pass_loop_lines assms(1) run_accepts [OF assms(3)] by (auto simp: in_step_def)
qed

definition demo_source :: string where
  "demo_source = ''START: '' @ [CHR 0x0A] @ ''  jp done ; forward'' @ [CHR 0x0A] @ ''ld a,(done)'' @ [CHR 0x0A] @ ''done:'' @ [CHR 0x0A] @ ''jr start''"

definition demo_before :: "string list" where
  "demo_before = [''START: '', ''  jp done ; forward'', ''ld a,(done)'']"

text \<open>The state of the second pass at its start, behind the jump and at the second label.\<close>

definition demo_start :: asm where
  "demo_start = \<lparr>pc = 0x5000, pass = 1, labels = [(''START'', 0x5000), (''DONE'', 0x5006)], out = []\<rparr>"

definition demo_jump :: asm where
  "demo_jump = demo_start\<lparr>pc := 0x5003, out := [0xC3, 0x06, 0x50]\<rparr>"

definition demo_done :: asm where
  "demo_done = demo_start\<lparr>pc := 0x5006, out := [0xC3, 0x06, 0x50, 0x3A, 0x06, 0x50]\<rparr>"

lemma demo_parsed:
  "parse_line ''START: '' = Label ''START''" "parse_line ''  jp done ; forward'' = Instr ''JP'' ''DONE'' []"
  "parse_line ''ld a,(done)'' = Instr ''LD'' ''A'' ''(DONE)''"
  by code_simp+

lemma demo_first: "first_pass 0x5000 demo_source = demo_start"
  by code_simp

lemma demo_label: "define_label ''START'' demo_start = (0, demo_start)"
  by code_simp

lemma demo_jp: "gen_line ''JP'' ''DONE'' [] demo_start = (0, demo_jump)"
  by code_simp

lemma demo_ld: "gen_line ''LD'' ''A'' ''(DONE)'' demo_jump = (0, demo_done)"
  by code_simp

lemmas demo_lines = demo_first demo_label demo_jp demo_ld

text \<open>
  C30: The labels of the assembler are right. Take a text whose labels are identifiers, no names of registers or
  conditions, pairwise different, at most 32 and below 0x8000. When both passes read this text from
  its beginning and the second pass has accepted the lines before a label, the label stands for the
  start address plus the number of bytes written before it, and these bytes begin the output: the
  first pass, which does not know the labels, gave every line the size the second pass gives it.
  (That the passes read the same text is what \<^verbatim>\<open>lseek\<close> is documented to do. On Manux the seek
  with the value of \<^verbatim>\<open>SEEK_SET\<close> in \<^verbatim>\<open>sys/fcntl.h\<close> has no defined result.)
\<close>

theorem label_address_correct:
  assumes "source_lines inp = pre @ l # post" and "parse_line l = Label name"
    and "accepts pre (first_pass basepc inp) = Some s1"
    and "good_labels (first_pass basepc inp)" and "distinct (label_names (source_lines inp))"
    and "length (label_names (source_lines inp)) \<le> 32" and "rewinds reads inp"
  shows "get_label_addr name s1 = uint (basepc + of_nat (length (out s1)) :: u16) \<and>
    (\<exists>code. out (assemble basepc reads) = out s1 @ code)"
  using label_address [OF assms] by simp

theorem label_address_correct_witness:
  "get_label_addr ''DONE'' demo_done = 0x5006 \<and>
   (\<exists>code. out (assemble 0x5000 (\<lambda>p. (demo_source, False))) = [0xC3, 0x06, 0x50, 0x3A, 0x06, 0x50] @ code)"
proof -
  have a: "source_lines demo_source = demo_before @ ''done:'' # [''jr start'']" by code_simp
  have b: "parse_line ''done:'' = Label ''DONE''" by code_simp
  have c: "accepts demo_before (first_pass 0x5000 demo_source) =
      Some demo_done"
    by (simp add: demo_before_def line_codegen_def demo_parsed demo_lines)
  have d: "good_labels (first_pass 0x5000 demo_source)" unfolding demo_first by code_simp
  have e: "distinct (label_names (source_lines demo_source))" "length (label_names (source_lines demo_source)) \<le> 32"
    by code_simp+
  have f: "rewinds (\<lambda>p. (demo_source, False)) demo_source" by (simp add: rewinds_def)
  show ?thesis using label_address_correct [OF a b c d e f] by (simp add: demo_done_def demo_start_def del: append_Cons)
qed

section \<open>Where the passes part\<close>

lemma gen_line_second: "pass st = 1 \<Longrightarrow> map_of no_arg_ops op = None \<Longrightarrow>
    gen_line op a b st = (case gen_args op (resolve st a) (resolve st b) st of Some r \<Rightarrow> r | None \<Rightarrow> (-1, st))"
  by (simp add: gen_line_def resolve_def)

lemma gen_line_first: "pass st = 0 \<Longrightarrow> map_of no_arg_ops op = None \<Longrightarrow>
    gen_line op a b st = (case gen_args op a b st of Some r \<Rightarrow> r | None \<Rightarrow> (-1, st))"
  by (simp add: gen_line_def)

lemma strtol_show_int16: "- 0x8000 \<le> i \<Longrightarrow> i < 0x8000 \<Longrightarrow> strtol (show_int i) = i"
proof -
  assume i: "- 0x8000 \<le> i" "i < 0x8000"
  then have "strtol_clip 32 (show_int i) = i" by (intro strtol_show_int) simp_all
  moreover have "sint (word_of_int i :: u16) = i" using i by (simp add: sint_sbintrunc' signed_take_bit_int_eq_self)
  ultimately show ?thesis by (simp add: strtol_def int16_def)
qed

lemma index_addr_None: "hd b \<noteq> CHR ''I'' \<Longrightarrow> index_addr (''('' @ b @ '')'') = None"
proof (cases "inner 5 (''('' @ b @ '')'')")
  case (Some b')
  assume "hd b \<noteq> CHR ''I''"
  moreover from inner_paren [OF Some] have "b' = b" by simp
  ultimately have "take 2 b' \<noteq> ''IX''" "take 2 b' \<noteq> ''IY''" by (cases b; auto)+
  then show ?thesis using Some by (simp add: index_addr_def)
qed (simp add: index_addr_def)

lemma negative_operand:
  assumes "i < 0" and "- 0x8000 \<le> i"
  shows "unnamed (''('' @ show_int i @ '')'')" "index_addr (''('' @ show_int i @ '')'') = None"
    "mem_addr (''('' @ show_int i @ '')'') = i" "strtol (''('' @ show_int i @ '')'') = 0"
proof -
  have s: "show_int i = CHR ''-'' # show_nat (nat (- i))" using assms by (simp add: show_int_def)
  show "unnamed (''('' @ show_int i @ '')'')" by (simp add: s unnamed_def reserved_def special_operands_def)
  show "mem_addr (''('' @ show_int i @ '')'') = i"
    using paren_inner [of "show_int i"] strtol_show_int16 [of i] assms by (simp add: mem_addr_def s)
  show "strtol (''('' @ show_int i @ '')'') = 0" by (rule strtol_no_number) (simp_all add: is_space_def digit_value_def)
  show "index_addr (''('' @ show_int i @ '')'') = None"
    by (rule index_addr_None) (simp add: s)
qed

lemma gen_ld_A:
  assumes "unnamed o2" and "index_addr o2 = None"
  shows "gen_ld ''A'' o2 st =
    (if 0 \<le> mem_addr o2 then ok (emitw (wd (mem_addr o2)) (emitb 0x3A st)) else ok (emits [0x3E, byte (strtol o2)] st))"
proof -
  have n: "o2 \<noteq> ''A''" "o2 \<noteq> ''HL''" "o2 \<noteq> ''(BC)''" "o2 \<noteq> ''(DE)''"
    using assms(1) by (auto simp: unnamed_def reserved_def special_operands_def)
  have a: "index_addr ''A'' = None" "mem_addr ''A'' = -1" "reg8 ''A'' = 7"
    by (simp_all add: index_addr_def mem_addr_def inner_def reg8_def)
  show ?thesis unfolding gen_ld_def a assms(2) unnamed_shape [OF assms(1)] Let_def using n by simp
qed

text \<open>
  Label names are not checked. A label with the name of an 8-bit register makes \<^verbatim>\<open>LD A,r\<close> one byte in
  the first pass and two bytes, a load of the low byte of the address, in the second; all labels behind
  the line are then one too low. A label at 0x8000 or above (0xFFFF apart) makes \<^verbatim>\<open>LD A,(label)\<close> three bytes
  in the first pass and the two bytes of \<^verbatim>\<open>LD A,0\<close> in the second.
\<close>

theorem passes_part:
  assumes "pass s0 = 0" and "pass s1 = 1" and "get_label_addr ''A'' s1 = -1"
    and "r \<in> {''B'', ''C'', ''D'', ''E'', ''H'', ''L''}" and "0 \<le> get_label_addr r s1"
    and "plain_label n" and "get_label_addr n s1 < -1" and "get_label_addr (''('' @ n @ '')'') s1 = -1"
  shows "pc (snd (gen_line ''LD'' ''A'' r s0)) = pc s0 + 1 \<and>
    gen_line ''LD'' ''A'' r s1 = (0, emits [0x3E, of_int (get_label_addr r s1)] s1) \<and>
    pc (snd (gen_line ''LD'' ''A'' (''('' @ n @ '')'') s0)) = pc s0 + 3 \<and>
    gen_line ''LD'' ''A'' (''('' @ n @ '')'') s1 = (0, emits [0x3E, 0] s1)"
proof (intro conjI)
  have ld: "map_of no_arg_ops ''LD'' = None" by (simp add: no_arg_ops_def)
  have ra: "resolve s1 ''A'' = ''A''" using assms(3) by (simp add: resolve_def is_label_def is_label_ptr_def inner_def)
  show "pc (snd (gen_line ''LD'' ''A'' r s0)) = pc s0 + 1"
    using assms(4) by (auto simp: gen_line_first [OF assms(1) ld] gen_args_def gen_ld_def reg8_def index_addr_def mem_addr_def inner_def)
  have range: "- 0x8000 \<le> get_label_addr m s1 \<and> get_label_addr m s1 < 0x8000" for m
    using sint_ge [where 'a = 16] sint_lt [where 'a = 16] by (auto simp: get_label_addr_def split: option.split)
  let ?a = "get_label_addr r s1"
  obtain k where k: "?a = int k" "show_int ?a = show_nat k" "k < 0x8000"
    using assms(5) range [of r] by (auto simp: show_int_def dest: nonneg_int_cases)
  have s: "list_all ident_char (show_nat k)" "show_nat k \<noteq> []" "show_nat k \<notin> set reserved"
    using show_ident show_not_reserved by simp_all
  have "resolve s1 r = show_nat k"
    using k ident_operand(3) [OF s(1,2)] by (simp add: resolve_def is_label_def Let_def)
  then show "gen_line ''LD'' ''A'' r s1 = (0, emits [0x3E, of_int ?a] s1)"
    using gen_ld_A [OF ident_unnamed [OF s] ident_operand(1) [OF s(1,2)]] ident_operand(2) [OF s(1,2)] strtol_show [OF k(3)]
    by (simp add: gen_line_second [OF assms(2) ld] ra gen_args_def k(1))
  note n = paren_operand [OF plain_labelD(2,1,3) [OF assms(6)]] plain_labelD(5) [OF assms(6)]
  show "pc (snd (gen_line ''LD'' ''A'' (''('' @ n @ '')'') s0)) = pc s0 + 3"
    using gen_ld_A [OF n(1,2)] n(3,5) by (simp add: gen_line_first [OF assms(1) ld] gen_args_def)
  let ?i = "get_label_addr n s1"
  have i: "?i < 0" "- 0x8000 \<le> ?i" using range [of n] assms(7) by simp_all
  have "resolve s1 (''('' @ n @ '')'') = ''('' @ show_int ?i @ '')''"
    using assms(7,8) paren_inner [OF plain_labelD(1) [OF assms(6)]] by (simp add: resolve_def is_label_def is_label_ptr_def Let_def)
  then show "gen_line ''LD'' ''A'' (''('' @ n @ '')'') s1 = (0, emits [0x3E, 0] s1)"
    using gen_ld_A [OF negative_operand(1,2) [OF i]] negative_operand(3,4) [OF i] i
    by (simp add: gen_line_second [OF assms(2) ld] ra gen_args_def)
qed

definition clash_state :: asm where
  "clash_state = \<lparr>pc = 0x8004, pass = 1, labels = [(''C'', 0x12), (''DATA'', 0x8000)], out = []\<rparr>"

theorem passes_part_witness:
  "gen_line ''LD'' ''A'' ''C'' clash_state = (0, emits [0x3E, 0x12] clash_state) \<and>
   gen_line ''LD'' ''A'' ''(DATA)'' clash_state = (0, emits [0x3E, 0] clash_state)"
proof -
  have "get_label_addr ''A'' clash_state = -1" "get_label_addr ''C'' clash_state = 0x12"
    "get_label_addr ''DATA'' clash_state = - 0x8000" "get_label_addr ''(DATA)'' clash_state = -1"
    by code_simp+
  moreover have "plain_label ''DATA''" by code_simp
  ultimately show ?thesis
    using passes_part [of "clash_state\<lparr>pass := 0\<rparr>" clash_state "''C''" "''DATA''"] by (simp add: clash_state_def)
qed

end
