(* ===== verification/Sys.thy ===== *)
theory Sys
  imports Kernel
begin

text \<open>
  The system call library of the userland programs (\<^verbatim>\<open>sys/unistd\<close>). Every function passes its
  arguments through RST 20H to the handler in the kernel; the registers in between are not
  modelled. The programs run on the kernel's state and on the characters typed at the terminal.
  \<open>None\<close> means that the call does not return: a fault, or a character that is never typed.
\<close>

section \<open>Wrappers\<close>

definition sys_write :: "int \<Rightarrow> u8 list \<Rightarrow> u16 \<Rightarrow> kernel \<Rightarrow> (u16 \<times> kernel) option" where
  "sys_write fd buf count k = sysc_write fd count buf k"

text \<open>The result, the buffer, the characters not yet read, and the kernel.\<close>

definition sys_read :: "int \<Rightarrow> u8 list \<Rightarrow> u16 \<Rightarrow> u8 list \<Rightarrow> kernel \<Rightarrow> (u16 \<times> u8 list \<times> u8 list \<times> kernel) option" where
  "sys_read fd buf count typed k = do {
     r \<leftarrow> sysc_read fd count buf typed k;
     case r of Read_error \<Rightarrow> Some (-1, buf, typed, k)
     | Read_line Waiting \<Rightarrow> None
     | Read_line Overrun \<Rightarrow> None
     | Read_line (Line n s rest t) \<Rightarrow> Some (of_nat n, s, rest, k\<lparr>ktty := t\<rparr>)
     | Read_file n out s \<Rightarrow>
         if length buf < length out then None else Some (n, patch 0 out buf, typed, k\<lparr>kfs := s\<rparr>)
   }"

definition sys_open :: "u16 \<Rightarrow> u8 list \<Rightarrow> u16 \<Rightarrow> kernel \<Rightarrow> (int \<times> kernel) option" where
  "sys_open stack path flags k = do {
     (fd, s) \<leftarrow> mfs_open stack path flags (kfs k);
     Some (fd, k\<lparr>kfs := s\<rparr>)
   }"

definition sys_creat :: "u16 \<Rightarrow> u8 list \<Rightarrow> kernel \<Rightarrow> (int \<times> kernel) option" where
  "sys_creat stack path k = sys_open stack path O_CREAT k"

definition sys_close :: "int \<Rightarrow> kernel \<Rightarrow> int \<times> kernel" where
  "sys_close fd k = (let (r, s) = fd_close fd (kfs k) in (r, k\<lparr>kfs := s\<rparr>))"

definition sys_lseek :: "int \<Rightarrow> u16 \<Rightarrow> u16 \<Rightarrow> kernel \<Rightarrow> (u16 \<times> kernel) option" where
  "sys_lseek fd offset whence k = do {
     (r, s) \<leftarrow> mfs_seek fd offset whence (kfs k);
     Some (r, k\<lparr>kfs := s\<rparr>)
   }"

definition sys_execv :: "u8 list \<Rightarrow> u8 list list option \<Rightarrow> kernel \<Rightarrow> (u16 \<times> kernel) option" where
  "sys_execv path argv k = execv path argv k"

text \<open>The constants of \<^verbatim>\<open>sys/fcntl.h\<close>, which the programs are compiled with.\<close>

definition U_SEEK_SET :: u16 where "U_SEEK_SET = 0"

section \<open>Strings\<close>

text \<open>The string in a buffer; without a terminator the string functions leave the buffer.\<close>

definition cstring :: "u8 list \<Rightarrow> u8 list option" where
  "cstring buf = (if 0 \<in> set buf then Some (takeWhile (\<lambda>c. c \<noteq> 0) buf) else None)"

abbreviation bytes_of :: "string \<Rightarrow> u8 list" where
  "bytes_of s \<equiv> map of_char s"

lemma unat_of_char [simp]: "unat (of_char c :: u8) = of_char c"
proof -
  have "unat (of_nat (of_char c) :: u8) = of_char c" by (simp add: unat_of_nat)
  then show ?thesis by (simp only: of_nat_of_char)
qed

lemma of_char_u8: "(of_char c :: u8) = of_char d \<longleftrightarrow> c = d"
  by (metis of_char_eq_iff unat_of_char)

lemma char_bytes: "map (\<lambda>c. char_of (unat c)) (bytes_of cs) = cs"
  by (induction cs) simp_all

lemma cstring_append: "0 \<notin> set s \<Longrightarrow> cstring (s @ 0 # rest) = Some s"
  by (induction s) (auto simp: cstring_def)

lemma cstring_not_0: "cstring buf = Some s \<Longrightarrow> 0 \<notin> set s"
  by (auto simp: cstring_def dest: set_takeWhileD split: if_splits)

lemma length_cstring: "cstring buf = Some s \<Longrightarrow> length s < length buf"
  by (induction buf arbitrary: s) (auto simp: cstring_def split: if_splits)

end
