(* ===== verification/Ecalc.thy ===== *)
theory Ecalc
  imports Sys Clib "HOL-Library.Signed_Division" "HOL-Library.Monad_Syntax" "HOL-Library.Sublist"
begin

text \<open>
  The calculator of the userland (\<^verbatim>\<open>userland/ecalc.c\<close>): the tokens, the recursive descent
  parser that evaluates while it parses, and the main loop on the terminal of the kernel. An
  \<^verbatim>\<open>int\<close> has 16 bits and wraps around; the result \<open>None\<close> is a division by zero, which the code
  reports and then performs. The globals are a record; \<open>shown\<close> is the text printed, and the pointer
  \<^verbatim>\<open>src\<close> is the part of the line buffer from it on, with the terminator and what lies behind it.
\<close>

unbundle bit_operations_syntax

section \<open>State and tokens\<close>

datatype token =
  TOKEN_NULL | TOKEN_EOF | TOKEN_NUM | TOKEN_LPAR | TOKEN_RPAR | TOKEN_ANS
| TOKEN_ADD | TOKEN_SUB | TOKEN_MUL | TOKEN_DIV | TOKEN_EXP
| TOKEN_AND | TOKEN_OR | TOKEN_XOR | TOKEN_NOT

record ecalc =
  src :: string
  token :: token
  num :: u16
  result :: u16
  shown :: string

function ipow_loop :: "u16 \<Rightarrow> u16 \<Rightarrow> u16 \<Rightarrow> u16" where
  "ipow_loop x y r = (if 0 < sint y then ipow_loop x (y - 1) (r * x) else r)"
  by pat_completeness auto
termination
proof (relation "measure (\<lambda>(x, y, r). unat y)")
  fix x y r :: u16
  assume "0 < sint y"
  then have "y \<noteq> 0" by auto
  then show "((x, y - 1, r * x), (x, y, r)) \<in> measure (\<lambda>(x, y, r). unat y)"
    by (simp add: measure_unat)
qed simp

declare ipow_loop.simps [simp del]

definition ipow :: "u16 \<Rightarrow> u16 \<Rightarrow> u16" where
  "ipow x y = (if sint y < 0 then 0 else if y = 0 then 1 else ipow_loop x y 1)"

definition error :: "string \<Rightarrow> ecalc \<Rightarrow> ecalc" where
  "error msg s = s\<lparr>shown := shown s @ ''error: '' @ msg @ [CHR 0x0A]\<rparr>"

definition isdigit :: "char \<Rightarrow> bool" where
  "isdigit c = (48 \<le> (of_char c :: nat) \<and> (of_char c :: nat) \<le> 57)"

definition op_token :: "char \<Rightarrow> token" where
  "op_token c =
     (if c = CHR ''+'' then TOKEN_ADD else if c = CHR ''-'' then TOKEN_SUB else if c = CHR ''*'' then TOKEN_MUL
      else if c = CHR ''/'' then TOKEN_DIV else if c = CHR ''('' then TOKEN_LPAR else if c = CHR '')'' then TOKEN_RPAR
      else if c = CHR ''e'' then TOKEN_EXP else if c = CHR ''&'' then TOKEN_AND else if c = CHR ''|'' then TOKEN_OR
      else if c = CHR ''^'' then TOKEN_XOR else if c = CHR ''~'' then TOKEN_NOT else TOKEN_NULL)"

definition next_token :: "ecalc \<Rightarrow> ecalc" where
  "next_token s =
     (let t = dropWhile (\<lambda>c. c = CHR '' '') (src s)
      in if t = [] \<or> hd t = CHR 0x00 then s\<lparr>src := t, token := TOKEN_EOF\<rparr>
         else if isdigit (hd t) then
           s\<lparr>num := of_nat (digits 10 0 t), token := TOKEN_NUM, src := dropWhile isdigit t\<rparr>
         else if take 3 t = ''ans'' then s\<lparr>token := TOKEN_ANS, src := drop 3 t\<rparr>
         else s\<lparr>token := op_token (hd t), src := tl t\<rparr>)"

section \<open>The parser\<close>

definition sdiv16 :: "u16 \<Rightarrow> u16 \<Rightarrow> u16" where
  "sdiv16 a b = of_int (sint a sdiv sint b)"

type_synonym parsed = "(u16 \<times> ecalc) option"

function parse_expr :: "ecalc \<Rightarrow> parsed" and expr_loop :: "u16 \<Rightarrow> ecalc \<Rightarrow> parsed"
  and parse_or :: "ecalc \<Rightarrow> parsed" and parse_xor :: "ecalc \<Rightarrow> parsed" and parse_and :: "ecalc \<Rightarrow> parsed"
  and parse_term :: "ecalc \<Rightarrow> parsed" and term_loop :: "u16 \<Rightarrow> ecalc \<Rightarrow> parsed"
  and parse_exponent :: "ecalc \<Rightarrow> parsed" and exponent_loop :: "u16 \<Rightarrow> ecalc \<Rightarrow> parsed"
  and parse_factor :: "ecalc \<Rightarrow> parsed" where
  "parse_expr s = do { (val, s1) \<leftarrow> parse_or s; expr_loop val s1 }"
| "expr_loop val s =
     (if token s = TOKEN_ADD \<or> token s = TOKEN_SUB then do {
        (rs, s1) \<leftarrow> parse_or (next_token s);
        expr_loop (if token s = TOKEN_ADD then val + rs else val - rs) s1
      }
      else Some (val, s))"
| "parse_or s = do {
     (val, s1) \<leftarrow> parse_xor s;
     if token s1 = TOKEN_OR then do { (rs, s2) \<leftarrow> parse_xor (next_token s1); Some (val OR rs, s2) }
     else Some (val, s1)
   }"
| "parse_xor s = do {
     (val, s1) \<leftarrow> parse_and s;
     if token s1 = TOKEN_XOR then do { (rs, s2) \<leftarrow> parse_and (next_token s1); Some (val XOR rs, s2) }
     else Some (val, s1)
   }"
| "parse_and s = do {
     (val, s1) \<leftarrow> parse_term s;
     if token s1 = TOKEN_AND then do { (rs, s2) \<leftarrow> parse_term (next_token s1); Some (val AND rs, s2) }
     else Some (val, s1)
   }"
| "parse_term s = do { (val, s1) \<leftarrow> parse_exponent s; term_loop val s1 }"
| "term_loop val s =
     (if token s = TOKEN_MUL \<or> token s = TOKEN_DIV then do {
        (rs, s1) \<leftarrow> parse_exponent (next_token s);
        if token s = TOKEN_MUL then term_loop (val * rs) s1
        else if rs = 0 then None
        else term_loop (sdiv16 val rs) s1
      }
      else Some (val, s))"
| "parse_exponent s = do { (val, s1) \<leftarrow> parse_factor s; exponent_loop val s1 }"
| "exponent_loop val s =
     (if token s = TOKEN_EXP then do {
        (rs, s1) \<leftarrow> parse_factor (next_token s);
        exponent_loop (ipow val rs) s1
      }
      else Some (val, s))"
| "parse_factor s =
     (case token s of
        TOKEN_NUM \<Rightarrow> Some (num s, next_token s)
      | TOKEN_LPAR \<Rightarrow> do {
          (val, s1) \<leftarrow> parse_expr (next_token s);
          Some (val, if token s1 = TOKEN_RPAR then next_token s1 else error (''expected '' @ [CHR 0x27] @ '')'' @ [CHR 0x27]) s1)
        }
      | TOKEN_ADD \<Rightarrow> parse_factor (next_token s)
      | TOKEN_SUB \<Rightarrow> do { (val, s1) \<leftarrow> parse_factor (next_token s); Some (- val, s1) }
      | TOKEN_NOT \<Rightarrow> do { (val, s1) \<leftarrow> parse_factor (next_token s); Some (NOT val, s1) }
      | TOKEN_ANS \<Rightarrow> Some (result s, next_token s)
      | _ \<Rightarrow> Some (0, error ''expected number or an expression.'' s))"
  by pat_completeness auto

text \<open>
  Termination. What is left of the input does not grow in any of the functions, and gets less with
  every token that is taken; the former has to be known before the functions are known to be total,
  as the loops go on from the state the operands leave.
\<close>

definition remaining :: "ecalc \<Rightarrow> nat" where
  "remaining s = length (src s) + (if token s = TOKEN_EOF then 0 else 1)"

lemma length_dropWhile_less: "xs \<noteq> [] \<Longrightarrow> P (hd xs) \<Longrightarrow> length (dropWhile P xs) < length xs"
  using length_dropWhile_le [of P "tl xs"] by (cases xs) (auto simp: less_Suc_eq_le)

lemma next_token_src:
  "length (src (next_token s)) \<le> length (src s)"
  "token (next_token s) \<noteq> TOKEN_EOF \<Longrightarrow> length (src (next_token s)) < length (src s)"
proof -
  define t where "t = dropWhile (\<lambda>c. c = CHR '' '') (src s)"
  have t: "length t \<le> length (src s)" unfolding t_def by (rule length_dropWhile_le)
  have d: "t \<noteq> [] \<Longrightarrow> isdigit (hd t) \<Longrightarrow> length (dropWhile isdigit t) < length t" by (rule length_dropWhile_less)
  show lt: "token (next_token s) \<noteq> TOKEN_EOF \<Longrightarrow> length (src (next_token s)) < length (src s)"
    using t d by (cases t) (auto simp: next_token_def t_def [symmetric] Let_def split: if_splits)
  have "token (next_token s) = TOKEN_EOF \<Longrightarrow> src (next_token s) = t"
    by (auto simp: next_token_def t_def Let_def op_token_def split: if_splits)
  with lt t show "length (src (next_token s)) \<le> length (src s)" by force
qed

lemma next_token_remaining:
  "token s \<noteq> TOKEN_EOF \<Longrightarrow> remaining (next_token s) < remaining s" "remaining (next_token s) \<le> remaining s"
  using next_token_src [of s] by (auto simp: remaining_def)

lemma remaining_error [simp]: "remaining (error msg s) = remaining s"
  by (simp add: remaining_def error_def)

definition shrinks :: "ecalc \<Rightarrow> parsed \<Rightarrow> bool" where
  "shrinks s r \<longleftrightarrow> (\<forall>v s1. r = Some (v, s1) \<longrightarrow> remaining s1 \<le> remaining s)"

lemma shrinks_bind:
  assumes "shrinks s r" and "\<And>a v s1. r = Some a \<Longrightarrow> (v, s1) = a \<Longrightarrow> shrinks s1 (f v s1)"
  shows "shrinks s (do { (v, s1) \<leftarrow> r; f v s1 })"
  using assms order_trans unfolding shrinks_def by (cases r) (fastforce split: prod.splits)+

lemma shrinks_next: "shrinks (next_token s) r \<Longrightarrow> shrinks s r"
  using next_token_remaining(2) [of s] by (force simp: shrinks_def)

lemma shrinks_Some: "shrinks s (Some (v, s))" "shrinks s (Some (v, next_token s))" "shrinks s (Some (v, error msg s))"
    "shrinks s None"
  using next_token_remaining(2) [of s] by (simp_all add: shrinks_def)

lemma shrinks_if: "(b \<Longrightarrow> shrinks s r) \<Longrightarrow> (\<not> b \<Longrightarrow> shrinks s q) \<Longrightarrow> shrinks s (if b then r else q)"
  by simp

lemma shrinks_bind_next:
  assumes "shrinks (next_token s) r" and "\<And>a v s1. r = Some a \<Longrightarrow> (v, s1) = a \<Longrightarrow> shrinks s1 (f v s1)"
  shows "shrinks s (do { (v, s1) \<leftarrow> r; f v s1 })"
  by (rule shrinks_bind [OF shrinks_next [OF assms(1)] assms(2)])

lemma shrinks_binop:
  assumes "shrinks s r"
    and "\<And>a v s1. r = Some a \<Longrightarrow> (v, s1) = a \<Longrightarrow> token s1 = t \<Longrightarrow> shrinks (next_token s1) (g (next_token s1))"
  shows "shrinks s (do { (v, s1) \<leftarrow> r;
    if token s1 = t then do { (w, s2) \<leftarrow> g (next_token s1); Some (h v w, s2) } else Some (v, s1) })"
  using assms by (intro shrinks_bind shrinks_if shrinks_bind_next shrinks_Some)

abbreviation (input) "parse_dom \<equiv> parse_expr_expr_loop_parse_or_parse_xor_parse_and_parse_term_term_loop_parse_exponent_exponent_loop_parse_factor_dom"

lemma parse_shrinks:
  "parse_dom (Inl (Inl (Inl s))) \<Longrightarrow> shrinks s (parse_expr s)"
  "parse_dom (Inl (Inl (Inr (v, s)))) \<Longrightarrow> shrinks s (expr_loop v s)"
  "parse_dom (Inl (Inr (Inl s))) \<Longrightarrow> shrinks s (parse_or s)"
  "parse_dom (Inl (Inr (Inr (Inl s)))) \<Longrightarrow> shrinks s (parse_xor s)"
  "parse_dom (Inl (Inr (Inr (Inr s)))) \<Longrightarrow> shrinks s (parse_and s)"
  "parse_dom (Inr (Inl (Inl s))) \<Longrightarrow> shrinks s (parse_term s)"
  "parse_dom (Inr (Inl (Inr (v, s)))) \<Longrightarrow> shrinks s (term_loop v s)"
  "parse_dom (Inr (Inr (Inl s))) \<Longrightarrow> shrinks s (parse_exponent s)"
  "parse_dom (Inr (Inr (Inr (Inl (v, s))))) \<Longrightarrow> shrinks s (exponent_loop v s)"
  "parse_dom (Inr (Inr (Inr (Inr s)))) \<Longrightarrow> shrinks s (parse_factor s)"
proof (induction s and v s and s and s and s and s and v s and s and v s and s rule: parse_expr_expr_loop_parse_or_parse_xor_parse_and_parse_term_term_loop_parse_exponent_exponent_loop_parse_factor.pinduct)
  case (1 s)
  then show ?case unfolding parse_expr.psimps [OF 1(1)] by (intro shrinks_bind)
next
  case (2 v s)
  then show ?case unfolding expr_loop.psimps [OF 2(1)] by (intro shrinks_if shrinks_bind_next shrinks_Some) simp_all
next
  case (3 s)
  then show ?case unfolding parse_or.psimps [OF 3(1)] by (intro shrinks_binop)
next
  case (4 s)
  then show ?case unfolding parse_xor.psimps [OF 4(1)] by (intro shrinks_binop)
next
  case (5 s)
  then show ?case unfolding parse_and.psimps [OF 5(1)] by (intro shrinks_binop)
next
  case (6 s)
  then show ?case unfolding parse_term.psimps [OF 6(1)] by (intro shrinks_bind)
next
  case (7 v s)
  then show ?case unfolding term_loop.psimps [OF 7(1)] by (intro shrinks_if shrinks_bind_next shrinks_Some) simp_all
next
  case (8 s)
  then show ?case unfolding parse_exponent.psimps [OF 8(1)] by (intro shrinks_bind)
next
  case (9 v s)
  then show ?case unfolding exponent_loop.psimps [OF 9(1)] by (intro shrinks_if shrinks_bind_next shrinks_Some) simp_all
next
  case (10 s)
  then show ?case unfolding parse_factor.psimps [OF 10(1)]
    by (cases "token s") (auto intro: shrinks_next intro!: shrinks_bind_next shrinks_Some)
qed

text \<open>The order of the calls: first by what remains, then by the level of the grammar.\<close>

definition call_state :: "((ecalc + u16 \<times> ecalc) + ecalc + ecalc + ecalc) +
    (ecalc + u16 \<times> ecalc) + ecalc + (u16 \<times> ecalc) + ecalc \<Rightarrow> ecalc \<times> nat" where
  "call_state x = (case x of
     Inl (Inl (Inl s)) \<Rightarrow> (s, 7) | Inl (Inl (Inr (v, s))) \<Rightarrow> (s, 0) | Inl (Inr (Inl s)) \<Rightarrow> (s, 6)
   | Inl (Inr (Inr (Inl s))) \<Rightarrow> (s, 5) | Inl (Inr (Inr (Inr s))) \<Rightarrow> (s, 4)
   | Inr (Inl (Inl s)) \<Rightarrow> (s, 3) | Inr (Inl (Inr (v, s))) \<Rightarrow> (s, 0) | Inr (Inr (Inl s)) \<Rightarrow> (s, 2)
   | Inr (Inr (Inr (Inl (v, s)))) \<Rightarrow> (s, 0) | Inr (Inr (Inr (Inr s))) \<Rightarrow> (s, 1))"

lemma shrinksD: "shrinks s r \<Longrightarrow> r = Some (v, s1) \<Longrightarrow> remaining s1 \<le> remaining s"
  by (simp add: shrinks_def)

lemma loop_call_less:
  assumes "shrinks (next_token s) r" and "r = Some (v, s1)" and "token s \<noteq> TOKEN_EOF"
  shows "remaining s1 < remaining s"
  using shrinksD [OF assms(1,2)] next_token_remaining(1) [OF assms(3)] by simp

lemma operand_call_less:
  assumes "shrinks s r" and "r = Some (v, s1)" and "token s1 \<noteq> TOKEN_EOF"
  shows "remaining (next_token s1) < remaining s"
  using shrinksD [OF assms(1,2)] next_token_remaining(1) [OF assms(3)] by simp

termination parse_expr
proof (relation "measures [\<lambda>x. remaining (fst (call_state x)), \<lambda>x. snd (call_state x)]", goal_cases)
  case 1
  show ?case by simp
qed (auto simp: call_state_def next_token_remaining le_less [symmetric]
    dest: shrinksD [OF parse_shrinks(3)] shrinksD [OF parse_shrinks(8)] shrinksD [OF parse_shrinks(10)]
    loop_call_less [OF parse_shrinks(3)] loop_call_less [OF parse_shrinks(8)] loop_call_less [OF parse_shrinks(10)]
    operand_call_less [OF parse_shrinks(4)] operand_call_less [OF parse_shrinks(5)] operand_call_less [OF parse_shrinks(6)])

declare parse_expr.simps [simp del] expr_loop.simps [simp del] parse_or.simps [simp del] parse_xor.simps [simp del]
  parse_and.simps [simp del] parse_term.simps [simp del] term_loop.simps [simp del] parse_exponent.simps [simp del]
  exponent_loop.simps [simp del] parse_factor.simps [simp del]

section \<open>The main loop\<close>

abbreviation chars_of :: "u8 list \<Rightarrow> string" where
  "chars_of bs \<equiv> map (\<lambda>b. char_of (unat b)) bs"

text \<open>
  \<open>line\<close> is the buffer of 255 bytes. A line that begins with \<^verbatim>\<open>q\<close> ends the program. Without a
  terminator in the buffer the parser would leave it.
\<close>

partial_function (option) ecalc_loop :: "u8 list \<Rightarrow> u8 list \<Rightarrow> kernel \<Rightarrow> ecalc \<Rightarrow> (ecalc \<times> u8 list \<times> kernel) option" where
  "ecalc_loop line typed k s = do {
     (n, line1, rest, k1) \<leftarrow> sys_read 0 line 255 typed k;
     let s1 = s\<lparr>shown := shown s @ CHR 0x0A # ''> ''\<rparr>;
     if line1 ! 0 = of_char (CHR ''q'') then Some (s1, rest, k1)
     else do {
       c \<leftarrow> cstring line1;
       (val, s2) \<leftarrow> parse_expr (next_token (s1\<lparr>src := chars_of line1\<rparr>));
       ecalc_loop line1 rest k1 (s2\<lparr>result := val, shown := shown s2 @ ''= '' @ show_int (sint val)\<rparr>)
     }
   }"

definition ecalc_main :: "u8 list \<Rightarrow> u8 list \<Rightarrow> kernel \<Rightarrow> ecalc \<Rightarrow> (ecalc \<times> u8 list \<times> kernel) option" where
  "ecalc_main line typed k s =
     ecalc_loop line typed k (s\<lparr>shown := shown s @ ''ecalc 1.3'' @ [CHR 0x0A] @ ''Type '' @ [CHR 0x27] @ ''q'' @ [CHR 0x27] @ '' to exit''\<rparr>)"

end
