(* ===== verification/Sys_Spec.thy ===== *)
theory Sys_Spec
  imports Sys Mfs_Access
begin

text \<open>
  The system calls as the programs see them: on an open file they are the calls of the file
  interface, on entry 0 they read a line from the terminal.
\<close>

section \<open>The system calls on an open file\<close>

lemma fd_std: "fd_rinv fd s \<Longrightarrow> fd \<noteq> -1 \<and> \<not> (fd < 0 \<or> int FD_MAX \<le> fd) \<and> e_type (fd_table s (nat fd)) = FD_TYPE_FILE"
  by (auto simp: fd_rinv_def fd_get_def split: if_splits)

lemma fd_types: "FD_TYPE_FILE \<noteq> FD_TYPE_STDIN" "FD_TYPE_FILE \<noteq> FD_TYPE_STDOUT" "FD_TYPE_FILE \<noteq> FD_TYPE_STDERR"
  by (simp_all add: FD_TYPE_FILE_def FD_TYPE_STDIN_def FD_TYPE_STDOUT_def FD_TYPE_STDERR_def)

lemma sys_write_file:
  "fd_inv fd (kfs k) \<Longrightarrow> sys_write fd d (of_nat (length d)) k = map_option (\<lambda>(r, s). (r, k\<lparr>kfs := s\<rparr>)) (fd_write fd d (kfs k))"
  using fd_std [of fd "kfs k"] fd_types fd_inv_rinv by (simp add: sys_write_def sysc_write_def fd_write_def Let_def)

lemma sys_lseek_file:
  assumes "fd_inv fd (kfs k)" and "fd_seek fd p (kfs k) = Some s"
  shows "sys_lseek fd p SEEK_SET k = Some (p, k\<lparr>kfs := s\<rparr>)"
  using mfs_seek_pos [OF assms] by (simp add: sys_lseek_def)

lemma sys_read_file:
  assumes "fd_rinv fd (kfs k)" and "fd_read fd n (kfs k) = Some (cs, s)" and "length cs \<le> length buf"
  shows "sys_read fd buf n inp k = Some (of_nat (length cs), patch 0 cs buf, inp, k\<lparr>kfs := s\<rparr>)"
  using mfs_read_count [OF assms(1,2)] fd_std [OF assms(1)] fd_types assms(3) by (auto simp: sys_read_def sysc_read_def)

lemma sys_read_byte:
  assumes "fd_inv fd (kfs k)" and "fd_read fd 1 (kfs k) = Some (cs, s)" and "length cs \<le> 1"
  shows "sys_read fd [c0] 1 inp k = Some (of_nat (length cs), if cs = [] then [c0] else cs, inp, k\<lparr>kfs := s\<rparr>)"
  using sys_read_file [of fd k 1 cs s "[c0]"] assms by (cases cs) (auto simp: patch_def fd_inv_rinv)

section \<open>The terminal\<close>

lemma length_kgets: "kgets_loop len i s inp t = Line n s' rest t' \<Longrightarrow> length s' = length s"
proof (induction inp arbitrary: i s t)
  case (Cons c inp)
  then show ?case by (fastforce simp: kgets_end_def Let_def split: if_splits)
qed (auto simp: kgets_end_def split: if_splits)

lemma sys_read_length:
  "sys_read fd buf n inp k = Some (r, buf', rest, k') \<Longrightarrow> length buf' = length buf"
  by (auto simp: sys_read_def length_patch kgetslen_def sysc_read_def length_kgets split: Option.bind_splits read_result.splits getline.splits if_splits)

text \<open>Entry 0 is the terminal; writing and seeking in a file changes no other entry.\<close>

definition stdin_ok :: "kernel \<Rightarrow> bool" where
  "stdin_ok k \<longleftrightarrow> e_type (fd_table (kfs k) 0) = FD_TYPE_STDIN"

lemma write_loop_fds: "write_loop data i remaining written e s = Some (r, e', s') \<Longrightarrow> fd_table s' = fd_table s"
proof (induction data i remaining written e s rule: write_loop.induct)
  case (1 data i remaining written e s)
  have x: "fd_table s1 = fd_table s" if "extend_chain i e s = Some (me, s1)" for me s1
    using that by (auto simp: extend_chain_def alloc_block_def Let_def split: if_splits Option.bind_splits)
  have w: "fd_table s2 = fd_table s1" if "write_block data i remaining e1 s1 = Some (w, e2, s2)" for e1 s1 w e2 s2
    using that by (auto simp: write_block_def Let_def split: if_splits)
  show ?case
  proof (cases "0 < remaining")
    case True
    note step = 1(2) [unfolded write_loop.simps [of data i remaining] if_P [OF True]]
    obtain me s1 where s1: "extend_chain i e s = Some (me, s1)" using step by (cases "extend_chain i e s") auto
    show ?thesis
    proof (cases me)
      case None
      then show ?thesis using step s1 x [OF s1] by simp
    next
      case (Some e1)
      obtain v e2 s2 where s2: "write_block data i remaining e1 s1 = Some (v, e2, s2)"
        using step s1 Some by (cases "write_block data i remaining e1 s1") auto
      then have "write_loop (drop (unat v) data) i (remaining - v) (written + v) e2 s2 = Some (r, e', s')"
        using step s1 Some by simp
      from 1(1) [OF True s1 refl Some s2 refl refl this] show ?thesis using x [OF s1] w [OF s2] by simp
    qed
  next
    case False
    then show ?thesis using 1(2) by (simp add: write_loop.simps [of data i remaining])
  qed
qed

lemma sys_write_fds:
  assumes "sys_write fd d n k = Some (r, k')" and "x \<noteq> nat fd"
  shows "fd_table (kfs k') x = fd_table (kfs k) x"
proof -
  have "fd_table s x = fd_table (kfs k) x" if "mfs_write fd d n (kfs k) = Some (r, s)" for s
    using that assms(2) write_loop_fds
    by (fastforce simp: mfs_write_def fd_get_def Let_def split: if_splits Option.bind_splits)
  then show ?thesis using assms(1) by (auto simp: sys_write_def sysc_write_def Let_def split: if_splits)
qed

lemma stdin_ok_tty [simp]: "stdin_ok (k\<lparr>ktty := t\<rparr>) = stdin_ok k"
  by (simp add: stdin_ok_def)

text \<open>A line typed without editing keys.\<close>

definition keys :: "u8 list \<Rightarrow> u8 list" where
  "keys l = l @ [0x0D]"

definition plain :: "u8 list \<Rightarrow> bool" where
  "plain l \<longleftrightarrow> (\<forall>c\<in>set l. c \<noteq> 0 \<and> c \<noteq> 0x0D \<and> c \<noteq> 0x0A \<and> c \<noteq> 0x08 \<and> c \<noteq> 0x7F)"

lemma plain_typed: "plain cs \<Longrightarrow> foldl edit_char l cs = l @ cs"
  by (induction cs arbitrary: l) (simp_all add: plain_def edit_char_def)

lemma sys_read_line:
  assumes "stdin_ok k" and "plain l" and "length l < length buf" and "length buf < 0x8000"
  shows "\<exists>buf' t. sys_read 0 buf (of_nat (length buf)) (keys l @ rest) k = Some (of_nat (length l), buf', rest, k\<lparr>ktty := t\<rparr>) \<and>
    length buf' = length buf \<and> cstring buf' = Some l"
proof -
  have n: "nat (sint (of_nat (length buf) :: u16)) = length buf"
    using sint_small [of "of_nat (length buf) :: u16"] assms(4) by (simp add: unat_of_nat)
  have "plain (take m l)" for m using assms(2) by (auto simp: plain_def dest: in_set_takeD)
  then have "length (foldl edit_char [] (take m l)) < length buf" if "m \<le> length l" for m
    using that assms(3) plain_typed [of "take m l" "[]"] by simp
  then obtain s' t' where s': "kgets_loop (length buf) 0 buf (l @ 0x0D # rest) (ktty k) = Line (length l) s' rest t'"
    "take (length l) s' = l" "s' ! length l = 0" "length s' = length buf"
    using kgets_loop_edit [of 0 buf "[]" l "length buf" "0x0D" rest "ktty k"] assms(2) plain_typed [OF assms(2), of "[]"]
    by (auto simp: plain_def is_newline_def)
  have "s' = l @ 0 # drop (length l + 1) s'"
    using s'(2-4) assms(3) id_take_nth_drop [of "length l" s'] by simp
  moreover have "0 \<notin> set l" using assms(2) by (auto simp: plain_def)
  ultimately have "cstring s' = Some l" using cstring_append [of l] by metis
  then show ?thesis
    using assms(1) s'(1,4) n by (intro exI [of _ s'] exI [of _ t']) (simp add: sys_read_def sysc_read_def stdin_ok_def kgetslen_def keys_def FD_MAX_def)
qed

section \<open>Entries\<close>

definition demo_stdin :: fd_entry where
  "demo_stdin = zero_entry\<lparr>e_type := FD_TYPE_STDIN, e_flags := FD_FLAGS_READ\<rparr>"

lemma other_entry:
  assumes "nat fd \<noteq> x" and "e_type y \<noteq> FD_TYPE_FILE"
  defines "t \<equiv> \<lambda>s :: kstate. s\<lparr>fd_table := (fd_table s)(x := y)\<rparr>"
  shows "fd_inv fd s \<Longrightarrow> fd_inv fd (t s)" "fd_ready fd (t s) = fd_ready fd s" "fd_bytes fd (t s) = fd_bytes fd s"
proof -
  have f: "fd_file fd (t s) = fd_file fd s" "fd_table (t s) (nat fd) = fd_table s (nat fd)" "blocks_of (t s) i = blocks_of s i"
      "file_bytes (t s) i bs = file_bytes s i bs" "file_with (t s) i bs = file_with s i bs" "open_at (t s) i bs en = open_at s i bs en" for i bs en
    using assms(1) by (simp_all add: t_def fd_file_def blocks_of_def file_bytes_def file_with_def open_at_def marked_def kfs_ok_def)
  have "fs_ok s \<Longrightarrow> fs_ok (t s)" using assms(2) by (auto simp: t_def fs_ok_def kfs_ok_def entry_ok_def)
  then show "fd_inv fd s \<Longrightarrow> fd_inv fd (t s)" by (simp add: fd_inv_def f)
  show "fd_ready fd (t s) = fd_ready fd s" "fd_bytes fd (t s) = fd_bytes fd s" by (simp_all add: fd_ready_def fd_bytes_def f)
qed

end
