(* ===== verification/Ecalc_Spec.thy ===== *)
theory Ecalc_Spec
  imports Ecalc Sys_Spec
begin

text \<open>
  What the calculator computes: expressions written with the parentheses that the levels of the parser
  need are evaluated as their syntax trees are, with 16-bit wrap-around; the parser returns on every
  line and never moves its pointer over the terminator.
\<close>

section \<open>Powers\<close>

lemma ipow_loop_power: "0 \<le> sint y \<Longrightarrow> ipow_loop x y r = r * x ^ nat (sint y)"
proof (induction x y r rule: ipow_loop.induct)
  case (1 x y r)
  show ?case
  proof (cases "0 < sint y")
    case True
    have "sint (y - 1) = sint y - 1" using True sint_u16_range [of y] by (simp add: sint_diff)
    with True 1 have "ipow_loop x (y - 1) (r * x) = r * x * x ^ nat (sint y - 1)" by simp
    moreover have "x * x ^ nat (sint y - 1) = x ^ nat (sint y)"
      using True by (simp flip: power_Suc add: Suc_nat_eq_nat_zadd1)
    ultimately show ?thesis using True by (subst ipow_loop.simps) (simp add: mult.assoc)
  next
    case False
    with 1 have "sint y = 0" by simp
    then show ?thesis by (subst ipow_loop.simps) simp
  qed
qed

lemma ipow_power: "ipow x y = (if sint y < 0 then 0 else x ^ nat (sint y))"
  by (simp add: ipow_def ipow_loop_power)

section \<open>Syntax trees\<close>

datatype expr =
  Num nat | Ans | Pos expr | Neg expr | Compl expr
| Add expr expr | Sub expr expr | Or expr expr | Xor expr expr | And expr expr
| Mul expr expr | Div expr expr | Pow expr expr | Paren expr

fun denote :: "u16 \<Rightarrow> expr \<Rightarrow> u16 option" where
  "denote ans (Num n) = Some (of_nat n)"
| "denote ans Ans = Some ans"
| "denote ans (Pos a) = denote ans a"
| "denote ans (Neg a) = map_option uminus (denote ans a)"
| "denote ans (Compl a) = map_option not (denote ans a)"
| "denote ans (Add a b) = do { x \<leftarrow> denote ans a; y \<leftarrow> denote ans b; Some (x + y) }"
| "denote ans (Sub a b) = do { x \<leftarrow> denote ans a; y \<leftarrow> denote ans b; Some (x - y) }"
| "denote ans (Or a b) = do { x \<leftarrow> denote ans a; y \<leftarrow> denote ans b; Some (x OR y) }"
| "denote ans (Xor a b) = do { x \<leftarrow> denote ans a; y \<leftarrow> denote ans b; Some (x XOR y) }"
| "denote ans (And a b) = do { x \<leftarrow> denote ans a; y \<leftarrow> denote ans b; Some (x AND y) }"
| "denote ans (Mul a b) = do { x \<leftarrow> denote ans a; y \<leftarrow> denote ans b; Some (x * y) }"
| "denote ans (Div a b) = do { x \<leftarrow> denote ans a; y \<leftarrow> denote ans b; if y = 0 then None else Some (of_int (sint x sdiv sint y)) }"
| "denote ans (Pow a b) = do { x \<leftarrow> denote ans a; y \<leftarrow> denote ans b; Some (if sint y < 0 then 0 else x ^ nat (sint y)) }"
| "denote ans (Paren a) = denote ans a"

text \<open>The levels of the grammar, from the weakest operator to the atoms.\<close>

fun level :: "expr \<Rightarrow> nat" where
  "level (Add a b) = 0" | "level (Sub a b) = 0" | "level (Or a b) = 1" | "level (Xor a b) = 2" | "level (And a b) = 3"
| "level (Mul a b) = 4" | "level (Div a b) = 4" | "level (Pow a b) = 5" | "level _ = 6"

text \<open>
  The text of a tree where an operand of level \<open>n\<close> is expected. The sums, products and powers group
  to the left; the bitwise operators take one operand on each side.
\<close>

fun text_of :: "nat \<Rightarrow> expr \<Rightarrow> string" where
  "text_of n e =
     (let t = (case e of
          Num k \<Rightarrow> show_nat k | Ans \<Rightarrow> ''ans''
        | Pos a \<Rightarrow> ''+'' @ text_of 6 a | Neg a \<Rightarrow> ''-'' @ text_of 6 a | Compl a \<Rightarrow> ''~'' @ text_of 6 a
        | Add a b \<Rightarrow> text_of 0 a @ ''+'' @ text_of 1 b | Sub a b \<Rightarrow> text_of 0 a @ ''-'' @ text_of 1 b
        | Or a b \<Rightarrow> text_of 2 a @ ''|'' @ text_of 2 b | Xor a b \<Rightarrow> text_of 3 a @ ''^'' @ text_of 3 b
        | And a b \<Rightarrow> text_of 4 a @ ''&'' @ text_of 4 b
        | Mul a b \<Rightarrow> text_of 4 a @ ''*'' @ text_of 5 b | Div a b \<Rightarrow> text_of 4 a @ ''/'' @ text_of 5 b
        | Pow a b \<Rightarrow> text_of 5 a @ ''e'' @ text_of 6 b | Paren a \<Rightarrow> ''('' @ text_of 0 a @ '')'')
      in if level e < n then ''('' @ t @ '')'' else t)"

declare text_of.simps [simp del]

text \<open>The characters that may follow an operand of level \<open>n\<close>.\<close>

definition op_level :: "char \<Rightarrow> nat option" where
  "op_level c =
     (if c = CHR ''+'' \<or> c = CHR ''-'' then Some 0 else if c = CHR ''|'' then Some 1 else if c = CHR ''^'' then Some 2
      else if c = CHR ''&'' then Some 3 else if c = CHR ''*'' \<or> c = CHR ''/'' then Some 4
      else if c = CHR ''e'' then Some 5 else None)"

definition follow :: "nat \<Rightarrow> string \<Rightarrow> bool" where
  "follow n rest = (case rest of [] \<Rightarrow> True
     | c # cs \<Rightarrow> c = CHR '')'' \<or> (case op_level c of None \<Rightarrow> False | Some k \<Rightarrow> k < n))"

section \<open>Tokens of a text\<close>

definition scan :: "ecalc \<Rightarrow> string \<Rightarrow> ecalc" where
  "scan s t = next_token (s\<lparr>src := t\<rparr>)"

lemma scan_update [simp]: "scan (s\<lparr>src := x\<rparr>) t = scan s t" "scan (s\<lparr>token := k\<rparr>) t = scan s t"
  by (simp_all add: scan_def next_token_def Let_def)

lemma scan_result [simp]: "result (scan s t) = result s"
  by (simp_all add: scan_def next_token_def Let_def)

lemma scan_next: "next_token (s\<lparr>src := t, token := k\<rparr>) = scan s t"
  by (simp add: scan_def next_token_def Let_def)

lemma scan_Nil: "scan s [] = s\<lparr>src := [], token := TOKEN_EOF\<rparr>"
  by (simp add: scan_def next_token_def)

lemma scan_op: "c \<in> set ''+-*/()e&|^~'' \<Longrightarrow> scan s (c # cs) = s\<lparr>src := cs, token := op_token c\<rparr>"
proof -
  assume c: "c \<in> set ''+-*/()e&|^~''"
  have "list_all (\<lambda>c. c \<noteq> CHR '' '' \<and> \<not> isdigit c \<and> c \<noteq> CHR ''a'' \<and> c \<noteq> CHR 0x00) ''+-*/()e&|^~''" by code_simp
  then have "c \<noteq> CHR '' ''" "\<not> isdigit c" "c \<noteq> CHR ''a''" "c \<noteq> CHR 0x00" using c unfolding list_all_iff by blast+
  then show ?thesis by (simp add: scan_def next_token_def)
qed

lemma scan_ans: "scan s (''ans'' @ t) = s\<lparr>src := t, token := TOKEN_ANS\<rparr>"
  by (simp add: scan_def next_token_def isdigit_def)

lemma isdigit_digit_char [simp]: "d < 10 \<Longrightarrow> isdigit (digit_char d)"
  by (simp add: isdigit_def)

lemma follow_not_digit: "follow n (c # cs) \<Longrightarrow> \<not> isdigit c \<and> digit_value c \<in> {None, Some 14}"
  by (auto simp: follow_def op_level_def isdigit_def digit_value_def split: option.splits if_splits)

lemma scan_num:
  assumes "follow n t"
  shows "scan s (show_nat k @ t) = s\<lparr>num := of_nat k, src := t, token := TOKEN_NUM\<rparr>"
proof -
  have all: "\<forall>c\<in>set (show_nat k). isdigit c" "\<forall>c\<in>set (show_nat k). \<exists>d. digit_value c = Some d \<and> d < 10"
    using show_nat_digits [of k] by auto
  obtain c cs where c: "show_nat k = c # cs" by (cases "show_nat k") auto
  with all have hd: "isdigit c" "c \<noteq> CHR '' ''" "c \<noteq> CHR 0x00" by (auto simp: isdigit_def)
  have "digits 10 a t = a" for a using follow_not_digit [of n "hd t" "tl t"] assms by (cases t) (auto split: option.splits)
  then have d: "digits 10 0 (show_nat k @ t) = k" using digits_append [OF all(2)] digits_show_nat [of k] by simp
  have "dropWhile isdigit (show_nat k @ t) = dropWhile isdigit t" using all(1) by (simp add: dropWhile_append)
  then have w: "dropWhile isdigit (show_nat k @ t) = t" using follow_not_digit [of n "hd t" "tl t"] assms by (cases t) auto
  show ?thesis using hd d w by (simp add: c scan_def next_token_def)
qed

lemma follow_mono: "follow m t \<Longrightarrow> m \<le> n \<Longrightarrow> follow n t"
  by (auto simp: follow_def split: list.splits option.splits)

lemma follow_token:
  "follow 5 t \<Longrightarrow> token (scan s t) \<noteq> TOKEN_EXP" "follow 4 t \<Longrightarrow> token (scan s t) \<notin> {TOKEN_MUL, TOKEN_DIV}"
  "follow 3 t \<Longrightarrow> token (scan s t) \<noteq> TOKEN_AND" "follow 2 t \<Longrightarrow> token (scan s t) \<noteq> TOKEN_XOR"
  "follow 1 t \<Longrightarrow> token (scan s t) \<noteq> TOKEN_OR" "follow 0 t \<Longrightarrow> token (scan s t) \<notin> {TOKEN_ADD, TOKEN_SUB}"
proof -
  have "token (scan s t) = (case t of [] \<Rightarrow> TOKEN_EOF | c # cs \<Rightarrow> op_token c)" if "follow n t" for n
    using that scan_op scan_Nil by (cases t) (auto simp: follow_def op_level_def split: option.splits if_splits)
  then show "follow 5 t \<Longrightarrow> token (scan s t) \<noteq> TOKEN_EXP" "follow 4 t \<Longrightarrow> token (scan s t) \<notin> {TOKEN_MUL, TOKEN_DIV}"
  "follow 3 t \<Longrightarrow> token (scan s t) \<noteq> TOKEN_AND" "follow 2 t \<Longrightarrow> token (scan s t) \<noteq> TOKEN_XOR"
  "follow 1 t \<Longrightarrow> token (scan s t) \<noteq> TOKEN_OR" "follow 0 t \<Longrightarrow> token (scan s t) \<notin> {TOKEN_ADD, TOKEN_SUB}"
    by (auto simp: follow_def op_token_def op_level_def split: list.splits option.splits if_splits)
qed

section \<open>The levels of the parser\<close>

definition parser :: "nat \<Rightarrow> ecalc \<Rightarrow> parsed" where
  "parser k = [parse_expr, parse_or, parse_xor, parse_and, parse_term, parse_exponent, parse_factor] ! k"

definition continue :: "nat \<Rightarrow> u16 \<Rightarrow> ecalc \<Rightarrow> parsed" where
  "continue k = (if k = 0 then expr_loop else if k = 4 then term_loop else if k = 5 then exponent_loop
     else (\<lambda>v s. Some (v, s)))"

definition bound :: "nat \<Rightarrow> nat" where
  "bound k = (if k = 0 \<or> k = 4 \<or> k = 5 then k + 1 else k)"

text \<open>
  Level \<open>k\<close> reads the tree: behind its text the parser of the level has the value of the tree and goes
  on with the rest of the line, in the loops with the next operator of the level.
\<close>

definition reads :: "nat \<Rightarrow> expr \<Rightarrow> bool" where
  "reads k e \<longleftrightarrow> (\<forall>s v t. denote (result s) e = Some v \<longrightarrow> follow (bound k) t \<longrightarrow>
     (\<exists>n. parser k (scan s (text_of k e @ t)) = continue k v (scan (s\<lparr>num := n\<rparr>) t)))"

lemma readsD:
  assumes "reads k e" and "denote (result s) e = Some v" and "follow (bound k) t"
  obtains n where "parser k (scan s (text_of k e @ t)) = continue k v (scan (s\<lparr>num := n\<rparr>) t)"
  using assms(1) [unfolded reads_def, rule_format, OF assms(2,3)] by blast

lemmas level_defs = parser_def continue_def bound_def

lemma loop_end:
  "follow 0 t \<Longrightarrow> expr_loop v (scan s t) = Some (v, scan s t)"
  "follow 4 t \<Longrightarrow> term_loop v (scan s t) = Some (v, scan s t)"
  "follow 5 t \<Longrightarrow> exponent_loop v (scan s t) = Some (v, scan s t)"
  using follow_token [of t s] by (simp_all add: expr_loop.simps term_loop.simps exponent_loop.simps)

lemmas text_of_cases =
  text_of.simps [of n "Num k" for n k] text_of.simps [of n Ans for n] text_of.simps [of n "Pos a" for n a]
  text_of.simps [of n "Neg a" for n a] text_of.simps [of n "Compl a" for n a]
  text_of.simps [of n "Add a b" for n a b]
  text_of.simps [of n "Sub a b" for n a b]
  text_of.simps [of n "Or a b" for n a b]
  text_of.simps [of n "Xor a b" for n a b]
  text_of.simps [of n "And a b" for n a b]
  text_of.simps [of n "Mul a b" for n a b]
  text_of.simps [of n "Div a b" for n a b]
  text_of.simps [of n "Pow a b" for n a b]
  text_of.simps [of n "Paren a" for n a]

lemma text_of_level: "text_of k e = (if level e < k then ''('' @ text_of 0 e @ '')'' else text_of 0 e)"
  by (simp add: text_of.simps [of k] text_of.simps [of 0] Let_def)

lemma text_of_Suc: "level e \<noteq> k \<Longrightarrow> text_of (Suc k) e = text_of k e"
  by (auto simp: text_of_level [of "Suc k"] text_of_level [of k])

lemma reads_Suc:
  assumes "reads (Suc k) e" and "level e \<noteq> k" and "k < 6"
  shows "reads k e"
  unfolding reads_def
proof (intro allI impI)
  fix s :: ecalc and v t
  assume v: "denote (result s) e = Some v" and f: "follow (bound k) t"
  have "follow (bound (Suc k)) t" by (rule follow_mono [OF f]) (use assms(3) in \<open>auto simp: bound_def\<close>)
  then obtain n where n: "parser (Suc k) (scan s (text_of k e @ t)) = continue (Suc k) v (scan (s\<lparr>num := n\<rparr>) t)"
    using readsD [OF assms(1) v] text_of_Suc [OF assms(2)] by metis
  have fs: "k < 4 \<Longrightarrow> follow 4 t" "k < 5 \<Longrightarrow> follow 5 t"
    by (auto intro!: follow_mono [OF f] simp: bound_def)
  consider "k = 0" | "k = 1" | "k = 2" | "k = 3" | "k = 4" | "k = 5" using assms(3) by linarith
  then have "parser k (scan s (text_of k e @ t)) = continue k v (scan (s\<lparr>num := n\<rparr>) t)"
    using n f fs follow_token [of t "s\<lparr>num := n\<rparr>"] loop_end [of t v "s\<lparr>num := n\<rparr>"]
    by cases (simp_all add: level_defs parse_expr.simps parse_or.simps parse_xor.simps parse_and.simps parse_term.simps
        parse_exponent.simps)
  then show "\<exists>n. parser k (scan s (text_of k e @ t)) = continue k v (scan (s\<lparr>num := n\<rparr>) t)" ..
qed

lemma readsI:
  assumes "\<And>s v t. denote (result s) e = Some v \<Longrightarrow> follow (bound k) t \<Longrightarrow>
    \<exists>n. parser k (scan s (text_of k e @ t)) = continue k v (scan (s\<lparr>num := n\<rparr>) t)"
  shows "reads k e"
  using assms unfolding reads_def by blast

text \<open>An expression up to the closing parenthesis.\<close>

lemma reads_closed:
  assumes "reads 0 e" and "denote (result s) e = Some v"
  obtains n where "parse_expr (scan s (text_of 0 e @ '')'' @ t)) = Some (v, scan (s\<lparr>num := n\<rparr>) ('')'' @ t))"
proof -
  have f: "follow (bound 0) ('')'' @ t)" "follow 0 ('')'' @ t)" by (simp_all add: follow_def)
  obtain n where "parser 0 (scan s (text_of 0 e @ '')'' @ t)) = continue 0 v (scan (s\<lparr>num := n\<rparr>) ('')'' @ t))"
    using readsD [OF assms f(1)] .
  then show thesis using loop_end(1) [OF f(2)] by (intro that [of n]) (simp add: level_defs)
qed

lemma reads_paren:
  assumes "reads 0 e" and "level e < 6"
  shows "reads 6 e"
proof (rule readsI)
  fix s :: ecalc and v t
  assume v: "denote (result s) e = Some v"
  obtain n where "parse_expr (scan s (text_of 0 e @ '')'' @ t)) = Some (v, scan (s\<lparr>num := n\<rparr>) ('')'' @ t))"
    using reads_closed [OF assms(1) v] .
  then have "parser 6 (scan s (text_of 6 e @ t)) = continue 6 v (scan (s\<lparr>num := n\<rparr>) t)"
    using assms(2) by (simp add: level_defs text_of_level [of 6] parse_factor.simps scan_op scan_next op_token_def)
  then show "\<exists>n. parser 6 (scan s (text_of 6 e @ t)) = continue 6 v (scan (s\<lparr>num := n\<rparr>) t)" ..
qed

lemma reads_Paren: "reads 0 e \<Longrightarrow> reads 6 (Paren e)"
proof (rule readsI)
  fix s :: ecalc and v t
  assume r: "reads 0 e" and v: "denote (result s) (Paren e) = Some v"
  obtain n where "parse_expr (scan s (text_of 0 e @ '')'' @ t)) = Some (v, scan (s\<lparr>num := n\<rparr>) ('')'' @ t))"
    by (rule reads_closed [OF r]) (use v in simp_all)
  then have "parser 6 (scan s (text_of 6 (Paren e) @ t)) = continue 6 v (scan (s\<lparr>num := n\<rparr>) t)"
    by (simp add: level_defs text_of_cases parse_factor.simps scan_op scan_next op_token_def)
  then show "\<exists>n. parser 6 (scan s (text_of 6 (Paren e) @ t)) = continue 6 v (scan (s\<lparr>num := n\<rparr>) t)" ..
qed

lemma reads_all:
  assumes "reads (level e) e" and "k \<le> 6"
  shows "reads k e"
proof -
  have le6: "level e \<le> 6" by (cases e) simp_all
  have down: "reads (m - j) e" if "reads m e" "m \<le> 6" "\<And>i. i < j \<Longrightarrow> level e \<noteq> m - Suc i" "j \<le> m" for m j
    using that
  proof (induction j)
    case (Suc j)
    then have "reads (Suc (m - Suc j)) e" by (simp add: Suc_diff_Suc)
    moreover have "level e \<noteq> m - Suc j" using Suc by simp
    moreover have "m - Suc j < 6" using Suc by linarith
    ultimately show ?case by (rule reads_Suc)
  qed simp
  have low: "reads i e" if "i \<le> level e" for i
    using down [OF assms(1) le6, of "level e - i"] that by auto
  show ?thesis
  proof (cases "k \<le> level e")
    case False
    then have "reads 6 e" using assms(2) low [of 0] by (intro reads_paren) auto
    from down [OF this, of "6 - k"] False assms(2) show ?thesis by auto
  qed (rule low)
qed

lemma text_of_raw: "n \<le> level e \<Longrightarrow> text_of n e = text_of 0 e"
  by (simp add: text_of_level [of n])

lemma reads_atoms: "reads 6 (Num k)" "reads 6 Ans"
proof -
  have "parser 6 (scan s (text_of 6 (Num k) @ t)) = continue 6 (of_nat k) (scan (s\<lparr>num := of_nat k\<rparr>) t)"
    if "follow 6 t" for s t
    using scan_num [OF that, of s k] scan_next [where s = "s\<lparr>num := of_nat k\<rparr>" and t = t]
    by (simp add: level_defs text_of.simps parse_factor.simps)
  then show "reads 6 (Num k)" by (intro readsI exI) (simp add: bound_def)
  have "parser 6 (scan s (text_of 6 Ans @ t)) = continue 6 (result s) (scan (s\<lparr>num := num s\<rparr>) t)" for s t
    using scan_ans [of s t] scan_next [where s = s and t = t] by (simp add: level_defs text_of.simps parse_factor.simps)
  then show "reads 6 Ans" by (intro readsI) (metis denote.simps(2) option.inject)
qed

lemma reads_unary:
  assumes "reads 6 a"
  shows "reads 6 (Pos a)" "reads 6 (Neg a)" "reads 6 (Compl a)"
proof -
  have a: "\<exists>n. parse_factor (scan s (text_of 6 a @ t)) = Some (x, scan (s\<lparr>num := n\<rparr>) t)"
    if "denote (result s) a = Some x" "follow 6 t" for s x t
    using readsD [OF assms that(1), of t] that(2) by (auto simp: level_defs)
  show "reads 6 (Pos a)" "reads 6 (Neg a)" "reads 6 (Compl a)"
    by (rule readsI; use a in \<open>force simp: level_defs text_of.simps [of _ "Pos a"] text_of.simps [of _ "Neg a"] text_of.simps [of _ "Compl a"]
        parse_factor.simps [of "_\<lparr>src := _, token := _\<rparr>"] scan_op scan_next op_token_def\<close>)+
qed

text \<open>The loops take an operator of their level and the operand behind it.\<close>

lemma expr_loop_step:
  assumes "c = CHR ''+'' \<or> c = CHR ''-''" and "reads 1 b" and "denote (result s) b = Some y" and "follow 1 t"
  obtains n where "expr_loop x (scan s (c # text_of 1 b @ t)) =
    expr_loop (if c = CHR ''+'' then x + y else x - y) (scan (s\<lparr>num := n\<rparr>) t)"
proof -
  obtain n where "parse_or (scan s (text_of 1 b @ t)) = Some (y, scan (s\<lparr>num := n\<rparr>) t)"
    using readsD [OF assms(2,3), of t] assms(4) by (auto simp: level_defs)
  then show thesis using assms(1)
    by (intro that [of n], subst expr_loop.simps) (auto simp: scan_op scan_next op_token_def)
qed

lemma term_loop_step:
  assumes "c = CHR ''*'' \<or> c = CHR ''/'' \<and> y \<noteq> 0" and "reads 5 b" and "denote (result s) b = Some y" and "follow 5 t"
  obtains n where "term_loop x (scan s (c # text_of 5 b @ t)) =
    term_loop (if c = CHR ''*'' then x * y else sdiv16 x y) (scan (s\<lparr>num := n\<rparr>) t)"
proof -
  obtain n where "parse_exponent (scan s (text_of 5 b @ t)) = Some (y, scan (s\<lparr>num := n\<rparr>) t)"
    using readsD [OF assms(2,3), of t] follow_mono [OF assms(4)] loop_end(3) [OF assms(4)] by (auto simp: level_defs)
  then show thesis using assms(1)
    by (intro that [of n], subst term_loop.simps) (auto simp: scan_op scan_next op_token_def)
qed

lemma exponent_loop_step:
  assumes "reads 6 b" and "denote (result s) b = Some y" and "follow 6 t"
  obtains n where "exponent_loop x (scan s (''e'' @ text_of 6 b @ t)) = exponent_loop (ipow x y) (scan (s\<lparr>num := n\<rparr>) t)"
proof -
  obtain n where "parse_factor (scan s (text_of 6 b @ t)) = Some (y, scan (s\<lparr>num := n\<rparr>) t)"
    using readsD [OF assms(1,2), of t] assms(3) by (auto simp: level_defs)
  then show thesis
    by (intro that [of n], subst exponent_loop.simps) (auto simp: scan_op scan_next op_token_def)
qed

lemma reads_loops:
  assumes "reads 0 a" "reads 1 b" "reads 4 c" "reads 5 d" "reads 5 f" "reads 6 g"
  shows "reads 0 (Add a b)" "reads 0 (Sub a b)" "reads 4 (Mul c d)" "reads 4 (Div c d)" "reads 5 (Pow f g)"
proof -
  have sum: "\<exists>n. parse_expr (scan s (text_of 0 a @ o1 # text_of 1 b @ t)) =
      expr_loop (if o1 = CHR ''+'' then x + y else x - y) (scan (s\<lparr>num := n\<rparr>) t)"
    if o: "o1 = CHR ''+'' \<or> o1 = CHR ''-''" and v: "denote (result s) a = Some x" "denote (result s) b = Some y" and f: "follow 1 t"
    for s x y t o1
  proof -
    have "follow (bound 0) (o1 # text_of 1 b @ t)" using o by (auto simp: follow_def op_level_def bound_def)
    from readsD [OF assms(1) v(1) this] obtain n where
      "parse_expr (scan s (text_of 0 a @ o1 # text_of 1 b @ t)) = expr_loop x (scan (s\<lparr>num := n\<rparr>) (o1 # text_of 1 b @ t))"
      by (auto simp: level_defs)
    moreover obtain m where "expr_loop x (scan (s\<lparr>num := n\<rparr>) (o1 # text_of 1 b @ t)) =
        expr_loop (if o1 = CHR ''+'' then x + y else x - y) (scan (s\<lparr>num := m\<rparr>) t)"
      by (rule expr_loop_step [OF o assms(2) _ f, of "s\<lparr>num := n\<rparr>" y x]) (simp_all add: v(2))
    ultimately show ?thesis by metis
  qed
  have product: "\<exists>n. parse_term (scan s (text_of 4 c @ o1 # text_of 5 d @ t)) =
      term_loop (if o1 = CHR ''*'' then x * y else sdiv16 x y) (scan (s\<lparr>num := n\<rparr>) t)"
    if o: "o1 = CHR ''*'' \<or> o1 = CHR ''/'' \<and> y \<noteq> 0" and v: "denote (result s) c = Some x" "denote (result s) d = Some y" and f: "follow 5 t"
    for s x y t o1
  proof -
    have "follow (bound 4) (o1 # text_of 5 d @ t)" using o by (auto simp: follow_def op_level_def bound_def)
    from readsD [OF assms(3) v(1) this] obtain n where
      "parse_term (scan s (text_of 4 c @ o1 # text_of 5 d @ t)) = term_loop x (scan (s\<lparr>num := n\<rparr>) (o1 # text_of 5 d @ t))"
      by (auto simp: level_defs)
    moreover obtain m where "term_loop x (scan (s\<lparr>num := n\<rparr>) (o1 # text_of 5 d @ t)) =
        term_loop (if o1 = CHR ''*'' then x * y else sdiv16 x y) (scan (s\<lparr>num := m\<rparr>) t)"
      by (rule term_loop_step [OF o assms(4) _ f, of "s\<lparr>num := n\<rparr>" x]) (simp_all add: v(2))
    ultimately show ?thesis by metis
  qed
  have power: "\<exists>n. parse_exponent (scan s (text_of 5 f @ ''e'' @ text_of 6 g @ t)) =
      exponent_loop (ipow x y) (scan (s\<lparr>num := n\<rparr>) t)"
    if v: "denote (result s) f = Some x" "denote (result s) g = Some y" and f: "follow 6 t" for s x y t
  proof -
    have "follow (bound 5) (''e'' @ text_of 6 g @ t)" by (auto simp: follow_def op_level_def bound_def)
    from readsD [OF assms(5) v(1) this] obtain n where
      "parse_exponent (scan s (text_of 5 f @ ''e'' @ text_of 6 g @ t)) =
        exponent_loop x (scan (s\<lparr>num := n\<rparr>) (''e'' @ text_of 6 g @ t))"
      by (auto simp: level_defs)
    moreover obtain m where "exponent_loop x (scan (s\<lparr>num := n\<rparr>) (''e'' @ text_of 6 g @ t)) =
        exponent_loop (ipow x y) (scan (s\<lparr>num := m\<rparr>) t)"
      by (rule exponent_loop_step [OF assms(6) _ f, of "s\<lparr>num := n\<rparr>" y x]) (simp_all add: v(2))
    ultimately show ?thesis by metis
  qed
  show "reads 0 (Add a b)" "reads 0 (Sub a b)"
    by (rule readsI; use sum [of "CHR ''+''"] sum [of "CHR ''-''"] in
        \<open>force simp: level_defs text_of.simps [of 0] Option.bind_eq_Some_conv\<close>)+
  show "reads 4 (Mul c d)" "reads 4 (Div c d)"
    by (rule readsI; use product [of "CHR ''*''"] product [of "CHR ''/''"] in
        \<open>force simp: level_defs text_of.simps [of 4 "Mul c d"] text_of.simps [of 4 "Div c d"] Option.bind_eq_Some_conv sdiv16_def split: if_splits\<close>)+
  show "reads 5 (Pow f g)"
    by (rule readsI; use power in
        \<open>force simp: level_defs text_of.simps [of 5 "Pow f g"] Option.bind_eq_Some_conv ipow_power\<close>)
qed

lemmas reads_left = reads_loops [of a b a b a b for a b]

lemma reads_value:
  assumes "reads k e" and "denote (result s) e = Some v" and "follow k t" and "k \<le> 6"
  obtains n where "parser k (scan s (text_of k e @ t)) = Some (v, scan (s\<lparr>num := n\<rparr>) t)"
proof -
  have "follow (bound k) t" by (rule follow_mono [OF assms(3)]) (simp add: bound_def)
  from readsD [OF assms(1,2) this] obtain n where
    n: "parser k (scan s (text_of k e @ t)) = continue k v (scan (s\<lparr>num := n\<rparr>) t)" .
  have "continue k v (scan (s\<lparr>num := n\<rparr>) t) = Some (v, scan (s\<lparr>num := n\<rparr>) t)"
    using loop_end [of t v "s\<lparr>num := n\<rparr>"] assms(3) by (auto simp: continue_def)
  with n show thesis using that by simp
qed

text \<open>The bitwise levels take at most one operator.\<close>

lemma one_operator:
  assumes "\<And>s. p s = do { (val, s1) \<leftarrow> parser k s;
      if token s1 = op_token c then do { (rs, s2) \<leftarrow> parser k (next_token s1); Some (h val rs, s2) } else Some (val, s1) }"
    and "op_level c = Some l" and "l < k" and "k \<le> 6" and "reads k a" and "reads k b"
    and "denote (result s) a = Some x" and "denote (result s) b = Some y" and "follow l t"
  shows "\<exists>n. p (scan s (text_of k a @ c # text_of k b @ t)) = Some (h x y, scan (s\<lparr>num := n\<rparr>) t)"
proof -
  have "follow k (c # text_of k b @ t)" using assms(2,3) by (simp add: follow_def)
  then obtain m where m: "parser k (scan s (text_of k a @ c # text_of k b @ t)) =
      Some (x, scan (s\<lparr>num := m\<rparr>) (c # text_of k b @ t))"
    using reads_value [OF assms(5,7) _ assms(4)] by blast
  have "follow k t" by (rule follow_mono [OF assms(9)]) (use assms(3) in simp)
  then obtain n where "parser k (scan (s\<lparr>num := m\<rparr>) (text_of k b @ t)) = Some (y, scan (s\<lparr>num := n\<rparr>) t)"
    using reads_value [OF assms(6) _ _ assms(4), of "s\<lparr>num := m\<rparr>" y t] assms(8) by auto
  moreover have "c \<in> set ''+-*/()e&|^~''" using assms(2) by (auto simp: op_level_def split: if_splits)
  ultimately show ?thesis using m by (intro exI [of _ n]) (simp add: assms(1) scan_op scan_next)
qed

lemma reads_bitwise:
  "reads 2 a \<Longrightarrow> reads 2 b \<Longrightarrow> reads (Suc 0) (Or a b)" "reads 3 a \<Longrightarrow> reads 3 b \<Longrightarrow> reads 2 (Xor a b)"
  "reads 4 a \<Longrightarrow> reads 4 b \<Longrightarrow> reads 3 (And a b)"
proof -
  have "parse_or s = do { (val, s1) \<leftarrow> parser 2 s;
      if token s1 = op_token CHR ''|'' then do { (rs, s2) \<leftarrow> parser 2 (next_token s1); Some (val OR rs, s2) }
      else Some (val, s1) }" for s
    by (simp add: parse_or.simps [of s] parser_def op_token_def cong: if_cong)
  note step = one_operator [where p = parse_or and l = 1, OF this]
  show "reads 2 a \<Longrightarrow> reads 2 b \<Longrightarrow> reads (Suc 0) (Or a b)"
    by (rule readsI) (auto simp: level_defs text_of_cases Option.bind_eq_Some_conv op_level_def intro!: step)
  have "parse_xor s = do { (val, s1) \<leftarrow> parser 3 s;
      if token s1 = op_token CHR ''^'' then do { (rs, s2) \<leftarrow> parser 3 (next_token s1); Some (val XOR rs, s2) }
      else Some (val, s1) }" for s
    by (simp add: parse_xor.simps [of s] parser_def op_token_def cong: if_cong)
  note step = one_operator [where p = parse_xor and l = 2, OF this]
  show "reads 3 a \<Longrightarrow> reads 3 b \<Longrightarrow> reads 2 (Xor a b)"
    by (rule readsI) (auto simp: level_defs text_of_cases Option.bind_eq_Some_conv op_level_def intro!: step)
  have "parse_and s = do { (val, s1) \<leftarrow> parser 4 s;
      if token s1 = op_token CHR ''&'' then do { (rs, s2) \<leftarrow> parser 4 (next_token s1); Some (val AND rs, s2) }
      else Some (val, s1) }" for s
    by (simp add: parse_and.simps [of s] parser_def op_token_def cong: if_cong)
  note step = one_operator [where p = parse_and and l = 3, OF this]
  show "reads 4 a \<Longrightarrow> reads 4 b \<Longrightarrow> reads 3 (And a b)"
    by (rule readsI) (auto simp: level_defs text_of_cases Option.bind_eq_Some_conv op_level_def intro!: step)
qed

lemma reads_level: "reads (level e) e"
  by (induction e) (simp_all add: reads_atoms reads_unary reads_left reads_bitwise reads_Paren reads_all)

lemma parse_text:
  assumes "denote (result s) e = Some v"
  shows "\<exists>n. parse_expr (next_token (s\<lparr>src := text_of 0 e\<rparr>)) = Some (v, s\<lparr>num := n, src := [], token := TOKEN_EOF\<rparr>)"
proof -
  have "reads 0 e" by (rule reads_all [OF reads_level]) simp
  then obtain n where "parser 0 (scan s (text_of 0 e @ [])) = Some (v, scan (s\<lparr>num := n\<rparr>) [])"
    by (rule reads_value [OF _ assms, where t = "[]"]) (simp_all add: follow_def)
  then show ?thesis by (auto simp: parser_def scan_def scan_Nil [unfolded scan_def])
qed

section \<open>The parser returns\<close>

text \<open>No division is ahead.\<close>

definition no_div :: "ecalc \<Rightarrow> bool" where
  "no_div s \<longleftrightarrow> token s \<noteq> TOKEN_DIV \<and> CHR ''/'' \<notin> set (src s)"

definition returns :: "ecalc \<Rightarrow> parsed \<Rightarrow> bool" where
  "returns s r \<longleftrightarrow> (no_div s \<longrightarrow> r \<noteq> None) \<and>
     (\<forall>v s1. r = Some (v, s1) \<longrightarrow> suffix (src s1) (src s) \<and> (no_div s \<longrightarrow> no_div s1))"

lemma next_token_suffix: "suffix (src (next_token s)) (src s)"
proof -
  have d: "suffix (dropWhile P xs) xs" for P :: "char \<Rightarrow> bool" and xs by (rule suffix_dropWhile)
  have "suffix (tl (dropWhile P xs)) xs" "suffix (drop 3 (dropWhile P xs)) xs" for P :: "char \<Rightarrow> bool" and xs
    using suffix_order.trans [OF suffix_tl d] suffix_order.trans [OF suffix_drop d] by blast+
  moreover have "suffix (dropWhile isdigit (dropWhile P xs)) xs" for P :: "char \<Rightarrow> bool" and xs
    using suffix_order.trans [OF d d] .
  ultimately show ?thesis using d by (auto simp: next_token_def Let_def)
qed

lemma next_token_no_div: "CHR ''/'' \<notin> set (src s) \<Longrightarrow> no_div (next_token s)"
proof -
  assume n: "CHR ''/'' \<notin> set (src s)"
  let ?t = "dropWhile (\<lambda>c. c = CHR '' '') (src s)"
  have "set ?t \<subseteq> set (src s)" by (rule set_mono_suffix [OF suffix_dropWhile])
  then have "?t \<noteq> [] \<Longrightarrow> hd ?t \<noteq> CHR ''/''" using n by (metis hd_in_set in_mono)
  then have "token (next_token s) \<noteq> TOKEN_DIV" by (simp add: next_token_def Let_def op_token_def)
  moreover have "CHR ''/'' \<notin> set (src (next_token s))"
    using set_mono_suffix [OF next_token_suffix [of s]] n by auto
  ultimately show ?thesis by (simp add: no_div_def)
qed

lemma returns_bind:
  assumes "returns s r" and "\<And>a v s1. r = Some a \<Longrightarrow> (v, s1) = a \<Longrightarrow> returns s1 (f v s1)"
  shows "returns s (do { (v, s1) \<leftarrow> r; f v s1 })"
proof (cases r)
  case (Some p)
  obtain v s1 where p: "p = (v, s1)" by (cases p)
  have "returns s1 (f v s1)" using assms(2) Some p by simp
  then show ?thesis using assms(1) Some p unfolding returns_def by (auto intro: suffix_order.trans)
qed (use assms(1) in \<open>simp add: returns_def\<close>)

lemma returns_next: "returns (next_token s) r \<Longrightarrow> returns s r"
  using next_token_suffix [of s] next_token_no_div [of s] unfolding returns_def no_div_def by (blast intro: suffix_order.trans)

lemma returns_Some: "returns s (Some (v, s))" "returns s (Some (v, next_token s))" "returns s (Some (v, error msg s))"
  using next_token_suffix [of s] next_token_no_div [of s] by (simp_all add: returns_def no_div_def error_def)

lemma returns_if: "(b \<Longrightarrow> returns s r) \<Longrightarrow> (\<not> b \<Longrightarrow> returns s q) \<Longrightarrow> returns s (if b then r else q)"
  by simp

lemma returns_bind_next:
  assumes "returns (next_token s) r" and "\<And>a v s1. r = Some a \<Longrightarrow> (v, s1) = a \<Longrightarrow> returns s1 (f v s1)"
  shows "returns s (do { (v, s1) \<leftarrow> r; f v s1 })"
  by (rule returns_bind [OF returns_next [OF assms(1)] assms(2)])

lemma returns_div:
  assumes "token s = TOKEN_DIV" and "returns (next_token s) r" and "\<And>a v s1. r = Some a \<Longrightarrow> (v, s1) = a \<Longrightarrow> v \<noteq> 0 \<Longrightarrow> returns s1 (f v s1)"
  shows "returns s (do { (v, s1) \<leftarrow> r; if v = 0 then None else f v s1 })"
proof -
  have "returns s (do { (v, s1) \<leftarrow> r; if v = 0 then Some (0, s1) else f v s1 })"
    by (rule returns_bind_next [OF assms(2)]) (use assms(3) in \<open>simp add: returns_Some\<close>)
  then show ?thesis using assms(1) by (cases r) (auto simp: returns_def no_div_def split: if_splits)
qed

lemma parse_returns:
  "returns s1 (parse_expr s1)" "returns s2 (expr_loop v2 s2)" "returns s3 (parse_or s3)" "returns s4 (parse_xor s4)"
  "returns s5 (parse_and s5)" "returns s6 (parse_term s6)" "returns s7 (term_loop v7 s7)" "returns s8 (parse_exponent s8)"
  "returns s9 (exponent_loop v9 s9)" "returns s10 (parse_factor s10)"
proof (induction s1 and v2 s2 and s3 and s4 and s5 and s6 and v7 s7 and s8 and v9 s9 and s10
    rule: parse_expr_expr_loop_parse_or_parse_xor_parse_and_parse_term_term_loop_parse_exponent_exponent_loop_parse_factor.induct)
  case (1 s)
  then show ?case unfolding parse_expr.simps by (intro returns_bind)
next
  case (2 v s)
  then show ?case by (subst expr_loop.simps) (intro returns_if returns_bind_next returns_Some, simp_all)
next
  case (3 s)
  then show ?case by (subst parse_or.simps) (intro returns_bind returns_if returns_bind_next returns_Some, simp_all)
next
  case (4 s)
  then show ?case by (subst parse_xor.simps) (intro returns_bind returns_if returns_bind_next returns_Some, simp_all)
next
  case (5 s)
  then show ?case by (subst parse_and.simps) (intro returns_bind returns_if returns_bind_next returns_Some, simp_all)
next
  case (6 s)
  then show ?case unfolding parse_term.simps by (intro returns_bind)
next
  case (7 v s)
  show ?case
  proof (cases "token s = TOKEN_DIV")
    case True
    then show ?thesis using 7 by (subst term_loop.simps) (simp, intro returns_div, simp_all)
  next
    case False
    then show ?thesis using 7 by (subst term_loop.simps) (auto intro!: returns_bind_next returns_Some)
  qed
next
  case (8 s)
  then show ?case unfolding parse_exponent.simps by (intro returns_bind)
next
  case (9 v s)
  then show ?case by (subst exponent_loop.simps) (intro returns_if returns_bind_next returns_Some, simp_all)
next
  case (10 s)
  then show ?case
    by (subst parse_factor.simps, cases "token s") (auto intro: returns_next intro!: returns_bind_next returns_Some)
qed

section \<open>The terminator\<close>

text \<open>
  A line in the buffer: its characters, the terminator and whatever lies behind it. The parser on the
  buffer does what it does on the characters alone, and its pointer stays in front of the terminator
  or on it.
\<close>

definition buffered :: "string \<Rightarrow> ecalc \<Rightarrow> ecalc" where
  "buffered junk s = s\<lparr>src := src s @ CHR 0x00 # junk\<rparr>"

definition in_buffer :: "string \<Rightarrow> parsed \<Rightarrow> parsed" where
  "in_buffer junk r = map_option (\<lambda>(v, s). (v, buffered junk s)) r"

definition unterminated :: "ecalc \<Rightarrow> bool" where
  "unterminated s \<longleftrightarrow> CHR 0x00 \<notin> set (src s)"

lemma buffered_sel [simp]: "token (buffered junk s) = token s" "num (buffered junk s) = num s" "result (buffered junk s) = result s"
  "error msg (buffered junk s) = buffered junk (error msg s)"
  by (simp_all add: buffered_def error_def)

lemma dropWhile_stop: "\<not> P c \<Longrightarrow> dropWhile P (xs @ c # ys) = dropWhile P xs @ c # ys"
  by (induction xs) simp_all

lemma digits_stop: "digit_value c = None \<Longrightarrow> digits base acc (xs @ c # ys) = digits base acc xs"
  by (induction xs arbitrary: acc) (auto split: option.split)

lemma next_token_buffered:
  assumes "unterminated s"
  shows "next_token (buffered junk s) = buffered junk (next_token s)"
proof -
  define t where "t = dropWhile (\<lambda>c. c = CHR '' '') (src s)"
  have b: "dropWhile (\<lambda>c. c = CHR '' '') (src s @ CHR 0x00 # junk) = t @ CHR 0x00 # junk"
    unfolding t_def by (rule dropWhile_stop) simp
  have nul: "digit_value (CHR 0x00) = None" "\<not> isdigit (CHR 0x00)" by (simp_all add: digit_value_def isdigit_def)
  have "set t \<subseteq> set (src s)" unfolding t_def by (rule set_mono_suffix [OF suffix_dropWhile])
  then have z: "CHR 0x00 \<notin> set t" using assms by (auto simp: unterminated_def)
  have short: "take 3 t = ''ans'' \<Longrightarrow> 3 \<le> length t" by (auto dest!: arg_cong [of _ _ length])
  have ans: "take 3 (t @ CHR 0x00 # junk) = ''ans'' \<longleftrightarrow> take 3 t = ''ans''"
  proof (cases "3 \<le> length t")
    case False
    then have "CHR 0x00 \<in> set (take 3 (t @ CHR 0x00 # junk))" by (simp add: take_append take_Cons')
    moreover have "CHR 0x00 \<notin> set ''ans''" by simp
    ultimately have "take 3 (t @ CHR 0x00 # junk) \<noteq> ''ans''" by metis
    then show ?thesis using short False by blast
  qed simp
  note stop = dropWhile_stop [of isdigit, OF nul(2), of t junk] digits_stop [OF nul(1), of 10 0 t junk]
  show ?thesis
  proof (cases "t = []")
    case True
    then show ?thesis by (simp add: next_token_def buffered_def Let_def b flip: t_def)
  next
    case False
    then have "hd t \<noteq> CHR 0x00" using z hd_in_set [of t] by metis
    then show ?thesis using False ans short stop
      by (simp add: next_token_def buffered_def Let_def b del: append_Cons flip: t_def)
  qed
qed

lemma unterminated_next: "unterminated s \<Longrightarrow> unterminated (next_token s)"
  using set_mono_suffix [OF next_token_suffix [of s]] by (auto simp: unterminated_def)

lemma unterminated_returns: "returns s r \<Longrightarrow> r = Some (v, s1) \<Longrightarrow> unterminated s \<Longrightarrow> unterminated s1"
  using set_mono_suffix by (fastforce simp: returns_def unterminated_def)

text \<open>A function of the parser commutes with the rest of the buffer.\<close>

definition stays :: "(ecalc \<Rightarrow> parsed) \<Rightarrow> ecalc \<Rightarrow> bool" where
  "stays f s \<longleftrightarrow> (unterminated s \<longrightarrow> (\<forall>junk. f (buffered junk s) = in_buffer junk (f s)))"

lemma staysI: "(\<And>junk. unterminated s \<Longrightarrow> f (buffered junk s) = in_buffer junk (f s)) \<Longrightarrow> stays f s"
  by (simp add: stays_def)

lemma stays_bind:
  assumes "stays f s" and "returns s (f s)" and "\<And>a v s1. f s = Some a \<Longrightarrow> (v, s1) = a \<Longrightarrow> stays (g v) s1"
  shows "stays (\<lambda>s. do { (v, s1) \<leftarrow> f s; g v s1 }) s"
proof (rule staysI)
  fix junk assume u: "unterminated s"
  have f: "f (buffered junk s) = in_buffer junk (f s)" using assms(1) u by (simp add: stays_def)
  show "do { (v, s1) \<leftarrow> f (buffered junk s); g v s1 } = in_buffer junk (do { (v, s1) \<leftarrow> f s; g v s1 })"
  proof (cases "f s")
    case (Some p)
    obtain v s1 where p: "p = (v, s1)" by (cases p)
    have "stays (g v) s1" "unterminated s1" using assms(3) unterminated_returns [OF assms(2)] Some p u by auto
    then show ?thesis using f Some p by (simp add: in_buffer_def stays_def)
  qed (simp add: f in_buffer_def)
qed

lemma stays_next: "stays f (next_token s) \<Longrightarrow> stays (\<lambda>s. f (next_token s)) s"
  using next_token_buffered [of s] unterminated_next [of s] by (simp add: stays_def)

lemma stays_Some: "stays (\<lambda>s. Some (v, s)) s" "stays (\<lambda>s. Some (v, next_token s)) s" "stays (\<lambda>s. Some (v, error msg s)) s"
    "stays (\<lambda>s. Some (num s, next_token s)) s" "stays (\<lambda>s. Some (result s, next_token s)) s" "stays (\<lambda>s. None) s"
  using next_token_buffered [of s] by (simp_all add: stays_def in_buffer_def)

lemma stays_if: "(P (token s) \<Longrightarrow> stays f s) \<Longrightarrow> (\<not> P (token s) \<Longrightarrow> stays g s) \<Longrightarrow> stays (\<lambda>s. if P (token s) then f s else g s) s"
  by (simp add: stays_def)

lemma stays_cong: "stays g s \<Longrightarrow> f s = g s \<Longrightarrow> (\<And>junk. f (buffered junk s) = g (buffered junk s)) \<Longrightarrow> stays f s"
  by (simp add: stays_def)

lemma stays_bind_next:
  assumes "stays f (next_token s)" and "returns (next_token s) (f (next_token s))"
    and "\<And>a v s1. f (next_token s) = Some a \<Longrightarrow> (v, s1) = a \<Longrightarrow> stays (g v) s1"
  shows "stays (\<lambda>s. do { (v, s1) \<leftarrow> f (next_token s); g v s1 }) s"
  by (rule stays_bind [OF stays_next [OF assms(1)] returns_next [OF assms(2)] assms(3)])

lemma stays_binop:
  assumes "stays f s" and "returns s (f s)" and "\<And>s. returns s (f s)"
    and "\<And>a v s1. f s = Some a \<Longrightarrow> (v, s1) = a \<Longrightarrow> token s1 = t \<Longrightarrow> stays f (next_token s1)"
  shows "stays (\<lambda>s. do { (v, s1) \<leftarrow> f s;
    if token s1 = t then do { (w, s2) \<leftarrow> f (next_token s1); Some (h v w, s2) } else Some (v, s1) }) s"
  using assms by (intro stays_bind stays_if [where P = "\<lambda>x. x = t"] stays_bind_next stays_Some)

lemma parse_stays:
  "stays parse_expr s1" "stays (expr_loop v2) s2" "stays parse_or s3" "stays parse_xor s4"
  "stays parse_and s5" "stays parse_term s6" "stays (term_loop v7) s7" "stays parse_exponent s8"
  "stays (exponent_loop v9) s9" "stays parse_factor s10"
proof (induction s1 and v2 s2 and s3 and s4 and s5 and s6 and v7 s7 and s8 and v9 s9 and s10
    rule: parse_expr_expr_loop_parse_or_parse_xor_parse_and_parse_term_term_loop_parse_exponent_exponent_loop_parse_factor.induct)
  case (1 s)
  then show ?case unfolding parse_expr.simps [abs_def] by (intro stays_bind parse_returns)
next
  case (2 v s)
  show ?case
  proof (cases "token s = TOKEN_ADD \<or> token s = TOKEN_SUB")
    case True
    with 2 have "stays (\<lambda>x. do { (rs, s1) \<leftarrow> parse_or (next_token x); expr_loop (if token s = TOKEN_ADD then v + rs else v - rs) s1 }) s"
      by (intro stays_bind_next parse_returns) auto
    then show ?thesis by (rule stays_cong) (use True in \<open>subst expr_loop.simps, simp\<close>)+
  qed (rule stays_cong [OF stays_Some(1)]; subst expr_loop.simps; simp)
next
  case (3 s)
  then show ?case unfolding parse_or.simps [abs_def] by (intro stays_binop parse_returns)
next
  case (4 s)
  then show ?case unfolding parse_xor.simps [abs_def] by (intro stays_binop parse_returns)
next
  case (5 s)
  then show ?case unfolding parse_and.simps [abs_def] by (intro stays_binop parse_returns)
next
  case (6 s)
  then show ?case unfolding parse_term.simps [abs_def] by (intro stays_bind parse_returns)
next
  case (7 v s)
  show ?case
  proof (cases "token s = TOKEN_MUL \<or> token s = TOKEN_DIV")
    case True
    let ?g = "\<lambda>rs s1. if token s = TOKEN_MUL then term_loop (v * rs) s1 else if rs = 0 then None else term_loop (sdiv16 v rs) s1"
    have "stays (?g rs) s1" if "parse_exponent (next_token s) = Some (rs, s1)" for rs s1
      using 7(2) [OF True that] 7(3) [OF True that] stays_Some(6) by (cases "token s = TOKEN_MUL"; cases "rs = 0") auto
    with 7(1) [OF True] have "stays (\<lambda>x. do { (rs, s1) \<leftarrow> parse_exponent (next_token x); ?g rs s1 }) s"
      by (intro stays_bind_next parse_returns) auto
    then show ?thesis by (rule stays_cong) (use True in \<open>subst term_loop.simps, simp\<close>)+
  qed (rule stays_cong [OF stays_Some(1)]; subst term_loop.simps; simp)
next
  case (8 s)
  then show ?case unfolding parse_exponent.simps [abs_def] by (intro stays_bind parse_returns)
next
  case (9 v s)
  show ?case
  proof (cases "token s = TOKEN_EXP")
    case True
    with 9 have "stays (\<lambda>x. do { (rs, s1) \<leftarrow> parse_factor (next_token x); exponent_loop (ipow v rs) s1 }) s"
      by (intro stays_bind_next parse_returns) auto
    then show ?thesis by (rule stays_cong) (use True in \<open>subst exponent_loop.simps, simp\<close>)+
  qed (rule stays_cong [OF stays_Some(1)]; subst exponent_loop.simps; simp)
next
  case (10 s)
  have close: "stays (\<lambda>s1. Some (v, if token s1 = TOKEN_RPAR then next_token s1 else error msg s1)) s'" for v s' msg
    using stays_Some(2) [where v = v and s = s'] stays_Some(3) [where v = v and msg = msg and s = s'] by (cases "token s' = TOKEN_RPAR") (auto simp: stays_def)
  show ?case
  proof (cases "token s")
    case TOKEN_NUM
    show ?thesis by (rule stays_cong [OF stays_Some(4)]; subst parse_factor.simps; simp add: TOKEN_NUM)
  next
    case TOKEN_ANS
    show ?thesis by (rule stays_cong [OF stays_Some(5)]; subst parse_factor.simps; simp add: TOKEN_ANS)
  next
    case TOKEN_LPAR
    have "stays (\<lambda>x. do { (val, s1) \<leftarrow> parse_expr (next_token x);
        Some (val, if token s1 = TOKEN_RPAR then next_token s1 else error (''expected '' @ [CHR 0x27] @ '')'' @ [CHR 0x27]) s1) }) s"
      using 10(1) [OF TOKEN_LPAR] by (intro stays_bind_next parse_returns close)
    then show ?thesis by (rule stays_cong; subst parse_factor.simps; simp add: TOKEN_LPAR)
  next
    case TOKEN_ADD
    show ?thesis by (rule stays_cong [OF stays_next [OF 10(2) [OF TOKEN_ADD]]]; subst parse_factor.simps; simp add: TOKEN_ADD)
  next
    case TOKEN_SUB
    have "stays (\<lambda>x. do { (val, s1) \<leftarrow> parse_factor (next_token x); Some (- val, s1) }) s"
      using 10(3) [OF TOKEN_SUB] by (intro stays_bind_next parse_returns stays_Some)
    then show ?thesis by (rule stays_cong; subst parse_factor.simps; simp add: TOKEN_SUB)
  next
    case TOKEN_NOT
    have "stays (\<lambda>x. do { (val, s1) \<leftarrow> parse_factor (next_token x); Some (NOT val, s1) }) s"
      using 10(4) [OF TOKEN_NOT] by (intro stays_bind_next parse_returns stays_Some)
    then show ?thesis by (rule stays_cong; subst parse_factor.simps; simp add: TOKEN_NOT)
  qed (rule stays_cong [OF stays_Some(3)]; subst parse_factor.simps; simp)+
qed

lemma parse_buffered:
  assumes "CHR 0x00 \<notin> set line"
  shows "parse_expr (next_token (s\<lparr>src := line @ CHR 0x00 # junk\<rparr>)) = in_buffer junk (parse_expr (next_token (s\<lparr>src := line\<rparr>)))"
proof -
  let ?s = "s\<lparr>src := line\<rparr>"
  have u: "unterminated ?s" using assms by (simp add: unterminated_def)
  have "s\<lparr>src := line @ CHR 0x00 # junk\<rparr> = buffered junk ?s" by (simp add: buffered_def)
  then show ?thesis
    using next_token_buffered [OF u] unterminated_next [OF u] parse_stays(1) [of "next_token ?s"] by (simp add: stays_def)
qed

text \<open>
  C32: The parser comes to an end on every line, inside it. On a terminated line, whatever lies behind
  the terminator, the result is the same, and the source pointer it leaves points into the line or
  to the terminator: what is left is a rest of the line, then the terminator and what lies behind
  it. On a line without a division it returns a value, whatever the line holds (unbalanced
  parentheses, missing operands, unknown characters).
\<close>

theorem parser_returns:
  assumes "CHR 0x00 \<notin> set line"
  shows "\<exists>r. (\<forall>junk. parse_expr (next_token (s\<lparr>src := line @ CHR 0x00 # junk\<rparr>)) =
      map_option (\<lambda>(v, s'). (v, s'\<lparr>src := src s' @ CHR 0x00 # junk\<rparr>)) r) \<and>
    (CHR ''/'' \<notin> set line \<longrightarrow> r \<noteq> None) \<and> (\<forall>v s'. r = Some (v, s') \<longrightarrow> suffix (src s') line)"
proof -
  let ?s = "next_token (s\<lparr>src := line\<rparr>)"
  have "suffix (src ?s) line" using next_token_suffix [of "s\<lparr>src := line\<rparr>"] by simp
  moreover have "no_div ?s" if "CHR ''/'' \<notin> set line"
    using next_token_no_div [of "s\<lparr>src := line\<rparr>"] that by simp
  ultimately have "(CHR ''/'' \<notin> set line \<longrightarrow> parse_expr ?s \<noteq> None) \<and> (\<forall>v s'. parse_expr ?s = Some (v, s') \<longrightarrow> suffix (src s') line)"
    using parse_returns(1) [of ?s] unfolding returns_def by (blast intro: suffix_order.trans)
  then show ?thesis
    using parse_buffered [OF assms, where s = s] by (intro exI [of _ "parse_expr ?s"]) (simp add: in_buffer_def buffered_def)
qed

definition calc_start :: ecalc where
  "calc_start = \<lparr>src = [], token = TOKEN_NULL, num = 0, result = 0, shown = []\<rparr>"

theorem parser_returns_witness:
  "\<exists>v s'. parse_expr (next_token (calc_start\<lparr>src := ''((1+*)ans'' @ CHR 0x00 # ''ans''\<rparr>)) = Some (v, s') \<and>
     (\<exists>t. src s' = t @ CHR 0x00 # ''ans'' \<and> suffix t ''((1+*)ans'')"
proof -
  have "CHR 0x00 \<notin> set ''((1+*)ans''" "CHR ''/'' \<notin> set ''((1+*)ans''" by simp_all
  from parser_returns [OF this(1), of calc_start] this(2) obtain r where
    r: "\<forall>junk. parse_expr (next_token (calc_start\<lparr>src := ''((1+*)ans'' @ CHR 0x00 # junk\<rparr>)) =
      map_option (\<lambda>(v, s'). (v, s'\<lparr>src := src s' @ CHR 0x00 # junk\<rparr>)) r" "r \<noteq> None"
      "\<forall>v s'. r = Some (v, s') \<longrightarrow> suffix (src s') ''((1+*)ans''" by blast
  then obtain v s' where "r = Some (v, s')" by auto
  then show ?thesis using r(1) [rule_format, of "''ans''"] r(3)
    by (intro exI [of _ v] exI [of _ "s'\<lparr>src := src s' @ CHR 0x00 # ''ans''\<rparr>"]) auto
qed

section \<open>Sessions\<close>

text \<open>
  Expressions that the comment in the source about the precedence of the operators and the code read
  alike: no bitwise operation is an operand of a sum without parentheses, and no \<^verbatim>\<open>&\<close> one of a
  \<^verbatim>\<open>^\<close>. The numerals fit into an \<^verbatim>\<open>int\<close>.
\<close>

definition bitwise :: "expr \<Rightarrow> bool" where
  "bitwise e \<longleftrightarrow> 1 \<le> level e \<and> level e \<le> 3"

fun agreed :: "expr \<Rightarrow> bool" where
  "agreed (Num n) = (n < 0x8000)" | "agreed Ans = True"
| "agreed (Pos a) = agreed a" | "agreed (Neg a) = agreed a" | "agreed (Compl a) = agreed a" | "agreed (Paren a) = agreed a"
| "agreed (Add a b) = (agreed a \<and> agreed b \<and> \<not> bitwise a \<and> \<not> bitwise b)"
| "agreed (Sub a b) = (agreed a \<and> agreed b \<and> \<not> bitwise a \<and> \<not> bitwise b)"
| "agreed (Xor a b) = (agreed a \<and> agreed b \<and> level a \<noteq> 3 \<and> level b \<noteq> 3)"
| "agreed (Or a b) = (agreed a \<and> agreed b)" | "agreed (And a b) = (agreed a \<and> agreed b)"
| "agreed (Mul a b) = (agreed a \<and> agreed b)" | "agreed (Div a b) = (agreed a \<and> agreed b)"
| "agreed (Pow a b) = (agreed a \<and> agreed b)"

text \<open>Lines of expressions, each of which may use the value before it as \<^verbatim>\<open>ans\<close>.\<close>

fun session :: "u16 \<Rightarrow> expr list \<Rightarrow> u16 list option" where
  "session ans [] = Some []"
| "session ans (e # es) = do { v \<leftarrow> denote ans e; vs \<leftarrow> session v es; Some (v # vs) }"

lemma text_of_hd: "text_of k e \<noteq> [] \<and> hd (text_of k e) \<noteq> CHR ''q''"
proof (induction e arbitrary: k)
  case (Num n)
  obtain c cs where c: "show_nat n = c # cs" by (cases "show_nat n") auto
  then obtain d where "d < 10" "c = digit_char d" using show_nat_digits [of n] by auto
  then have "c \<noteq> CHR ''q''" by (auto simp: digit_char_eq)
  then show ?case by (simp add: text_of.simps c Let_def)
qed (simp_all add: text_of_cases Let_def)

text \<open>The texts have no control characters.\<close>

lemma text_of_printable: "c \<in> set (text_of k e) \<Longrightarrow> 0x20 < (of_char c :: nat) \<and> (of_char c :: nat) < 0x7F"
proof (induction e arbitrary: k)
  case (Num n)
  then have "c \<in> set (show_nat n) \<or> c = CHR ''('' \<or> c = CHR '')''" by (auto simp: text_of.simps Let_def split: if_splits)
  then show ?case using show_nat_digits [of n] by auto
qed (auto simp: text_of_cases Let_def split: if_splits)

lemma text_of_plain: "plain (bytes_of (text_of k e))" "CHR 0x00 \<notin> set (text_of k e)"
proof -
  have "(of_char c :: u8) \<noteq> x" if "c \<in> set (text_of k e)" "unat x \<le> 0x20 \<or> 0x7F \<le> unat x" for c x
    using text_of_printable [OF that(1)] that(2) unat_of_char [of c] by auto
  then show "plain (bytes_of (text_of k e))" by (auto simp: plain_def)
  show "CHR 0x00 \<notin> set (text_of k e)" using text_of_printable [of "CHR 0x00" k e] by auto
qed

lemma cstring_split: "cstring buf = Some l \<Longrightarrow> \<exists>junk. buf = l @ 0 # junk"
proof -
  assume c: "cstring buf = Some l"
  then have "dropWhile (\<lambda>c. c \<noteq> 0) buf \<noteq> []" by (auto simp: cstring_def dropWhile_eq_Nil_conv split: if_splits)
  then obtain x junk where "dropWhile (\<lambda>c. c \<noteq> 0) buf = x # junk" "x = 0"
    using hd_dropWhile [of "\<lambda>c. c \<noteq> 0" buf] by (cases "dropWhile (\<lambda>c. c \<noteq> 0) buf") auto
  then show ?thesis using c takeWhile_dropWhile_id [of "\<lambda>c. c \<noteq> 0" buf] by (auto simp: cstring_def split: if_splits)
qed

text \<open>The text printed for a line, and for the lines of a session.\<close>

definition answer :: "u16 \<Rightarrow> string" where
  "answer v = CHR 0x0A # ''> = '' @ show_int (sint v)"

lemma ecalc_loop_line:
  assumes "stdin_ok k" and "length line = 255" and "length (text_of 0 e) < 255" and "denote (result s) e = Some v"
  obtains line' k' n junk where "length line' = 255" and "stdin_ok k'"
    and "ecalc_loop line (keys (bytes_of (text_of 0 e)) @ rest) k s =
      ecalc_loop line' rest k' (s\<lparr>num := n, src := junk, token := TOKEN_EOF, result := v, shown := shown s @ answer v\<rparr>)"
proof -
  let ?t = "text_of 0 e"
  have "length (bytes_of ?t) < length line" "length line < 0x8000" using assms(2,3) by simp_all
  from sys_read_line [OF assms(1) text_of_plain(1) this, of rest] obtain buf tt where
    r: "sys_read 0 line 255 (keys (bytes_of ?t) @ rest) k = Some (of_nat (length ?t), buf, rest, k\<lparr>ktty := tt\<rparr>)"
      "length buf = 255" "cstring buf = Some (bytes_of ?t)"
    using assms(2) by auto
  obtain junk where junk: "buf = bytes_of ?t @ 0 # junk" using cstring_split [OF r(3)] by blast
  let ?s = "s\<lparr>shown := shown s @ CHR 0x0A # ''> ''\<rparr>"
  obtain n where n: "parse_expr (next_token (?s\<lparr>src := ?t\<rparr>)) = Some (v, ?s\<lparr>num := n, src := [], token := TOKEN_EOF\<rparr>)"
    using parse_text [of ?s e v] assms(4) by auto
  have z: "char_of (0 :: nat) = CHR 0x00" by code_simp
  have ch: "chars_of buf = ?t @ CHR 0x00 # chars_of junk" using char_bytes [of ?t] by (simp add: junk z del: map_map)
  have p: "parse_expr (next_token (?s\<lparr>src := chars_of buf\<rparr>)) =
      Some (v, ?s\<lparr>num := n, src := CHR 0x00 # chars_of junk, token := TOKEN_EOF\<rparr>)"
    unfolding ch parse_buffered [OF text_of_plain(2)] n by (simp add: in_buffer_def buffered_def)
  have "buf ! 0 \<noteq> of_char (CHR ''q'')"
    using text_of_hd [of 0 e] of_char_u8 by (cases ?t) (auto simp: junk simp del: of_char_Char)
  then have "ecalc_loop line (keys (bytes_of ?t) @ rest) k s = ecalc_loop buf rest (k\<lparr>ktty := tt\<rparr>)
      (s\<lparr>num := n, src := CHR 0x00 # chars_of junk, token := TOKEN_EOF, result := v, shown := shown s @ answer v\<rparr>)"
    using r p by (subst ecalc_loop.simps) (simp add: answer_def Let_def)
  then show thesis using r(2) assms(1) by (intro that) simp_all
qed

lemma ecalc_loop_session:
  assumes "stdin_ok k" and "length line = 255" and "\<forall>e\<in>set es. length (text_of 0 e) < 255" and "session (result s) es = Some vs"
  shows "\<exists>s' k'. ecalc_loop line (concat (map (\<lambda>e. keys (bytes_of (text_of 0 e))) es) @ keys (bytes_of ''q'') @ rest) k s = Some (s', rest, k') \<and>
    shown s' = shown s @ concat (map answer vs) @ CHR 0x0A # ''> ''"
  using assms
proof (induction es arbitrary: k line s vs)
  case Nil
  have q: "plain (bytes_of ''q'')" "length (bytes_of ''q'') < length line" "length line < 0x8000" using Nil.prems(2) by (simp_all add: plain_def)
  obtain buf tt where r: "sys_read 0 line 255 (keys (bytes_of ''q'') @ rest) k = Some (1, buf, rest, k\<lparr>ktty := tt\<rparr>)"
      "cstring buf = Some (bytes_of ''q'')"
    using sys_read_line [OF Nil.prems(1) q, of rest] Nil.prems(2) by auto
  obtain junk where "buf = bytes_of ''q'' @ 0 # junk" using cstring_split [OF r(2)] by blast
  then show ?case using r(1) Nil.prems(4) by (subst ecalc_loop.simps) (simp add: Let_def)
next
  case (Cons e es)
  then obtain v ws where v: "denote (result s) e = Some v" "session v es = Some ws" "vs = v # ws"
    by (auto simp: Option.bind_eq_Some_conv)
  let ?more = "concat (map (\<lambda>e. keys (bytes_of (text_of 0 e))) es) @ keys (bytes_of ''q'') @ rest"
  have l: "length (text_of 0 e) < 255" using Cons.prems(3) by simp
  obtain line' k' n junk where step: "length line' = 255" "stdin_ok k'"
      "ecalc_loop line (keys (bytes_of (text_of 0 e)) @ ?more) k s =
       ecalc_loop line' ?more k' (s\<lparr>num := n, src := junk, token := TOKEN_EOF, result := v, shown := shown s @ answer v\<rparr>)"
    by (rule ecalc_loop_line [OF Cons.prems(1,2) l v(1)])
  let ?s = "s\<lparr>num := n, src := junk, token := TOKEN_EOF, result := v, shown := shown s @ answer v\<rparr>"
  show ?case using Cons.IH [OF step(2,1), of ?s ws] Cons.prems(3) v(2) step(3) by (simp add: v(3))
qed


definition calc_kernel :: kernel where
  "calc_kernel = \<lparr>kfs = boot_kstate\<lparr>fd_table := (\<lambda>_. zero_entry)(0 := demo_stdin)\<rparr>, ktty = demo_tty,
     pih = \<lparr>pih_magic = 0, pih_size = 0, pih_entry = 0, pih_flags = 0, pih_exitcode = 0, pih_argc = 0, pih_argv = []\<rparr>, umem = \<lambda>_. 0\<rparr>"


end
