(* ===== verification/Mfs_Util.thy ===== *)
theory Mfs_Util
  imports Mfs
begin

text \<open>
  The host tool that writes files into disk images (\<^verbatim>\<open>mfs-util.c\<close>). Its file system globals
  have the layout of the kernel's, so they are the kernel's record \<open>vol\<close> (the descriptor fields
  of which the tool does not have); \<^verbatim>\<open>bitmap_get\<close>, \<^verbatim>\<open>bitmap_set\<close>, \<^verbatim>\<open>alloc_block\<close> and
  \<^verbatim>\<open>write_changes\<close> are the same code as in the kernel. Functions that differ have the suffix
  \<open>_u\<close>. \<open>None\<close> is again an access outside a buffer, a null dereference or the use of an
  uninitialised variable. The messages are not modelled.
\<close>

section \<open>State\<close>

record ustate =
  vol :: kstate
  program_buf :: "u8 list"
  current_fd_file :: "nat option"
  current_file :: "nat option"

definition MAX_FILES :: nat where "MAX_FILES = 24"
definition FS_BLOCK_SECTOR :: nat where "FS_BLOCK_SECTOR = 3"
definition FS_MAX_SECTORS :: nat where "FS_MAX_SECTORS = 2880 - 3"
definition PROGRAM_BUF :: nat where "PROGRAM_BUF = 0x4000"
definition MAX_BLOCKS :: nat where "MAX_BLOCKS = 64"

abbreviation sector_limit :: u16 where "sector_limit \<equiv> of_nat FS_MAX_SECTORS"

section \<open>Mounting and formatting\<close>

definition mfs_init_u :: "u8 list \<Rightarrow> ustate \<Rightarrow> u16 \<times> ustate" where
  "mfs_init_u img s =
     (let k = vol s; rb = disk_read img 0 (root_buf k);
          k1 = k\<lparr>kdisk := img, root := decode_root rb, root_rest := drop 16 rb\<rparr>
      in if \<not> has_sector img 0 then (1, s\<lparr>vol := k1\<rparr>)
         else
           let k2 = k1\<lparr>block_bitmap := disk_read img (bitmap_sector (root k1)) (block_bitmap k1)\<rparr>
           in if \<not> has_sector img (bitmap_sector (root k1)) then (1, s\<lparr>vol := k2\<rparr>)
              else
                let fb = disk_read img (fentry_sector (root k2)) (files_buf k2);
                    k3 = k2\<lparr>files := decode_files FENTRY_COUNT fb, files_rest := drop (FENTRY_COUNT * FENTRY_SIZE) fb\<rparr>
                in if \<not> has_sector img (fentry_sector (root k2)) then (1, s\<lparr>vol := k3\<rparr>)
                   else (0, s\<lparr>vol := k3, current_fd_file := None\<rparr>))"

definition format_root :: MFS_root where
  "format_root = \<lparr>jmp = [0, 0, 0], checksum = CHECKSUM, total_sectors = sector_limit, bitmap_sector = 1,
     fentry_sector = 2, data_start_sector = 3, max_files = of_nat MAX_FILES, filecount = 0\<rparr>"

fun erase_from :: "nat \<Rightarrow> nat \<Rightarrow> u8 list \<Rightarrow> u8 list" where
  "erase_from i 0 d = d"
| "erase_from i (Suc n) d = erase_from (Suc i) n (disk_write d (of_nat i) zero_block)"

definition mfs_format :: "ustate \<Rightarrow> ustate option" where
  "mfs_format s = do {
     bm1 \<leftarrow> bitmap_set zero_block 0;
     bm2 \<leftarrow> bitmap_set bm1 1;
     bm3 \<leftarrow> bitmap_set bm2 2;
     let k = (vol s)\<lparr>root := format_root, root_rest := replicate (BLOCK_SIZE - 16) 0, block_bitmap := bm3,
               files := replicate FENTRY_COUNT zero_file, files_rest := replicate (BLOCK_SIZE - FENTRY_COUNT * FENTRY_SIZE) 0\<rparr>;
     let d = disk_write (disk_write (disk_write (kdisk k) 0 (root_buf k)) 1 (block_bitmap k)) 2 (files_buf k);
     Some (s\<lparr>vol := k\<lparr>tempbuf := zero_block, kdisk := erase_from FS_BLOCK_SECTOR (FS_MAX_SECTORS - FS_BLOCK_SECTOR) d\<rparr>\<rparr>)
   }"

section \<open>Lookup\<close>

text \<open>All entries are searched, not the first \<open>filecount\<close> as in the kernel.\<close>

definition find_file_u :: "u8 list \<Rightarrow> kstate \<Rightarrow> nat option option" where
  "find_file_u fname k = find_loop fname (files k) 0 MAX_FILES"

definition get_file_block_u :: "u8 list \<Rightarrow> kstate \<Rightarrow> u16 option" where
  "get_file_block_u fname k = block_loop fname (files k) 0 MAX_FILES"

definition get_file_index_u :: "u8 list \<Rightarrow> kstate \<Rightarrow> u8 option" where
  "get_file_index_u fname k = index_loop fname (files k) 0 MAX_FILES"

definition get_file_size_u :: "u8 list \<Rightarrow> kstate \<Rightarrow> u16 option" where
  "get_file_size_u fname k = do {
     t \<leftarrow> find_file_u fname k;
     Some (case t of None \<Rightarrow> 1 | Some i \<Rightarrow> f_size (files k ! i))
   }"

text \<open>The name of an entry as a C string.\<close>

definition entry_name :: "file_t \<Rightarrow> u8 list" where
  "entry_name f = takeWhile (\<lambda>c. c \<noteq> 0) (f_name f)"

section \<open>Between the disk and the program buffer\<close>

function memory_loop :: "u8 list \<Rightarrow> u16 \<Rightarrow> u16 \<Rightarrow> u16 \<Rightarrow> u8 list \<Rightarrow> u8 list \<Rightarrow> (u8 list \<times> u8 list) option" where
  "memory_loop d remaining b offset tb buf =
     (if remaining \<noteq> 0 \<and> b \<noteq> 0 \<and> b < sector_limit then
        let bytes_in_block = (if sint data_size < sint remaining then data_size else remaining);
            tb1 = disk_read d b tb
        in if BLOCK_DATA < unat bytes_in_block \<or> PROGRAM_BUF < unat offset + unat bytes_in_block then None
           else memory_loop d (remaining - bytes_in_block) (get16 tb1 1) (offset + bytes_in_block) tb1
                  (patch (unat offset) (take (unat bytes_in_block) (drop 4 tb1)) buf)
      else Some (tb, buf))"
  by pat_completeness auto
termination
  by (relation "measure (\<lambda>(d, remaining, b, offset, tb, buf). unat remaining)") (auto simp: load_progress)

declare memory_loop.simps [simp del]

definition load_to_memory :: "u8 list \<Rightarrow> ustate \<Rightarrow> (u16 \<times> ustate) option" where
  "load_to_memory fname s = do {
     i \<leftarrow> get_file_index_u fname (vol s);
     if i = 0xFF then Some (1, s)
     else do {
       let f = files (vol s) ! unat i;
       (tb, buf) \<leftarrow> memory_loop (kdisk (vol s)) (f_size f) (f_block f) 0 (tempbuf (vol s)) (program_buf s);
       Some (0, s\<lparr>vol := (vol s)\<lparr>tempbuf := tb\<rparr>, program_buf := buf\<rparr>)
     }
   }"

function erase_loop :: "u16 \<Rightarrow> u8 list \<Rightarrow> u8 list \<Rightarrow> u8 list \<times> u8 list" where
  "erase_loop b d tb =
     (if b \<noteq> 0 \<and> b < sector_limit then
        let tb1 = disk_read d b tb in erase_loop (get16 tb1 1) (disk_write d b zero_block) tb1
      else (d, tb))"
  by pat_completeness auto
termination
  by (relation "measure (\<lambda>(b, d, tb). chain_measure b d)") (auto simp: erase_progress [simplified])

declare erase_loop.simps [simp del]

text \<open>The bitmap, the name and the used flag of the entry stay.\<close>

definition mfs_delete_u :: "u8 list \<Rightarrow> kstate \<Rightarrow> (u16 \<times> kstate) option" where
  "mfs_delete_u fname k = do {
     t \<leftarrow> find_file_u fname k;
     case t of None \<Rightarrow> Some (1, k)
     | Some i \<Rightarrow>
         let (d, tb) = erase_loop (f_block (files k ! i)) (kdisk k) (tempbuf k);
             f = (files k ! i)\<lparr>f_flags := 0, f_size := 0, f_block := 0, f_block_size := 0\<rparr>
         in Some (0, write_changes (k\<lparr>kdisk := d, tempbuf := tb, files := (files k)[i := f],
              root := (root k)\<lparr>filecount := filecount (root k) - 1\<rparr>\<rparr>))
   }"

function count_blocks :: "u16 \<Rightarrow> u8 \<Rightarrow> u8" where
  "count_blocks r n = (if 0 < sint r then count_blocks (r - data_size) (n + 1) else n)"
  by pat_completeness auto
termination
proof (relation "measure (\<lambda>(r, n). nat (sint r))", goal_cases)
  case (2 r n)
  have "sint data_size = 508" by (simp add: data_size_def mfs_consts)
  then have "sint (r - data_size) = sint r - 508" using 2 sint_u16_range [of r] by (simp add: sint_diff)
  then show ?case using 2 by simp
qed simp

declare count_blocks.simps [simp del]

text \<open>
  The sectors for the blocks of a file; the inner \<open>None\<close> is "out of space". \<open>lb\<close> is the local
  buffer, whose bytes are first those of the stack.
\<close>

fun alloc_blocks :: "nat \<Rightarrow> u16 list \<Rightarrow> u8 list \<Rightarrow> kstate \<Rightarrow> (u16 list option \<times> kstate) option" where
  "alloc_blocks 0 bs lb k = Some (Some bs, k)"
| "alloc_blocks (Suc n) bs lb k =
     (if MAX_BLOCKS \<le> length bs then None
      else
        let lb1 = (if bs = [] then lb else (disk_read (kdisk k) (last bs) lb)[0 := 1]);
            k1 = (if bs = [] then k else k\<lparr>kdisk := disk_write (kdisk k) (last bs) lb1\<rparr>)
        in do {
          (b, k2) \<leftarrow> alloc_block k1;
          if b = 0 then Some (None, k2) else alloc_blocks n (bs @ [b]) lb1 k2
        })"

definition block_image :: "u16 \<Rightarrow> u8 list \<Rightarrow> u8 list" where
  "block_image nxt bytes = patch 4 bytes (put16 (zero_block[0 := 1]) 1 nxt)"

fun write_blocks :: "u16 list \<Rightarrow> u16 \<Rightarrow> u16 \<Rightarrow> u8 list \<Rightarrow> u8 list \<Rightarrow> u8 list option" where
  "write_blocks [] remaining offset buf d = Some d"
| "write_blocks (b # bs) remaining offset buf d =
     (let bytes_in_block = (if sint data_size < sint remaining then data_size else remaining)
      in if BLOCK_DATA < unat bytes_in_block \<or> PROGRAM_BUF < unat offset + unat bytes_in_block then None
         else write_blocks bs (remaining - bytes_in_block) (offset + bytes_in_block) buf
                (disk_write d b (block_image (case bs of [] \<Rightarrow> 0 | c # cs \<Rightarrow> c)
                  (take (unat bytes_in_block) (drop (unat offset) buf)))))"

definition save_to_disk :: "u8 list \<Rightarrow> u8 list \<Rightarrow> ustate \<Rightarrow> (u16 \<times> ustate) option" where
  "save_to_disk stack fname s = do {
     i \<leftarrow> get_file_index_u fname (vol s);
     if i = 0xFF then Some (1, s)
     else do {
       let temp = files (vol s) ! unat i;
       (c, k1) \<leftarrow> mfs_delete_u fname (vol s);
       let k2 = k1\<lparr>root := (root k1)\<lparr>filecount := filecount (root k1) + 1\<rparr>\<rparr>;
       (sectors, k3) \<leftarrow> alloc_blocks (unat (count_blocks (f_size temp) 0)) [] stack k2;
       case sectors of None \<Rightarrow> Some (1, s\<lparr>vol := k3\<rparr>)
       | Some [] \<Rightarrow> None
       | Some (b # bs) \<Rightarrow> do {
           d \<leftarrow> write_blocks (b # bs) (f_size temp) 0 (program_buf s) (kdisk k3);
           Some (0, s\<lparr>vol := k3\<lparr>kdisk := d,
             files := (files k3)[unat i := temp\<lparr>f_block := b, f_block_size := of_nat (length (b # bs))\<rparr>]\<rparr>\<rparr>)
         }
     }
   }"

section \<open>Operations\<close>

text \<open>The creating branch of \<^verbatim>\<open>mfs_open\<close>: an error code or the index of the new entry.\<close>

definition create_file_u :: "u8 list \<Rightarrow> u16 \<Rightarrow> kstate \<Rightarrow> ((u16 + nat) \<times> kstate) option" where
  "create_file_u fname flags k = do {
     (block, k1) \<leftarrow> alloc_block k;
     if block = 0 \<or> MAX_FILES \<le> unat (filecount (root k1)) then Some (Inl 2, k1)
     else do {
       slot \<leftarrow> free_slot (files k1) 0 MAX_FILES;
       case slot of None \<Rightarrow> Some (Inl 3, k1)
       | Some index \<Rightarrow>
           let f = (files k1 ! index)
                 \<lparr>f_name := strncpy (f_name (files k1 ! index)) fname (MAX_FNAME_LEN - 1),
                  f_used := 1, f_flags := ucast (flags AND NOT O_CREAT), f_size := 0,
                  f_block_size := 0, f_block := block\<rparr>;
               k2 = k1\<lparr>files := (files k1)[index := f], tempbuf := fresh_block,
                       kdisk := disk_write (kdisk k1) block fresh_block,
                       root := (root k1)\<lparr>filecount := filecount (root k1) + 1\<rparr>\<rparr>
           in Some (Inr index, write_changes k2)
     }
   }"

definition mfs_open_u :: "u8 list \<Rightarrow> u16 \<Rightarrow> ustate \<Rightarrow> (u16 \<times> ustate) option" where
  "mfs_open_u fname flags s = do {
     found \<leftarrow> find_file_u fname (vol s);
     (r, k1) \<leftarrow> (case found of Some i \<Rightarrow> Some (Inr i, vol s)
       | None \<Rightarrow> if flags AND O_CREAT \<noteq> 0 then create_file_u fname flags (vol s) else Some (Inl (-1), vol s));
     case r of Inl code \<Rightarrow> Some (code, s\<lparr>vol := k1, current_file := None\<rparr>)
     | Inr i \<Rightarrow> load_to_memory (entry_name (files k1 ! i)) (s\<lparr>vol := k1, current_file := Some i, current_fd_file := Some i\<rparr>)
   }"

definition mfs_close_u :: "u8 list \<Rightarrow> ustate \<Rightarrow> (u16 \<times> ustate) option" where
  "mfs_close_u stack s =
     (if current_fd_file s = None then Some (1, s)
      else do {
        i \<leftarrow> current_file s;
        (code, s1) \<leftarrow> save_to_disk stack (entry_name (files (vol s) ! i)) (s\<lparr>current_fd_file := None\<rparr>);
        Some (code, s1\<lparr>current_file := None\<rparr>)
      })"

text \<open>\<^verbatim>\<open>mfs_read\<close>: the code and the bytes stored in the caller's buffer.\<close>

definition mfs_read_u :: "u16 \<Rightarrow> ustate \<Rightarrow> (u16 \<times> u8 list) option" where
  "mfs_read_u count s =
     (if current_file s = None then Some (1, [])
      else if PROGRAM_BUF < unat count then None
      else Some (0, take (unat count) (program_buf s)))"

definition mfs_write_u :: "u8 list \<Rightarrow> u16 \<Rightarrow> ustate \<Rightarrow> (u16 \<times> ustate) option" where
  "mfs_write_u buf count s =
     (case current_file s of None \<Rightarrow> Some (1, s)
      | Some i \<Rightarrow>
        if PROGRAM_BUF < unat count \<or> length buf < unat count then None
        else Some (0, s\<lparr>vol := (vol s)\<lparr>files := (files (vol s))[i := (files (vol s) ! i)\<lparr>f_size := count\<rparr>]\<rparr>,
               program_buf := patch 0 (take (unat count) buf) (program_buf s)\<rparr>))"

definition mfs_sync_u :: "ustate \<Rightarrow> ustate" where
  "mfs_sync_u s = s\<lparr>vol := write_changes (vol s)\<rparr>"

section \<open>The program\<close>

text \<open>
  The host is a map from names to the contents of files that can be opened. The options are read in
  order, also the values of options; the last ones count. \<open>Inl\<close> is the exit code of an image that
  cannot be opened; a missing value is a null pointer, and a name of 256 characters overruns its
  buffer.
\<close>

fun parse_args :: "(u8 list \<Rightarrow> u8 list option) \<Rightarrow> u8 list list \<Rightarrow> u8 list \<Rightarrow> (u8 list \<times> u8 list) option
    \<Rightarrow> (int + (u8 list \<times> (u8 list \<times> u8 list) option)) option" where
  "parse_args host [] filename disk = Some (Inr (filename, disk))"
| "parse_args host (a # args) filename disk =
     (if a = map of_char ''-f'' then
        case args of [] \<Rightarrow> None
        | v # _ \<Rightarrow> if 256 \<le> length v then None else parse_args host args v disk
      else if a = map of_char ''-fd'' then
        case args of [] \<Rightarrow> None
        | v # _ \<Rightarrow> case host v of None \<Rightarrow> Some (Inl 1) | Some img \<Rightarrow> parse_args host args filename (Some (v, img))
      else parse_args host args filename disk)"

text \<open>The name in the image: what follows the last slash, cut to 11 characters.\<close>

definition base_name :: "u8 list \<Rightarrow> u8 list" where
  "base_name filename = take 11 (rev (takeWhile (\<lambda>c. c \<noteq> of_char CHR ''/'') (rev filename)))"

text \<open>Operation \<^verbatim>\<open>-w\<close> after the host file is read.\<close>

definition util_write :: "u8 list \<Rightarrow> u8 list \<Rightarrow> u8 list \<Rightarrow> ustate \<Rightarrow> (int \<times> ustate) option" where
  "util_write stack fname buf s = do {
     (code, s1) \<leftarrow> mfs_open_u fname O_CREAT s;
     if code \<noteq> 0 then Some (1, s1)
     else do {
       (_, s2) \<leftarrow> mfs_write_u buf (of_nat (length buf)) s1;
       (_, s3) \<leftarrow> mfs_close_u stack s2;
       Some (0, mfs_sync_u s3)
     }
   }"

text \<open>Operation \<^verbatim>\<open>-r\<close>: the exit code and the bytes for the host file.\<close>

definition util_read :: "u8 list \<Rightarrow> ustate \<Rightarrow> (int \<times> u8 list option \<times> ustate) option" where
  "util_read fname s = do {
     t \<leftarrow> find_file_u fname (vol s);
     case t of None \<Rightarrow> Some (1, None, s)
     | Some i \<Rightarrow> do {
         (code, s1) \<leftarrow> mfs_open_u fname O_RDONLY s;
         if code \<noteq> 0 then Some (1, None, s1)
         else do {
           (code2, bytes) \<leftarrow> mfs_read_u (f_size (files (vol s1) ! i)) s1;
           if code2 \<noteq> 0 then Some (1, None, s1) else Some (0, Some bytes, s1)
         }
       }
   }"

definition zero_ustate :: ustate where
  "zero_ustate =
     \<lparr>vol = \<lparr>kdisk = [], root = decode_root zero_block, root_rest = replicate (BLOCK_SIZE - 16) 0, block_bitmap = zero_block,
        files = replicate FENTRY_COUNT zero_file, files_rest = replicate (BLOCK_SIZE - FENTRY_COUNT * FENTRY_SIZE) 0,
        tempbuf = zero_block, fd_table = \<lambda>_. zero_entry, fd_count = 0\<rparr>,
      program_buf = replicate PROGRAM_BUF 0, current_fd_file = None, current_file = None\<rparr>"

text \<open>\<^verbatim>\<open>main\<close>: the exit code and the host files written, the image first. \<open>argv\<close> is without the program name.\<close>

definition util_main :: "u8 list \<Rightarrow> u8 list list \<Rightarrow> (u8 list \<Rightarrow> u8 list option) \<Rightarrow> (int \<times> (u8 list \<times> u8 list) list) option" where
  "util_main stack argv host =
     (case argv of [] \<Rightarrow> Some (1, [])
      | op # args \<Rightarrow>
        if op = map of_char ''-h'' then Some (0, [])
        else do {
          parsed \<leftarrow> parse_args host args [] None;
          case parsed of Inl code \<Rightarrow> Some (code, [])
          | Inr (filename, None) \<Rightarrow> Some (1, [])
          | Inr (filename, Some (imgname, img)) \<Rightarrow>
            let fname = base_name filename; (code, s) = mfs_init_u img zero_ustate in
            if code \<noteq> 0 then do { s1 \<leftarrow> mfs_format s; Some (1, [(imgname, kdisk (vol s1))]) }
            else if op = map of_char ''-d'' then do {
              (_, k) \<leftarrow> mfs_delete_u fname (vol s);
              Some (0, [(imgname, kdisk k)])
            }
            else if op = map of_char ''-w'' then
              case host filename of None \<Rightarrow> Some (1, [(imgname, img)])
              | Some buf \<Rightarrow> do { (code, s1) \<leftarrow> util_write stack fname buf s; Some (code, [(imgname, kdisk (vol s1))]) }
            else if op = map of_char ''-r'' then do {
              (code, bytes, s1) \<leftarrow> util_read fname s;
              Some (code, (imgname, kdisk (vol s1)) # (case bytes of None \<Rightarrow> [] | Some b \<Rightarrow> [(fname, b)]))
            }
            else if op = map of_char ''-f'' then do { s1 \<leftarrow> mfs_format s; Some (0, [(imgname, kdisk (vol s1))]) }
            else Some (0, [(imgname, img)])
        })"

end
