(* ===== verification/Mfs_Util_Spec.thy ===== *)
theory Mfs_Util_Spec
  imports Mfs_Util Mfs_Spec
begin

text \<open>
  The host tool and the kernel together: a formatted image mounts as an empty file system, and a file
  written with the tool is loaded by the kernel with the same bytes. Deleting with the tool does not
  free the blocks.
\<close>

section \<open>Formatting\<close>

lemma erase_from_other:
  assumes "has_sector d x" and "unat x < i" and "i + n \<le> 0x10000"
  shows "has_sector (erase_from i n d) x \<and> sector (erase_from i n d) x = sector d x"
  using assms
proof (induction i n d rule: erase_from.induct)
  case (2 i n d)
  have ne: "of_nat i \<noteq> x" using 2(3,4) by (auto simp: unat_of_nat)
  have "has_sector (disk_write d (of_nat i) zero_block) x" by (rule image.wr_ok [OF 2(2)]) (simp add: length_zero_block)
  moreover have "sector (disk_write d (of_nat i) zero_block) x = sector d x"
    by (rule image.rd_wr_other [OF 2(2) ne]) (simp add: length_zero_block)
  ultimately show ?case using 2 by simp
qed simp

lemma length_erase_from: "i + n \<le> 0x10000 \<Longrightarrow> length d \<le> length (erase_from i n d) \<and>
    (0 < n \<longrightarrow> (i + n) * BLOCK_SIZE \<le> length (erase_from i n d))"
proof (induction i n d rule: erase_from.induct)
  case (2 i n d)
  have "length (disk_write d (of_nat i) zero_block) = max (length d) ((i + 1) * BLOCK_SIZE)"
    using 2(2) by (simp add: disk_write_def length_patch length_zero_block unat_of_nat)
  then show ?case using 2 by (cases n) (auto simp: max_def split: if_splits)
qed simp

lemma format_bitmap:
  obtains bm1 bm2 bm3 where "bitmap_set zero_block 0 = Some bm1" "bitmap_set bm1 1 = Some bm2" "bitmap_set bm2 2 = Some bm3"
    and "length bm3 = BLOCK_SIZE" and "\<And>b. unat b < 8 * BLOCK_SIZE \<Longrightarrow> bitmap_get bm3 b = Some (b < 3)"
proof -
  have cov: "bm_covers bm b" if "length bm = BLOCK_SIZE" "unat b < 8 * BLOCK_SIZE" for bm b
    using that by (auto simp: bm_covers_def)
  have "bm_covers zero_block 0" by (rule cov) (simp_all add: length_zero_block mfs_consts)
  then obtain bm1 where b1: "bitmap_set zero_block 0 = Some bm1" using bitmap.mark_total by blast
  then have l1: "length bm1 = BLOCK_SIZE" using length_bitmap_set length_zero_block by metis
  then have "bm_covers bm1 1" by (intro cov) (simp_all add: mfs_consts)
  then obtain bm2 where b2: "bitmap_set bm1 1 = Some bm2" using bitmap.mark_total by blast
  then have l2: "length bm2 = BLOCK_SIZE" using length_bitmap_set l1 by metis
  then have "bm_covers bm2 2" by (intro cov) (simp_all add: mfs_consts)
  then obtain bm3 where b3: "bitmap_set bm2 2 = Some bm3" using bitmap.mark_total by blast
  then have l3: "length bm3 = BLOCK_SIZE" using length_bitmap_set l2 by metis
  have "bitmap_get bm3 b = Some (b < 3)" if b: "unat b < 8 * BLOCK_SIZE" for b
  proof -
    have "bitmap_get bm3 b = (if b = 2 then Some True else if b = 1 then Some True else if b = 0 then Some True else bitmap_get zero_block b)"
      using bitmap.get_mark [OF b3 cov [OF l2 b]] bitmap.get_mark [OF b2 cov [OF l1 b]]
        bitmap.get_mark [OF b1 cov [OF length_zero_block b]] by simp
    moreover have "bitmap_get zero_block b = Some False"
      using b by (simp add: bitmap_get_bit bm_covers_def zero_block_def mfs_consts)
    moreover have "b < 3 \<longleftrightarrow> b = 0 \<or> b = 1 \<or> b = 2"
      by (auto simp: word_less_nat_alt word_unat_eq_iff)
    ultimately show ?thesis by auto
  qed
  with b1 b2 b3 l3 show thesis by (rule that)
qed

lemma format_ok:
  assumes "length (tempbuf (vol s)) = BLOCK_SIZE"
  obtains s' where "mfs_format s = Some s'" and "kfs_ok (vol s')" and "root (vol s') = format_root"
    and "files (vol s') = replicate FENTRY_COUNT zero_file" and "program_buf s' = program_buf s"
    and "\<And>b. b < sector_limit \<Longrightarrow> bitmap_get (block_bitmap (vol s')) b = Some (b < 3)"
    and "holds_metadata (kdisk (vol s')) (vol s')"
proof -
  obtain bm1 bm2 bm3 where bm: "bitmap_set zero_block 0 = Some bm1" "bitmap_set bm1 1 = Some bm2" "bitmap_set bm2 2 = Some bm3"
    "length bm3 = BLOCK_SIZE" "\<And>b. unat b < 8 * BLOCK_SIZE \<Longrightarrow> bitmap_get bm3 b = Some (b < 3)"
    using format_bitmap by blast
  define k where "k = (vol s)\<lparr>root := format_root, root_rest := replicate (BLOCK_SIZE - 16) 0, block_bitmap := bm3,
     files := replicate FENTRY_COUNT zero_file, files_rest := replicate (BLOCK_SIZE - FENTRY_COUNT * FENTRY_SIZE) 0\<rparr>"
  define d where "d = disk_write (disk_write (disk_write (kdisk k) 0 (root_buf k)) 1 (block_bitmap k)) 2 (files_buf k)"
  define d' where "d' = erase_from FS_BLOCK_SECTOR (FS_MAX_SECTORS - FS_BLOCK_SECTOR) d"
  let ?s = "s\<lparr>vol := k\<lparr>tempbuf := zero_block, kdisk := d'\<rparr>\<rparr>"
  have f: "mfs_format s = Some ?s"
    by (simp add: mfs_format_def bm(1-3) k_def d_def d'_def Let_def)
  have len: "length (root_buf k) = BLOCK_SIZE" "length (block_bitmap k) = BLOCK_SIZE" "length (files_buf k) = BLOCK_SIZE"
    by (simp_all add: k_def root_buf_def files_buf_def format_root_def length_encode_root length_encode_files zero_file_def bm(4) mfs_consts)
  have big: "FS_MAX_SECTORS * BLOCK_SIZE \<le> length d'"
    using length_erase_from [of FS_BLOCK_SECTOR "FS_MAX_SECTORS - FS_BLOCK_SECTOR" d]
    by (simp add: d'_def FS_BLOCK_SECTOR_def FS_MAX_SECTORS_def)
  have ok: "kfs_ok (vol ?s)"
    using big bm(4) by (simp add: kfs_ok_def k_def format_root_def zero_file_def length_zero_block MAX_FILES_def FS_MAX_SECTORS_def mfs_consts)
  have h: "has_sector d 0 \<and> sector d 0 = root_buf k" "has_sector d 1 \<and> sector d 1 = block_bitmap k" "has_sector d 2 \<and> sector d 2 = files_buf k"
    unfolding d_def by (simp_all add: image.rd_wr image.rd_wr_same image.wr_ok image.wr_ok_same len)
  have "has_sector d' x \<and> sector d' x = sector d x" if "has_sector d x" "unat x < 3" for x
    unfolding d'_def using that by (intro erase_from_other) (simp_all add: FS_BLOCK_SECTOR_def FS_MAX_SECTORS_def)
  from this [of 0] this [of 1] this [of 2] have "holds_metadata d' k"
    using h by (simp add: holds_metadata_def k_def format_root_def)
  then have m: "holds_metadata (kdisk (vol ?s)) (vol ?s)" by (simp add: holds_metadata_def root_buf_def files_buf_def)
  have g: "bitmap_get (block_bitmap (vol ?s)) b = Some (b < 3)" if "b < sector_limit" for b
    using that bm(5) [of b] by (simp add: k_def word_less_nat_alt FS_MAX_SECTORS_def mfs_consts)
  show thesis
    by (rule that [OF f ok _ _ _ g m]) (simp_all add: k_def)
qed

text \<open>
  C26: Formatting with the tool and mounting in the kernel. Whatever the image held, the kernel mounts it
  after \<^verbatim>\<open>mfs_format\<close>: the invariant of the file system holds, there are no files, every name is
  unknown, and the 2874 data blocks are free.
\<close>

theorem format_mounts:
  assumes "length (tempbuf (vol s)) = BLOCK_SIZE" and "buffers_ok t"
  shows "\<exists>s' t'. mfs_format s = Some s' \<and> mfs_init (Some (kdisk (vol s'))) t = (0, t') \<and> kfs_ok t' \<and>
    filecount (root t') = 0 \<and> find_file fname t' = Some None \<and>
    data_start_sector (root t') = 3 \<and> total_sectors (root t') = 2877 \<and>
    (\<forall>b. 3 \<le> b \<and> b < 2877 \<longrightarrow> bitmap_get (block_bitmap t') b = Some False)"
proof -
  obtain s' where s': "mfs_format s = Some s'" "kfs_ok (vol s')" "root (vol s') = format_root"
    "\<And>b. b < sector_limit \<Longrightarrow> bitmap_get (block_bitmap (vol s')) b = Some (b < 3)"
    "holds_metadata (kdisk (vol s')) (vol s')"
    using format_ok [OF assms(1)] by blast
  have "checksum (root (vol s')) = CHECKSUM" by (simp add: s' format_root_def)
  from mount_metadata [OF s'(2,5) this assms(2)] obtain t' where
    t': "mfs_init (Some (kdisk (vol s'))) t = (0, t')" "root t' = format_root" "block_bitmap t' = block_bitmap (vol s')"
      "files t' = files (vol s')" "kdisk t' = kdisk (vol s')" "tempbuf t' = tempbuf t" "root_rest t' = root_rest (vol s')"
      "files_rest t' = files_rest (vol s')"
    using s'(3) by auto
  have "kfs_ok t'" using s'(2) t' assms(2) by (simp add: kfs_ok_def s'(3) buffers_ok_def)
  moreover have "find_file fname t' = Some None" by (simp add: find_file_def t' format_root_def)
  moreover have "bitmap_get (block_bitmap t') b = Some False" if "3 \<le> b" "b < 2877" for b
    using that s'(4) [of b] by (simp add: t' FS_MAX_SECTORS_def)
  ultimately show ?thesis using s'(1) t' by (auto simp: format_root_def FS_MAX_SECTORS_def)
qed

theorem format_mounts_witness:
  "\<exists>s' t'. mfs_format zero_ustate = Some s' \<and> mfs_init (Some (kdisk (vol s'))) boot_kstate = (0, t') \<and>
     find_file [0x41] t' = Some None"
  using format_mounts [of zero_ustate boot_kstate "[0x41]"] boot_kstate_buffers
  by (auto simp: zero_ustate_def length_zero_block)

section \<open>Allocating and writing the blocks of a file\<close>

definition free_blocks :: "kstate \<Rightarrow> u16 set" where
  "free_blocks k = {b. data_start_sector (root k) \<le> b \<and> b < total_sectors (root k) \<and> \<not> marked k b}"

lemma disk_full_free: "disk_full k \<longleftrightarrow> free_blocks k = {}"
  by (auto simp: disk_full_def free_blocks_def)

lemma marked_after:
  assumes "\<And>c. c < total_sectors (root k) \<Longrightarrow> bitmap_get bm c = (if c = b then Some True else bitmap_get (block_bitmap k) c)"
    and "b < total_sectors (root k)" and "total_sectors (root k') = total_sectors (root k)" and "block_bitmap k' = bm"
  shows "marked k' x \<longleftrightarrow> x = b \<or> marked k x"
  using assms by (auto simp: marked_def)

lemma alloc_blocks_ok:
  assumes "kfs_ok k" and "0 < data_start_sector (root k)" and "n \<le> card (free_blocks k)" and "length acc + n \<le> MAX_BLOCKS"
    and "length lb = BLOCK_SIZE" and "\<forall>x\<in>set acc. x < total_sectors (root k)"
  shows "\<exists>bs k'. alloc_blocks n acc lb k = Some (Some (acc @ bs), k') \<and> length bs = n \<and> distinct bs \<and>
    set bs \<subseteq> free_blocks k \<and> kfs_ok k' \<and> root k' = root k \<and> files k' = files k \<and>
    (\<forall>x. marked k' x \<longleftrightarrow> x \<in> set bs \<or> marked k x) \<and>
    (\<forall>x. x < total_sectors (root k) \<and> x \<notin> set acc \<and> x \<notin> set bs \<longrightarrow> sector (kdisk k') x = sector (kdisk k) x)"
  using assms
proof (induction n arbitrary: acc lb k)
  case (Suc n)
  define lb1 where "lb1 = (if acc = [] then lb else (disk_read (kdisk k) (last acc) lb)[0 := 1])"
  define k1 where "k1 = (if acc = [] then k else k\<lparr>kdisk := disk_write (kdisk k) (last acc) lb1\<rparr>)"
  have lb1: "length lb1 = BLOCK_SIZE" using Suc.prems(5) by (simp add: lb1_def length_disk_read)
  have k1: "kfs_ok k1" "root k1 = root k" "files k1 = files k" "\<And>x. marked k1 x = marked k x"
    using kfs_ok_disk_write2 [OF Suc.prems(1) lb1, of "last acc"] Suc.prems(1) by (simp_all add: k1_def marked_def)
  have sec1: "sector (kdisk k1) x = sector (kdisk k) x" if "x < total_sectors (root k)" "x \<notin> set acc" for x
    using that last_in_set [of acc] kfs_has_sector [OF Suc.prems(1) that(1)]
    by (cases "acc = []") (auto simp: k1_def image.rd_wr lb1)
  have free1: "free_blocks k1 = free_blocks k" by (simp add: free_blocks_def k1)
  have ds: "0 < data_start_sector (root k1)" using Suc.prems(2) by (simp add: k1)
  show ?case
  proof (cases rule: alloc_block_cases [OF k1(1) ds])
    case 1
    then show ?thesis using Suc.prems(3) free1 by (simp add: disk_full_free)
  next
    case (2 b bm)
    let ?k2 = "k1\<lparr>block_bitmap := bm\<rparr>"
    have mk: "marked ?k2 x \<longleftrightarrow> x = b \<or> marked k x" for x
      using marked_after [OF 2(6,3), of ?k2 x] k1(4) by simp
    have fr: "free_blocks ?k2 = free_blocks k - {b}" using mk by (auto simp: free_blocks_def k1)
    have b: "b \<in> free_blocks k" "b < total_sectors (root k)" using 2 k1 by (auto simp: free_blocks_def)
    then have card: "n \<le> card (free_blocks ?k2)" using Suc.prems(3) by (simp add: fr card_Diff_singleton)
    have acc: "\<forall>x\<in>set (acc @ [b]). x < total_sectors (root ?k2)" using Suc.prems(6) b(2) by (simp add: k1)
    have len: "length (acc @ [b]) + n \<le> MAX_BLOCKS" using Suc.prems(4) by simp
    have ds2: "0 < data_start_sector (root ?k2)" using ds by simp
    from Suc.IH [OF 2(5) ds2 card len lb1 acc] obtain bs k' where
      k': "alloc_blocks n (acc @ [b]) lb1 ?k2 = Some (Some ((acc @ [b]) @ bs), k')" "length bs = n" "distinct bs"
        "set bs \<subseteq> free_blocks ?k2" "kfs_ok k'" "root k' = root ?k2" "files k' = files ?k2"
        "\<forall>x. marked k' x \<longleftrightarrow> x \<in> set bs \<or> marked ?k2 x"
        "\<forall>x. x < total_sectors (root ?k2) \<and> x \<notin> set (acc @ [b]) \<and> x \<notin> set bs \<longrightarrow> sector (kdisk k') x = sector (kdisk ?k2) x"
      by blast
    have "alloc_blocks (Suc n) acc lb k = Some (Some (acc @ b # bs), k')"
      using 2(1,2) k'(1) Suc.prems(4) by (simp add: Let_def lb1_def [symmetric] k1_def [symmetric])
    moreover have "b \<notin> set bs" "set (b # bs) \<subseteq> free_blocks k" using k'(4) b(1) by (auto simp: fr)
    moreover have "\<forall>x. x < total_sectors (root k) \<and> x \<notin> set acc \<and> x \<notin> set (b # bs) \<longrightarrow> sector (kdisk k') x = sector (kdisk k) x"
      using k'(9) sec1 by (simp add: k1)
    ultimately show ?thesis
      using k'(2,3,5-8) mk k1 by (intro exI [of _ "b # bs"] exI [of _ k']) auto
  qed
qed simp

lemma block_image_props:
  assumes "length bytes \<le> BLOCK_DATA"
  shows "length (block_image nxt bytes) = BLOCK_SIZE" "next_block (block_image nxt bytes) = nxt"
    "block_data (block_image nxt bytes) = bytes @ replicate (BLOCK_DATA - length bytes) 0"
proof -
  let ?z = "put16 (zero_block[0 := 1]) 1 nxt"
  have z: "length ?z = BLOCK_SIZE" by (simp add: length_zero_block)
  have p: "block_image nxt bytes = take 4 ?z @ bytes @ drop (4 + length bytes) ?z"
    using assms z by (simp add: block_image_def patch_def mfs_consts)
  show "length (block_image nxt bytes) = BLOCK_SIZE" using assms z by (simp add: p mfs_consts)
  show "next_block (block_image nxt bytes) = nxt"
    by (simp add: p next_block_def get16_def nth_append put16_def zero_block_def mfs_consts)
  have "drop (4 + length bytes) ?z = drop (4 + length bytes) zero_block" by (simp add: put16_def)
  then show "block_data (block_image nxt bytes) = bytes @ replicate (BLOCK_DATA - length bytes) 0"
    using z by (simp add: p block_data_def zero_block_def mfs_consts)
qed

lemma take_append_zeros: "n = length xs \<Longrightarrow> take n (xs @ ys) = xs"
  by simp

lemma write_blocks_ok:
  assumes "distinct bs" and "\<forall>x\<in>set bs. x \<noteq> 0 \<and> x < n \<and> has_sector d x" and "unat remaining \<le> BLOCK_DATA * length bs"
    and "unat offset + unat remaining \<le> PROGRAM_BUF" and "length buf = PROGRAM_BUF"
  shows "\<exists>d'. write_blocks bs remaining offset buf d = Some d' \<and> chain (sector d') n (case bs of [] \<Rightarrow> 0 | b # cs \<Rightarrow> b) bs \<and>
    take (unat remaining) (chain_bytes (sector d') bs) = take (unat remaining) (drop (unat offset) buf) \<and>
    length d \<le> length d' \<and> (\<forall>x. x \<notin> set bs \<and> has_sector d x \<longrightarrow> sector d' x = sector d x)"
  using assms
proof (induction bs arbitrary: remaining offset d)
  case (Cons b bs)
  define t where "t = (if sint data_size < sint remaining then data_size else remaining)"
  have "unat remaining < 0x8000" using Cons.prems(4) by (simp add: PROGRAM_BUF_def)
  then have sr: "sint remaining = int (unat remaining)" by (rule sint_small)
  have sd: "sint data_size = int BLOCK_DATA" by (simp add: data_size_def mfs_consts)
  have t: "unat t = min (unat remaining) BLOCK_DATA"
    unfolding t_def sr sd of_nat_less_iff by (simp add: data_size_unat min_def)
  define bytes where "bytes = take (unat t) (drop (unat offset) buf)"
  let ?nxt = "case bs of [] \<Rightarrow> 0 | c # cs \<Rightarrow> c"
  let ?d1 = "disk_write d b (block_image ?nxt bytes)"
  have lb: "length bytes = unat t" using Cons.prems(4,5) t by (simp add: bytes_def)
  then have "length bytes \<le> BLOCK_DATA" using t by simp
  note img = block_image_props [OF this, of ?nxt]
  have r: "unat (remaining - t) = unat remaining - unat t" using t by (simp add: unat_sub word_le_nat_alt)
  have o: "unat (offset + t) = unat offset + unat t"
    using Cons.prems(4) t by (simp add: unat_word_ariths PROGRAM_BUF_def)
  have "min (unat remaining) BLOCK_DATA \<le> unat remaining" by simp
  then have fit: "unat offset + unat t \<le> PROGRAM_BUF" using Cons.prems(4) t by linarith
  have step: "write_blocks (b # bs) remaining offset buf d = write_blocks bs (remaining - t) (offset + t) buf ?d1"
    using fit t bytes_def by (simp add: t_def [symmetric] Let_def)
  have has: "has_sector ?d1 x" if "has_sector d x" for x using image.wr_ok [OF that img(1)] .
  have "\<forall>x\<in>set bs. x \<noteq> 0 \<and> x < n \<and> has_sector ?d1 x" using Cons.prems(2) has by simp
  moreover have "unat (remaining - t) \<le> BLOCK_DATA * length bs" using Cons.prems(3) r t by auto
  moreover have "unat (offset + t) + unat (remaining - t) \<le> PROGRAM_BUF" using Cons.prems(4) r o t by simp
  moreover have "distinct bs" using Cons.prems(1) by simp
  ultimately obtain d' where d': "write_blocks bs (remaining - t) (offset + t) buf ?d1 = Some d'"
    "chain (sector d') n ?nxt bs" "take (unat (remaining - t)) (chain_bytes (sector d') bs) =
      take (unat (remaining - t)) (drop (unat (offset + t)) buf)" "length ?d1 \<le> length d'"
    "\<forall>x. x \<notin> set bs \<and> has_sector ?d1 x \<longrightarrow> sector d' x = sector ?d1 x"
    using Cons.IH [of ?d1 "remaining - t" "offset + t"] Cons.prems(5) by blast
  have sb: "sector d' b = block_image ?nxt bytes"
    using d'(5) Cons.prems(1) image.wr_ok_same [OF img(1)] image.rd_wr_same [OF img(1)] by simp
  have "take (unat remaining) (chain_bytes (sector d') (b # bs)) =
      bytes @ take (unat remaining - unat t) (chain_bytes (sector d') bs)"
  proof (cases "unat remaining \<le> BLOCK_DATA")
    case True
    then show ?thesis using t lb by (simp add: sb img(3))
  next
    case False
    then show ?thesis using t lb by (simp add: sb img(3))
  qed
  also have "\<dots> = take (unat remaining) (drop (unat offset) buf)"
    using d'(3) t bytes_def take_add [of "unat t" "unat remaining - unat t" "drop (unat offset) buf"]
    by (simp add: r o add.commute)
  finally have bytes: "take (unat remaining) (chain_bytes (sector d') (b # bs)) = take (unat remaining) (drop (unat offset) buf)" .
  have "length d \<le> length d'" using d'(4) length_disk_write [OF img(1), of d b] by simp
  moreover have "sector d' x = sector d x" if "x \<notin> set (b # bs)" "has_sector d x" for x
    using d'(5) that has image.rd_wr_other [OF that(2) _ img(1), of b] by auto
  moreover have "chain (sector d') n b (b # bs)" using Cons.prems(2) d'(2) by (simp add: sb img(2))
  ultimately show ?case using step d'(1) bytes by auto
qed simp

lemma count_blocks_eq:
  "unat r < 0x8000 \<Longrightarrow> count_blocks r n = n + of_nat ((unat r + (BLOCK_DATA - 1)) div BLOCK_DATA)"
proof (induction r n rule: count_blocks.induct)
  case (1 r n)
  have sr: "sint r = int (unat r)" using 1(2) by (rule sint_small)
  have sd: "sint data_size = 508" "unat data_size = 508" by (simp_all add: data_size_def mfs_consts)
  show ?case
  proof (cases "unat r \<le> 508")
    case True
    have "sint (r - data_size) = sint r - sint data_size" by (rule sint_diff) (use True sr sd(1) in linarith)+
    then have "\<not> 0 < sint (r - data_size)" using True sr sd(1) by linarith
    then have "count_blocks (r - data_size) m = m" for m by (subst count_blocks.simps) simp
    moreover have "(unat r + 507) div 508 = (if unat r = 0 then 0 else 1)" using True by (auto intro: div_nat_eqI)
    moreover have "0 < sint r \<longleftrightarrow> unat r \<noteq> 0" using sr by linarith
    ultimately show ?thesis by (subst count_blocks.simps) (simp add: mfs_consts)
  next
    case False
    then have u: "unat (r - data_size) = unat r - 508" by (simp add: unat_sub word_le_nat_alt sd)
    have "(unat r + 507) div 508 = Suc ((unat r - 508 + 507) div 508)" using False by (simp add: le_div_geq)
    moreover have "0 < sint r" using False sr by linarith
    ultimately show ?thesis
      using 1 u by (subst count_blocks.simps) (simp add: mfs_consts del: of_nat_div)
  qed
qed

section \<open>Writing a file with the tool\<close>

text \<open>The metadata lies in front of the data blocks.\<close>

definition meta_below :: "MFS_root \<Rightarrow> bool" where
  "meta_below r \<longleftrightarrow> meta_apart r \<and> bitmap_sector r < data_start_sector r \<and> fentry_sector r < data_start_sector r"

text \<open>
  The later state of a volume: the root but for the count, the entries but for the one at \<open>j\<close>, and the
  data blocks that were in use are as before.
\<close>

definition vol_keeps :: "nat \<Rightarrow> kstate \<Rightarrow> kstate \<Rightarrow> bool" where
  "vol_keeps j k k' \<longleftrightarrow> kfs_ok k' \<and> (\<exists>c. root k' = (root k)\<lparr>filecount := c\<rparr>) \<and>
     (\<forall>i. i \<noteq> j \<longrightarrow> files k' ! i = files k ! i) \<and>
     (\<forall>x. marked k x \<longrightarrow> marked k' x \<and> (data_start_sector (root k) \<le> x \<longrightarrow> sector (kdisk k') x = sector (kdisk k) x))"

lemma vol_keeps_trans: "vol_keeps j k k1 \<Longrightarrow> vol_keeps j k1 k2 \<Longrightarrow> vol_keeps j k k2"
  unfolding vol_keeps_def by auto

lemma vol_keeps_root:
  assumes "vol_keeps j k k'"
  shows "total_sectors (root k') = total_sectors (root k)" "data_start_sector (root k') = data_start_sector (root k)"
    "meta_below (root k') = meta_below (root k)" "checksum (root k') = checksum (root k)" "max_files (root k') = max_files (root k)"
  using assms by (auto simp: vol_keeps_def meta_below_def meta_apart_def)

lemma data_not_meta: "meta_below r \<Longrightarrow> data_start_sector r \<le> x \<Longrightarrow> x \<notin> meta_sectors r"
  by (auto simp: meta_below_def meta_sectors_def)

lemma write_changes_data:
  assumes "kfs_ok k" and "meta_below (root k)" and "data_start_sector (root k) \<le> x" and "x < total_sectors (root k)"
  shows "sector (kdisk (write_changes k)) x = sector (kdisk k) x"
  by (rule write_changes_other [OF assms(1) kfs_has_sector [OF assms(1,4)] data_not_meta [OF assms(2,3)]])

lemma write_changes_keeps:
  assumes "vol_keeps j k k'" and "meta_below (root k)"
  shows "vol_keeps j k (write_changes k')"
proof -
  note r = vol_keeps_root [OF assms(1)]
  have "sector (kdisk (write_changes k')) x = sector (kdisk k') x" if "data_start_sector (root k) \<le> x" "marked k x" for x
    using that assms r by (intro write_changes_data) (auto simp: vol_keeps_def marked_def)
  then show ?thesis using assms(1) write_changes_ok [of k'] by (auto simp: vol_keeps_def marked_def)
qed

lemma marked_write_changes [simp]: "marked (write_changes k) = marked k" "free_blocks (write_changes k) = free_blocks k"
  by (auto simp: marked_def free_blocks_def fun_eq_iff)

lemma find_unique:
  assumes "n \<le> length fs" and "j < n" and "\<And>i. i < n \<Longrightarrow> same_name fname (fs ! i) \<longleftrightarrow> i = j"
  shows "find_loop fname fs 0 n = Some (Some j)" "index_loop fname fs 0 n = Some (of_nat j)"
proof -
  obtain r where r: "find_loop fname fs 0 n = Some r" "first_match fname fs n r"
    using find_loop_first [of 0 n fs fname] assms(1) by auto
  then show "find_loop fname fs 0 n = Some (Some j)"
    using assms(2,3) by (cases r) (auto simp: first_match_def)
  then show "index_loop fname fs 0 n = Some (of_nat j)" using index_loop_find [of 0 n fs fname] assms(1) by simp
qed

lemma created_entry_name:
  assumes "0 \<notin> set fname" and "length fname \<le> 11" and "length nm = MAX_FNAME_LEN" and "nm ! 11 = 0"
  shows "takeWhile (\<lambda>c. c \<noteq> 0) (strncpy nm fname (MAX_FNAME_LEN - 1)) = fname"
proof -
  have "drop 11 nm = [0]" using assms(3,4) Cons_nth_drop_Suc [of 11 nm] by (simp add: MAX_FNAME_LEN_def)
  then have "strncpy nm fname 11 = fname @ 0 # replicate (11 - length fname) 0"
    using assms(2) by (simp add: strncpy_def replicate_append_same [symmetric])
  moreover have "takeWhile (\<lambda>c. c \<noteq> 0) (fname @ 0 # xs) = fname @ takeWhile (\<lambda>c. c \<noteq> 0) (0 # xs)" for xs
    by (rule takeWhile_append2) (use assms(1) in auto)
  ultimately show ?thesis by (simp add: MAX_FNAME_LEN_def)
qed

lemma kfs_ok_change:
  assumes "kfs_ok k" and "length d \<ge> length (kdisk k)" and "length tb = BLOCK_SIZE" and "length (f_name f) = MAX_FNAME_LEN"
    and "unat c \<le> unat (max_files (root k))" and "length bm = BLOCK_SIZE"
  shows "kfs_ok (k\<lparr>block_bitmap := bm, files := (files k)[j := f], tempbuf := tb, kdisk := d, root := (root k)\<lparr>filecount := c\<rparr>\<rparr>)"
  using assms all_names_update [of "files k" MAX_FNAME_LEN f j] by (simp add: kfs_ok_def)

lemma create_file_u_ok:
  assumes "kfs_ok k" and "meta_below (root k)" and "free_blocks k \<noteq> {}"
    and "free_slot (files k) 0 MAX_FILES = Some (Some j)" and "unat (filecount (root k)) < unat (max_files (root k))"
  obtains b k' where "create_file_u fname flags k = Some (Inr j, k')" and "vol_keeps j k k'"
    and "filecount (root k') = filecount (root k) + 1" and "f_size (files k' ! j) = 0" and "f_block (files k' ! j) = b"
    and "f_name (files k' ! j) = strncpy (f_name (files k ! j)) fname (MAX_FNAME_LEN - 1)" and "b \<in> free_blocks k"
    and "sector (kdisk k') b = fresh_block" and "\<And>x. marked k' x \<longleftrightarrow> x = b \<or> marked k x" and "j < FENTRY_COUNT"
proof -
  have ds: "0 < data_start_sector (root k)" using assms(2) by (auto simp: meta_below_def word_gt_0_no word_gt_0)
  have jl: "j < FENTRY_COUNT" "length (files k) = FENTRY_COUNT"
    using free_slot_total [of 0 MAX_FILES "files k"] assms(1,4) by (auto simp: kfs_ok_def MAX_FILES_def mfs_consts)
  have fc: "unat (filecount (root k)) < MAX_FILES" "unat (filecount (root k) + 1) \<le> unat (max_files (root k))"
  proof -
    have "unat (max_files (root k)) \<le> 24" using assms(1) by (simp add: kfs_ok_def mfs_consts)
    then show "unat (filecount (root k)) < MAX_FILES" "unat (filecount (root k) + 1) \<le> unat (max_files (root k))"
      using assms(5) by (simp_all add: MAX_FILES_def unat_word_ariths)
  qed
  show thesis
  proof (cases rule: alloc_block_cases [OF assms(1) ds])
    case 1
    then show thesis using assms(3) by (simp add: disk_full_free)
  next
    case (2 b bm)
    define f where "f = (files k ! j)\<lparr>f_name := strncpy (f_name (files k ! j)) fname (MAX_FNAME_LEN - 1), f_used := 1,
      f_flags := ucast (flags AND NOT O_CREAT), f_size := 0, f_block_size := 0, f_block := b\<rparr>"
    let ?d = "disk_write (kdisk k) b fresh_block"
    define k2 where "k2 = k\<lparr>block_bitmap := bm, files := (files k)[j := f], tempbuf := fresh_block, kdisk := ?d,
      root := (root k)\<lparr>filecount := filecount (root k) + 1\<rparr>\<rparr>"
    have "length (f_name f) = MAX_FNAME_LEN"
      using kfs_ok_name [OF assms(1) jl(1)] by (simp add: f_def length_strncpy MAX_FNAME_LEN_def)
    moreover have "length bm = BLOCK_SIZE" using 2(5) by (simp add: kfs_ok_def)
    ultimately have k2: "kfs_ok k2"
      unfolding k2_def using fc(2) length_disk_write [of fresh_block "kdisk k" b] by (intro kfs_ok_change assms(1)) simp_all
    have mk: "marked k2 x \<longleftrightarrow> x = b \<or> marked k x" for x
      using marked_after [OF 2(6,3), of k2 x] by (simp add: k2_def)
    have sec: "sector ?d x = sector (kdisk k) x" if "x < total_sectors (root k)" "x \<noteq> b" for x
      using that by (intro image.rd_wr_other kfs_has_sector [OF assms(1)]) auto
    have "vol_keeps j k k2" using k2 mk sec 2(4) jl by (auto simp: vol_keeps_def k2_def marked_def)
    then have v: "vol_keeps j k (write_changes k2)" by (rule write_changes_keeps [OF _ assms(2)])
    have c: "create_file_u fname flags k = Some (Inr j, write_changes k2)"
      using 2(1,2) fc(1) assms(4) by (simp add: create_file_u_def Let_def k2_def f_def)
    have "sector (kdisk (write_changes k2)) b = sector ?d b"
      using write_changes_data [OF k2, of b] assms(2) 2(3,7) by (simp add: k2_def meta_below_def meta_apart_def)
    then have s: "sector (kdisk (write_changes k2)) b = fresh_block" by (simp add: image.rd_wr_same)
    have "files k2 ! j = f" using jl by (simp add: k2_def)
    with v c s mk 2(3,4,7) jl(1) show thesis
      by (intro that [of "write_changes k2" b]) (simp_all add: k2_def f_def free_blocks_def)
  qed
qed

lemma vol_keeps_step:
  assumes "vol_keeps j k0 k" and "kfs_ok k'" and "root k' = (root k)\<lparr>filecount := c\<rparr>"
    and "\<And>i. i \<noteq> j \<Longrightarrow> files k' ! i = files k ! i" and "\<And>x. marked k x \<Longrightarrow> marked k' x"
    and "\<And>x. marked k0 x \<Longrightarrow> marked k x \<Longrightarrow> sector (kdisk k') x = sector (kdisk k) x"
  shows "vol_keeps j k0 k'"
  using assms unfolding vol_keeps_def by auto

lemma erase_single:
  assumes "has_sector d b" and "next_block (sector d b) = 0" and "length tb = BLOCK_SIZE"
  obtains d' tb' where "erase_loop b d tb = (d', tb')" and "length tb' = BLOCK_SIZE" and "length d \<le> length d'"
    and "\<And>x. has_sector d x \<Longrightarrow> x \<noteq> b \<Longrightarrow> sector d' x = sector d x"
proof (cases "b \<noteq> 0 \<and> b < sector_limit")
  case True
  have r: "disk_read d b tb = sector d b" by (rule disk_read_sector [OF assms(1,3)])
  have "erase_loop b d tb = erase_loop 0 (disk_write d b zero_block) (sector d b)"
    using True assms(2) by (subst erase_loop.simps) (simp add: r next_block_def Let_def)
  then have "erase_loop b d tb = (disk_write d b zero_block, sector d b)" by (simp add: erase_loop.simps [of 0])
  then show thesis
    using image.length_rd [OF assms(1)] length_disk_write [OF length_zero_block, of d b]
      image.rd_wr_other [OF _ _ length_zero_block, of d _ b]
    by (intro that [of "disk_write d b zero_block" "sector d b"]) auto
next
  case False
  then have "erase_loop b d tb = (d, tb)" by (subst erase_loop.simps) auto
  then show thesis using assms(3) by (intro that) auto
qed

lemma mfs_delete_u_ok:
  assumes "vol_keeps j k0 k" and "meta_below (root k0)" and "find_file_u fname k = Some (Some j)" and "j < FENTRY_COUNT"
    and "b = f_block (files k ! j)" and "\<not> marked k0 b" and "b < total_sectors (root k)" and "next_block (sector (kdisk k) b) = 0"
    and "0 < unat (filecount (root k))"
  obtains k' where "mfs_delete_u fname k = Some (0, k')" and "vol_keeps j k0 k'"
    and "root k' = (root k)\<lparr>filecount := filecount (root k) - 1\<rparr>" and "block_bitmap k' = block_bitmap k"
    and "files k' = (files k)[j := (files k ! j)\<lparr>f_flags := 0, f_size := 0, f_block := 0, f_block_size := 0\<rparr>]"
proof -
  have ok: "kfs_ok k" using assms(1) by (simp add: vol_keeps_def)
  then have "length (tempbuf k) = BLOCK_SIZE" by (simp add: kfs_ok_def)
  then obtain d tb where e: "erase_loop b (kdisk k) (tempbuf k) = (d, tb)" "length tb = BLOCK_SIZE" "length (kdisk k) \<le> length d"
    "\<And>x. has_sector (kdisk k) x \<Longrightarrow> x \<noteq> b \<Longrightarrow> sector d x = sector (kdisk k) x"
    using erase_single [OF kfs_has_sector [OF ok assms(7)] assms(8)] by blast
  define f where "f = (files k ! j)\<lparr>f_flags := 0, f_size := 0, f_block := 0, f_block_size := 0\<rparr>"
  define k1 where "k1 = k\<lparr>block_bitmap := block_bitmap k, files := (files k)[j := f], tempbuf := tb, kdisk := d,
    root := (root k)\<lparr>filecount := filecount (root k) - 1\<rparr>\<rparr>"
  have "unat (filecount (root k) - 1) = unat (filecount (root k)) - 1" using assms(9) by (intro unat_minus_one) auto
  moreover have "unat (filecount (root k)) \<le> unat (max_files (root k))" using ok by (simp add: kfs_ok_def)
  ultimately have "unat (filecount (root k) - 1) \<le> unat (max_files (root k))" by linarith
  then have k1: "kfs_ok k1" unfolding k1_def
    using e(2,3) kfs_ok_name [OF ok assms(4)] ok by (intro kfs_ok_change) (simp_all add: f_def kfs_ok_def)
  have m: "marked k1 x = marked k x" for x by (simp add: marked_def k1_def)
  have "vol_keeps j k0 k1"
    by (rule vol_keeps_step [OF assms(1) k1, of "filecount (root k) - 1"])
      (use e(4) kfs_has_sector [OF ok] assms(6) m in \<open>auto simp: k1_def marked_def\<close>)
  then have v: "vol_keeps j k0 (write_changes k1)" by (rule write_changes_keeps [OF _ assms(2)])
  have "mfs_delete_u fname k = Some (0, write_changes k1)"
    using assms(3,5) e(1) by (cases k) (simp add: mfs_delete_u_def k1_def f_def Let_def)
  then show thesis by (rule that [OF _ v]) (simp_all add: k1_def f_def)
qed

text \<open>The blocks of a file of \<open>sz\<close> bytes: allocated, and written from the program buffer.\<close>

lemma saved_blocks:
  assumes "kfs_ok k" and "0 < data_start_sector (root k)" and "unat r = sz" and "0 < sz" and "sz \<le> PROGRAM_BUF"
    and "(sz + 507) div 508 \<le> card (free_blocks k)" and "length stack = BLOCK_SIZE" and "length buf = PROGRAM_BUF"
  obtains c cs k' d where "alloc_blocks (unat (count_blocks r 0)) [] stack k = Some (Some (c # cs), k')"
    and "write_blocks (c # cs) r 0 buf (kdisk k') = Some d" and "kfs_ok k'" and "root k' = root k" and "files k' = files k"
    and "length (kdisk k') \<le> length d" and "\<And>x. marked k' x \<longleftrightarrow> x \<in> set (c # cs) \<or> marked k x"
    and "set (c # cs) \<subseteq> free_blocks k" and "distinct (c # cs)" and "chain (sector d) (total_sectors (root k)) c (c # cs)"
    and "take sz (chain_bytes (sector d) (c # cs)) = take sz buf" and "sz \<le> BLOCK_DATA * length (c # cs)"
    and "\<And>x. marked k x \<Longrightarrow> sector d x = sector (kdisk k) x"
proof -
  define n where "n = (sz + 507) div 508"
  have n: "n \<le> 33" "0 < n" "sz \<le> 508 * n" using assms(4,5) by (auto simp: n_def PROGRAM_BUF_def)
  have cb: "unat (count_blocks r 0) = n"
    using count_blocks_eq [of r 0] assms(3,5) n(1)
    by (simp add: PROGRAM_BUF_def mfs_consts n_def [symmetric] unat_of_nat del: of_nat_div)
  obtain bs k3 where k3: "alloc_blocks n [] stack k = Some (Some bs, k3)" "length bs = n" "distinct bs" "set bs \<subseteq> free_blocks k"
    "kfs_ok k3" "root k3 = root k" "files k3 = files k" "\<And>x. marked k3 x \<longleftrightarrow> x \<in> set bs \<or> marked k x"
    "\<And>x. x < total_sectors (root k) \<Longrightarrow> x \<notin> set bs \<Longrightarrow> sector (kdisk k3) x = sector (kdisk k) x"
    using alloc_blocks_ok [OF assms(1,2), of n "[]" stack] assms(6,7) n(1) by (auto simp: n_def MAX_BLOCKS_def)
  have bsf: "data_start_sector (root k) \<le> x" "x < total_sectors (root k3)" "\<not> marked k x" if "x \<in> set bs" for x
    using that k3(4,6) by (auto simp: free_blocks_def)
  have nz: "x \<noteq> 0" if "x \<in> set bs" for x using bsf(1) [OF that] assms(2) by auto
  then have wb: "\<forall>x\<in>set bs. x \<noteq> 0 \<and> x < total_sectors (root k3) \<and> has_sector (kdisk k3) x"
    using bsf(2) kfs_has_sector [OF k3(5)] by blast
  obtain c cs where bs: "bs = c # cs" using k3(2) n(2) by (cases bs) auto
  obtain d where d: "write_blocks bs r 0 buf (kdisk k3) = Some d"
    "chain (sector d) (total_sectors (root k3)) c bs" "take sz (chain_bytes (sector d) bs) = take sz buf"
    "length (kdisk k3) \<le> length d" "\<forall>x. x \<notin> set bs \<and> has_sector (kdisk k3) x \<longrightarrow> sector d x = sector (kdisk k3) x"
    using write_blocks_ok [OF k3(3) wb, of r 0 buf] assms(3,5,8) n(3) k3(2) by (auto simp: mfs_consts bs)
  have same: "sector d x = sector (kdisk k) x" if "marked k x" for x
  proof -
    have "x \<notin> set bs" "x < total_sectors (root k)" using that bsf(3) by (auto simp: marked_def)
    then show ?thesis using d(5) k3(6) k3(9) [of x] kfs_has_sector [OF k3(5)] by auto
  qed
  have "sz \<le> BLOCK_DATA * length bs" using n(3) k3(2) by (simp add: mfs_consts)
  with that [of c cs k3 d] show thesis
    using d(1-4) k3 same unfolding cb bs by auto
qed

text \<open>\<^verbatim>\<open>save_to_disk\<close> for the entry \<open>j\<close>, whose only block was not in use at \<open>k0\<close>.\<close>

lemma save_to_disk_ok:
  assumes "vol_keeps j k0 (vol s)" and "meta_below (root k0)" and "find_file_u fname (vol s) = Some (Some j)" and "j < FENTRY_COUNT"
    and "b = f_block (files (vol s) ! j)" and "\<not> marked k0 b" and "b < total_sectors (root (vol s))"
    and "next_block (sector (kdisk (vol s)) b) = 0" and "0 < unat (filecount (root (vol s)))"
    and "unat (f_size (files (vol s) ! j)) = sz" and "0 < sz" and "sz \<le> PROGRAM_BUF"
    and "(sz + 507) div 508 \<le> card (free_blocks (vol s))" and "length stack = BLOCK_SIZE" and "length (program_buf s) = PROGRAM_BUF"
  obtains s' bs where "save_to_disk stack fname s = Some (0, s')" and "vol_keeps j k0 (vol s')" and "file_with (vol s') j bs"
    and "file_bytes (vol s') j bs = take sz (program_buf s)" and "root (vol s') = root (vol s)"
    and "f_name (files (vol s') ! j) = f_name (files (vol s) ! j)" and "f_size (files (vol s') ! j) = f_size (files (vol s) ! j)"
    and "\<forall>x\<in>set bs. data_start_sector (root k0) \<le> x"
proof -
  let ?f = "files (vol s) ! j"
  obtain k1 where k1: "mfs_delete_u fname (vol s) = Some (0, k1)" "vol_keeps j k0 k1"
    "root k1 = (root (vol s))\<lparr>filecount := filecount (root (vol s)) - 1\<rparr>" "block_bitmap k1 = block_bitmap (vol s)"
    using mfs_delete_u_ok [OF assms(1-9)] by blast
  define k2 where "k2 = k1\<lparr>root := (root k1)\<lparr>filecount := filecount (root k1) + 1\<rparr>\<rparr>"
  have ok0: "kfs_ok (vol s)" using assms(1) by (simp add: vol_keeps_def)
  have root2: "root k2 = root (vol s)" by (simp add: k2_def k1(3))
  have ok2: "kfs_ok k2" using k1(2,3) ok0 unfolding vol_keeps_def kfs_ok_def k2_def by simp
  have v2: "vol_keeps j k0 k2"
    by (rule vol_keeps_step [OF k1(2) ok2]) (auto simp: k2_def marked_def)
  have fr2: "free_blocks k2 = free_blocks (vol s)" by (simp add: free_blocks_def marked_def k2_def k1(3,4))
  note r0 = vol_keeps_root [OF assms(1)]
  have ds: "0 < data_start_sector (root k2)" using assms(2) r0 root2 by (auto simp: meta_below_def word_gt_0)
  obtain c cs k3 d where k3: "alloc_blocks (unat (count_blocks (f_size ?f) 0)) [] stack k2 = Some (Some (c # cs), k3)"
    "write_blocks (c # cs) (f_size ?f) 0 (program_buf s) (kdisk k3) = Some d" "kfs_ok k3" "root k3 = root k2"
    "files k3 = files k2" "length (kdisk k3) \<le> length d" "\<And>x. marked k3 x \<longleftrightarrow> x \<in> set (c # cs) \<or> marked k2 x"
    "set (c # cs) \<subseteq> free_blocks k2" "distinct (c # cs)" "chain (sector d) (total_sectors (root k2)) c (c # cs)"
    "take sz (chain_bytes (sector d) (c # cs)) = take sz (program_buf s)" "sz \<le> BLOCK_DATA * length (c # cs)"
    "\<And>x. marked k2 x \<Longrightarrow> sector d x = sector (kdisk k2) x"
    using saved_blocks [OF ok2 ds assms(10-12) assms(13) [folded fr2] assms(14,15)] by blast
  define g where "g = ?f\<lparr>f_block := c, f_block_size := of_nat (length (c # cs))\<rparr>"
  define k4 where "k4 = k3\<lparr>kdisk := d, files := (files k3)[j := g]\<rparr>"
  have jl: "j < length (files k3)" using k3(3) assms(4) by (simp add: kfs_ok_def)
  have "kfs_ok (k3\<lparr>block_bitmap := block_bitmap k3, files := (files k3)[j := g], tempbuf := tempbuf k3, kdisk := d,
      root := (root k3)\<lparr>filecount := filecount (root k3)\<rparr>\<rparr>)"
    using k3(3,6) kfs_ok_name [OF ok0 assms(4)] by (intro kfs_ok_change) (simp_all add: kfs_ok_def g_def)
  then have ok4: "kfs_ok k4" by (cases k3) (simp add: k4_def)
  have m4: "marked k4 x \<longleftrightarrow> x \<in> set (c # cs) \<or> marked k2 x" for x using k3(7) [of x] by (simp add: marked_def k4_def)
  have v4: "vol_keeps j k0 k4"
    using m4 k3(13) by (intro vol_keeps_step [OF v2 ok4, of "filecount (root k2)"]) (auto simp: k4_def k3(4,5))
  have fw: "file_with k4 j (c # cs)" "file_bytes k4 j (c # cs) = take sz (program_buf s)"
    using k3(4,9-12) m4 assms(4,10) jl by (simp_all add: file_with_def file_bytes_def k4_def g_def)
  have i: "get_file_index_u fname (vol s) = Some (of_nat j)"
    using index_loop_find [of 0 MAX_FILES "files (vol s)" fname] assms(3) ok0
    by (simp add: get_file_index_u_def find_file_u_def kfs_ok_def MAX_FILES_def mfs_consts)
  have "(of_nat j :: u8) \<noteq> 0xFF" "unat (of_nat j :: u8) = j"
    using assms(4) by (simp_all add: mfs_consts word_unat_eq_iff unat_of_nat)
  then have "save_to_disk stack fname s = Some (0, s\<lparr>vol := k4\<rparr>)"
    using i k1(1) k3(1,2) by (simp add: save_to_disk_def k2_def [symmetric] g_def k4_def Let_def)
  moreover have "\<forall>x\<in>set (c # cs). data_start_sector (root k0) \<le> x"
    using k3(8) root2 r0(2) by (auto simp: free_blocks_def)
  ultimately show thesis
    using v4 fw root2 k3(4) jl by (intro that [of "s\<lparr>vol := k4\<rparr>" "c # cs"]) (simp_all add: k4_def g_def)
qed

text \<open>A file whose entry and blocks are the same in another state.\<close>

lemma file_same:
  assumes "file_with k i bs" and "files k' ! i = files k ! i" and "total_sectors (root k') = total_sectors (root k)"
    and "\<And>x. x \<in> set bs \<Longrightarrow> marked k' x \<and> sector (kdisk k') x = sector (kdisk k) x"
  shows "file_with k' i bs \<and> file_bytes k' i bs = file_bytes k i bs"
  using assms chain_cong [of bs "sector (kdisk k')" "sector (kdisk k)"] chain_bytes_cong [of bs "sector (kdisk k')" "sector (kdisk k)"]
  by (simp add: file_with_def file_bytes_def)

text \<open>What the kernel sees of a volume that the tool leaves in the image.\<close>

lemma kernel_mounts:
  assumes "kfs_ok k" and "meta_below (root k)" and "checksum (root k) = CHECKSUM" and "buffers_ok t"
  obtains t' where "mfs_init (Some (kdisk (write_changes k))) t = (0, t')" and "kfs_ok t'" and "root t' = root k" and "files t' = files k"
    and "\<And>i bs. file_with k i bs \<Longrightarrow> \<forall>x\<in>set bs. data_start_sector (root k) \<le> x \<Longrightarrow>
      file_with t' i bs \<and> file_bytes t' i bs = file_bytes k i bs"
proof -
  have "holds_metadata (kdisk (write_changes k)) k"
    using write_changes_sectors [OF assms(1)] assms(2) by (simp add: holds_metadata_def meta_below_def)
  from mount_metadata [OF assms(1) this assms(3,4)] obtain t' where
    t': "mfs_init (Some (kdisk (write_changes k))) t = (0, t')" "root t' = root k" "block_bitmap t' = block_bitmap k"
      "files t' = files k" "kdisk t' = kdisk (write_changes k)" "tempbuf t' = tempbuf t" "root_rest t' = root_rest k"
      "files_rest t' = files_rest k"
    by auto
  have "kfs_ok (write_changes k)" by (rule write_changes_ok [OF assms(1)])
  then have ok: "kfs_ok t'" using assms(1,4) t' by (simp add: kfs_ok_def buffers_ok_def)
  have "file_with t' i bs \<and> file_bytes t' i bs = file_bytes k i bs"
    if "file_with k i bs" "\<forall>x\<in>set bs. data_start_sector (root k) \<le> x" for i bs
    using that t' write_changes_data [OF assms(1,2)] by (intro file_same) (auto simp: file_with_def marked_def)
  then show thesis by (rule that [OF t'(1) ok t'(2,4)])
qed

text \<open>The creating branch of \<^verbatim>\<open>mfs_open\<close>, and loading the new, empty file.\<close>

lemma mfs_open_u_new:
  assumes "kfs_ok (vol s)" and "meta_below (root (vol s))" and "find_file_u fname (vol s) = Some None" and "0 \<notin> set fname"
    and "length fname \<le> 11" and "free_slot (files (vol s)) 0 MAX_FILES = Some (Some j)" and "f_name (files (vol s) ! j) ! 11 = 0"
    and "unat (filecount (root (vol s))) < unat (max_files (root (vol s)))" and "free_blocks (vol s) \<noteq> {}"
  obtains b k where "mfs_open_u fname O_CREAT s = Some (0, s\<lparr>vol := k, current_file := Some j, current_fd_file := Some j\<rparr>)"
    and "vol_keeps j (vol s) k" and "filecount (root k) = filecount (root (vol s)) + 1" and "f_block (files k ! j) = b"
    and "b \<in> free_blocks (vol s)" and "next_block (sector (kdisk k) b) = 0" and "\<And>x. marked k x \<longleftrightarrow> x = b \<or> marked (vol s) x"
    and "j < FENTRY_COUNT" and "\<And>i. i < FENTRY_COUNT \<Longrightarrow> same_name fname (files k ! i) \<longleftrightarrow> i = j"
    and "entry_name (files k ! j) = fname"
proof -
  obtain b k where k: "create_file_u fname O_CREAT (vol s) = Some (Inr j, k)" "vol_keeps j (vol s) k"
    "filecount (root k) = filecount (root (vol s)) + 1" "f_size (files k ! j) = 0" "f_block (files k ! j) = b"
    "f_name (files k ! j) = strncpy (f_name (files (vol s) ! j)) fname (MAX_FNAME_LEN - 1)" "b \<in> free_blocks (vol s)"
    "sector (kdisk k) b = fresh_block" "\<And>x. marked k x \<longleftrightarrow> x = b \<or> marked (vol s) x" "j < FENTRY_COUNT"
    using create_file_u_ok [OF assms(1,2,9,6,8)] by blast
  have ok: "kfs_ok k" using k(2) by (simp add: vol_keeps_def)
  have nl: "length (f_name (files (vol s) ! j)) = MAX_FNAME_LEN" by (rule kfs_ok_name [OF assms(1) k(10)])
  have none: "\<not> same_name fname (files (vol s) ! i)" if "i < FENTRY_COUNT" for i
    using that assms(1,3) find_loop_first [of 0 MAX_FILES "files (vol s)" fname]
    by (auto simp: find_file_u_def first_match_def kfs_ok_def MAX_FILES_def mfs_consts)
  have "same_name fname (files k ! j)"
    using created_name_iff [OF assms(4) nl assms(7)] assms(5) by (simp add: same_name_def k(6))
  then have same: "same_name fname (files k ! i) \<longleftrightarrow> i = j" if "i < FENTRY_COUNT" for i
    using that none k(2) by (cases "i = j") (auto simp: vol_keeps_def)
  have en: "entry_name (files k ! j) = fname"
    using created_entry_name [OF assms(4,5) nl assms(7)] by (simp add: entry_name_def k(6))
  have "index_loop fname (files k) 0 MAX_FILES = Some (of_nat j)"
    using ok k(10) same by (intro find_unique) (auto simp: kfs_ok_def MAX_FILES_def mfs_consts)
  moreover have "(of_nat j :: u8) \<noteq> 0xFF" "unat (of_nat j :: u8) = j"
    using k(10) by (simp_all add: mfs_consts word_unat_eq_iff unat_of_nat)
  ultimately have "load_to_memory fname (s\<lparr>vol := k, current_file := Some j, current_fd_file := Some j\<rparr>) =
      Some (0, s\<lparr>vol := k, current_file := Some j, current_fd_file := Some j\<rparr>)"
    using k(4) by (simp add: load_to_memory_def get_file_index_u_def memory_loop.simps)
  then have "mfs_open_u fname O_CREAT s = Some (0, s\<lparr>vol := k, current_file := Some j, current_fd_file := Some j\<rparr>)"
    using assms(3) k(1) en by (simp add: mfs_open_u_def O_CREAT_def)
  moreover have "next_block (sector (kdisk k) b) = 0" by (simp add: k(8) fresh_block_next)
  ultimately show thesis using k(2,3,5,7,9,10) same en by (intro that)
qed

text \<open>Opening a new file and storing its bytes in the program buffer.\<close>

lemma mfs_write_u_new:
  assumes "kfs_ok (vol s)" and "meta_below (root (vol s))" and "find_file_u fname (vol s) = Some None" and "0 \<notin> set fname"
    and "length fname \<le> 11" and "free_slot (files (vol s)) 0 MAX_FILES = Some (Some j)" and "f_name (files (vol s) ! j) ! 11 = 0"
    and "unat (filecount (root (vol s))) < unat (max_files (root (vol s)))" and "free_blocks (vol s) \<noteq> {}"
    and "length buf \<le> PROGRAM_BUF"
  obtains b s1 k where "mfs_open_u fname O_CREAT s = Some (0, s1)"
    and "mfs_write_u buf (of_nat (length buf)) s1 = Some (0, s\<lparr>vol := k, program_buf := patch 0 buf (program_buf s),
      current_file := Some j, current_fd_file := Some j\<rparr>)"
    and "vol_keeps j (vol s) k" and "filecount (root k) = filecount (root (vol s)) + 1" and "f_block (files k ! j) = b"
    and "b \<in> free_blocks (vol s)" and "next_block (sector (kdisk k) b) = 0" and "\<And>x. marked k x \<longleftrightarrow> x = b \<or> marked (vol s) x"
    and "j < FENTRY_COUNT" and "\<And>i. i < FENTRY_COUNT \<Longrightarrow> same_name fname (files k ! i) \<longleftrightarrow> i = j"
    and "entry_name (files k ! j) = fname" and "unat (f_size (files k ! j)) = length buf"
proof -
  let ?s1 = "\<lambda>k. s\<lparr>vol := k, current_file := Some j, current_fd_file := Some j\<rparr>"
  obtain b k1 where k1: "mfs_open_u fname O_CREAT s = Some (0, ?s1 k1)"
    "vol_keeps j (vol s) k1" "filecount (root k1) = filecount (root (vol s)) + 1" "f_block (files k1 ! j) = b"
    "b \<in> free_blocks (vol s)" "next_block (sector (kdisk k1) b) = 0" "\<And>x. marked k1 x \<longleftrightarrow> x = b \<or> marked (vol s) x"
    "j < FENTRY_COUNT" "\<And>i. i < FENTRY_COUNT \<Longrightarrow> same_name fname (files k1 ! i) \<longleftrightarrow> i = j" "entry_name (files k1 ! j) = fname"
    by (rule mfs_open_u_new [OF assms(1-9)], rule that)
  have ok1: "kfs_ok k1" using k1(2) by (simp add: vol_keeps_def)
  then have jl: "j < length (files k1)" using k1(8) by (simp add: kfs_ok_def)
  define g where "g = (files k1 ! j)\<lparr>f_size := of_nat (length buf)\<rparr>"
  define k2 where "k2 = k1\<lparr>files := (files k1)[j := g]\<rparr>"
  have ub: "unat (of_nat (length buf) :: u16) = length buf" using assms(10) by (simp add: unat_of_nat PROGRAM_BUF_def)
  have ok2: "kfs_ok k2"
    using ok1 kfs_ok_name [OF ok1 k1(8)] all_names_update [of "files k1" MAX_FNAME_LEN g j] by (simp add: kfs_ok_def k2_def g_def)
  have v2: "vol_keeps j (vol s) k2"
    by (rule vol_keeps_step [OF k1(2) ok2, of "filecount (root k1)"]) (auto simp: k2_def marked_def)
  have m2: "marked k2 x \<longleftrightarrow> x = b \<or> marked (vol s) x" for x using k1(7) by (simp add: marked_def k2_def)
  have f2: "files k2 ! j = g" using jl by (simp add: k2_def)
  have same: "same_name fname (files k2 ! i) \<longleftrightarrow> i = j" if "i < FENTRY_COUNT" for i
    using k1(9) [OF that] f2 by (cases "i = j") (auto simp: k2_def g_def same_name_def)
  have "mfs_write_u buf (of_nat (length buf)) (?s1 k1) = Some (0, s\<lparr>vol := k2, program_buf := patch 0 buf (program_buf s),
      current_file := Some j, current_fd_file := Some j\<rparr>)"
    using assms(10) ub by (simp add: mfs_write_u_def k2_def g_def)
  moreover have "entry_name (files k2 ! j) = fname" using k1(10) f2 by (simp add: entry_name_def g_def)
  ultimately show thesis
    using k1(1,3-6,8) v2 m2 same f2 ub by (intro that [of "?s1 k1" k2 b]) (simp_all add: k2_def g_def)
qed

text \<open>\<^verbatim>\<open>-w\<close> for a name that is not in the image.\<close>

lemma util_write_ok:
  assumes "kfs_ok (vol s)" and "meta_below (root (vol s))" and "find_file_u fname (vol s) = Some None" and "0 \<notin> set fname"
    and "length fname \<le> 11" and "free_slot (files (vol s)) 0 MAX_FILES = Some (Some j)" and "f_name (files (vol s) ! j) ! 11 = 0"
    and "unat (filecount (root (vol s))) < unat (max_files (root (vol s)))"
    and "buf \<noteq> []" and "length buf \<le> PROGRAM_BUF" and "(length buf + 507) div 508 < card (free_blocks (vol s))"
    and "length stack = BLOCK_SIZE" and "length (program_buf s) = PROGRAM_BUF"
  obtains s' k bs where "util_write stack fname buf s = Some (0, s')" and "vol s' = write_changes k" and "vol_keeps j (vol s) k"
    and "file_with k j bs" and "file_bytes k j bs = buf" and "filecount (root k) = filecount (root (vol s)) + 1"
    and "unat (f_size (files k ! j)) = length buf" and "\<forall>x\<in>set bs. data_start_sector (root k) \<le> x"
    and "\<And>i. i < FENTRY_COUNT \<Longrightarrow> same_name fname (files k ! i) \<longleftrightarrow> i = j"
proof -
  let ?pb = "patch 0 buf (program_buf s)"
  let ?s = "\<lambda>k fd. s\<lparr>vol := k, program_buf := ?pb, current_file := Some j, current_fd_file := fd\<rparr>"
  have ne: "free_blocks (vol s) \<noteq> {}" using assms(11) by auto
  obtain b s1 k2 where k2: "mfs_open_u fname O_CREAT s = Some (0, s1)"
    "mfs_write_u buf (of_nat (length buf)) s1 = Some (0, ?s k2 (Some j))"
    "vol_keeps j (vol s) k2" "filecount (root k2) = filecount (root (vol s)) + 1" "f_block (files k2 ! j) = b"
    "b \<in> free_blocks (vol s)" "next_block (sector (kdisk k2) b) = 0" "\<And>x. marked k2 x \<longleftrightarrow> x = b \<or> marked (vol s) x"
    "j < FENTRY_COUNT" "\<And>i. i < FENTRY_COUNT \<Longrightarrow> same_name fname (files k2 ! i) \<longleftrightarrow> i = j" "entry_name (files k2 ! j) = fname"
    "unat (f_size (files k2 ! j)) = length buf"
    by (rule mfs_write_u_new [OF assms(1-8) ne assms(10)], rule that)
  let ?s2 = "?s k2 None"
  have ok2: "kfs_ok k2" using k2(3) by (simp add: vol_keeps_def)
  note r2 = vol_keeps_root [OF k2(3)]
  have ff: "find_file_u fname (vol ?s2) = Some (Some j)"
    using ok2 k2(9,10) unfolding find_file_u_def by (intro find_unique) (auto simp: kfs_ok_def MAX_FILES_def mfs_consts)
  have b: "\<not> marked (vol s) b" "b < total_sectors (root k2)" using k2(6) r2(1) by (auto simp: free_blocks_def)
  have "free_blocks k2 = free_blocks (vol s) - {b}" using k2(8) r2(1,2) by (auto simp: free_blocks_def)
  then have card: "(length buf + 507) div 508 \<le> card (free_blocks (vol ?s2))" using assms(11) k2(6) by simp
  have "unat (max_files (root (vol s))) \<le> 24" using assms(1) by (simp add: kfs_ok_def mfs_consts)
  then have fc: "0 < unat (filecount (root (vol ?s2)))" using k2(4) assms(8) by (simp add: unat_word_ariths)
  have pb: "length ?pb = PROGRAM_BUF" "take (length buf) ?pb = buf"
    using assms(10,13) take_drop_patch [of buf 0 "program_buf s"] by (simp_all add: length_patch)
  obtain s3 bs where s3: "save_to_disk stack fname ?s2 = Some (0, s3)" "vol_keeps j (vol s) (vol s3)" "file_with (vol s3) j bs"
    "file_bytes (vol s3) j bs = take (length buf) (program_buf ?s2)" "root (vol s3) = root (vol ?s2)"
    "f_name (files (vol s3) ! j) = f_name (files (vol ?s2) ! j)" "f_size (files (vol s3) ! j) = f_size (files (vol ?s2) ! j)"
    "\<forall>x\<in>set bs. data_start_sector (root (vol s)) \<le> x"
    by (rule save_to_disk_ok [of j "vol s" ?s2 fname b "length buf" stack])
      (use k2(3,5,7,9,12) assms(2,9,10,12) ff b fc card pb(1) in simp_all)
  have "mfs_close_u stack (?s k2 (Some j)) = Some (0, s3\<lparr>current_file := None\<rparr>)"
    using s3(1) k2(11) by (simp add: mfs_close_u_def)
  then have "util_write stack fname buf s = Some (0, mfs_sync_u (s3\<lparr>current_file := None\<rparr>))"
    using k2(1,2) by (simp add: util_write_def)
  moreover have "same_name fname (files (vol s3) ! i) \<longleftrightarrow> i = j" if "i < FENTRY_COUNT" for i
    using k2(10) [OF that] s3(2,6) k2(3) by (cases "i = j") (auto simp: same_name_def vol_keeps_def)
  ultimately show thesis
    using s3 pb(2) k2(4,12) r2(2)
    by (intro that [of "mfs_sync_u (s3\<lparr>current_file := None\<rparr>)" "vol s3" bs]) (simp_all add: mfs_sync_u_def)
qed

text \<open>
  C25: From the host tool to the kernel. A new file of 1 to 16384 bytes with a name of at most 11
  characters, written into an image that has room for it, is what the kernel loads after mounting the
  image: \<^verbatim>\<open>load_executable\<close> returns exactly the bytes of the host file. The other files keep
  their blocks and bytes. (\<open>j\<close> is the free entry the tool takes; the kernel searches the first
  \<open>filecount\<close> entries only, so it must be among these.)
\<close>

theorem util_write_then_load:
  assumes "kfs_ok (vol s)" and "meta_below (root (vol s))" and "checksum (root (vol s)) = CHECKSUM" and "buffers_ok t"
    and "find_file_u fname (vol s) = Some None" and "0 \<notin> set fname" and "length fname \<le> 11"
    and "free_slot (files (vol s)) 0 MAX_FILES = Some (Some j)" and "f_name (files (vol s) ! j) ! 11 = 0"
    and "j \<le> unat (filecount (root (vol s)))" and "unat (filecount (root (vol s))) < unat (max_files (root (vol s)))"
    and "buf \<noteq> []" and "length buf \<le> PROGRAM_BUF" and "(length buf + 507) div 508 < card (free_blocks (vol s))"
    and "length stack = BLOCK_SIZE" and "length (program_buf s) = PROGRAM_BUF"
  shows "\<exists>s' t' u. util_write stack fname buf s = Some (0, s') \<and> mfs_init (Some (kdisk (vol s'))) t = (0, t') \<and>
    load_executable fname t' = Some (0, buf, u) \<and>
    (\<forall>i bs. i \<noteq> j \<and> file_with (vol s) i bs \<and> (\<forall>x\<in>set bs. data_start_sector (root (vol s)) \<le> x) \<longrightarrow>
      file_with t' i bs \<and> file_bytes t' i bs = file_bytes (vol s) i bs)"
proof -
  obtain s' k bs where k: "util_write stack fname buf s = Some (0, s')" "vol s' = write_changes k" "vol_keeps j (vol s) k"
    "file_with k j bs" "file_bytes k j bs = buf" "filecount (root k) = filecount (root (vol s)) + 1"
    "unat (f_size (files k ! j)) = length buf" "\<forall>x\<in>set bs. data_start_sector (root k) \<le> x"
    "\<And>i. i < FENTRY_COUNT \<Longrightarrow> same_name fname (files k ! i) \<longleftrightarrow> i = j"
    by (rule util_write_ok [OF assms(1,2,5-9,11-16)], rule that)
  note r = vol_keeps_root [OF k(3)]
  have ok: "kfs_ok k" using k(3) by (simp add: vol_keeps_def)
  have meta: "meta_below (root k)" "checksum (root k) = CHECKSUM" using r assms(2,3) by simp_all
  obtain t' where t': "mfs_init (Some (kdisk (write_changes k))) t = (0, t')" "kfs_ok t'" "root t' = root k" "files t' = files k"
    "\<And>i cs. file_with k i cs \<Longrightarrow> \<forall>x\<in>set cs. data_start_sector (root k) \<le> x \<Longrightarrow>
      file_with t' i cs \<and> file_bytes t' i cs = file_bytes k i cs"
    by (rule kernel_mounts [OF ok meta assms(4)], rule that)
  have "unat (filecount (root k)) = unat (filecount (root (vol s))) + 1" "unat (filecount (root k)) \<le> FENTRY_COUNT"
    using assms(1,11) k(6) ok by (auto simp: kfs_ok_def mfs_consts unat_word_ariths)
  then have "find_file fname t' = Some (Some j)"
    unfolding find_file_def t'(3,4) using ok k(9) assms(10) by (intro find_unique) (auto simp: kfs_ok_def)
  moreover have "file_with t' j bs \<and> file_bytes t' j bs = buf" using t'(5) [OF k(4,8)] k(5) by simp
  moreover have "unat (f_size (files t' ! j)) < 0x8000" using t'(4) k(7) assms(13) by (simp add: PROGRAM_BUF_def)
  ultimately obtain u where u: "load_executable fname t' = Some (0, buf, u)"
    using load_executable_file [OF t'(2), of fname "Some j" "\<lambda>_. bs"] by auto
  have "file_with t' i cs \<and> file_bytes t' i cs = file_bytes (vol s) i cs"
    if i: "i \<noteq> j" "file_with (vol s) i cs" "\<forall>x\<in>set cs. data_start_sector (root (vol s)) \<le> x" for i cs
  proof -
    have "file_with k i cs \<and> file_bytes k i cs = file_bytes (vol s) i cs"
      using i k(3) r(1) by (intro file_same) (auto simp: file_with_def vol_keeps_def)
    then show ?thesis using t'(5) [of i cs] i(3) r(2) by simp
  qed
  then show ?thesis using k(1,2) t'(1) u by auto
qed

lemma formatted_room:
  assumes "root k = format_root" and "\<And>b. b < sector_limit \<Longrightarrow> bitmap_get (block_bitmap k) b = Some (b < 3)"
  shows "1 < card (free_blocks k)"
proof -
  have "{3, 4} \<subseteq> free_blocks k"
    using assms(2) [of 3] assms(2) [of 4] by (simp add: free_blocks_def marked_def assms(1) format_root_def FS_MAX_SECTORS_def)
  then have "card {3, 4 :: u16} \<le> card (free_blocks k)" by (intro card_mono) auto
  then show ?thesis by simp
qed

theorem util_write_then_load_witness:
  "\<exists>s s' t' u. mfs_format zero_ustate = Some s \<and> util_write zero_block [0x41] [1, 2, 3] s = Some (0, s') \<and>
     mfs_init (Some (kdisk (vol s'))) boot_kstate = (0, t') \<and> load_executable [0x41] t' = Some (0, [1, 2, 3], u)"
proof -
  obtain s where s: "mfs_format zero_ustate = Some s" "kfs_ok (vol s)" "root (vol s) = format_root"
    "files (vol s) = replicate FENTRY_COUNT zero_file" "program_buf s = program_buf zero_ustate"
    "\<And>b. b < sector_limit \<Longrightarrow> bitmap_get (block_bitmap (vol s)) b = Some (b < 3)"
    using format_ok [of zero_ustate] by (auto simp: zero_ustate_def length_zero_block)
  have m: "MAX_FILES = Suc 23" "FENTRY_COUNT = Suc 23" by (simp_all add: MAX_FILES_def mfs_consts)
  have "\<not> same_name [0x41] zero_file" by code_simp
  then have "first_match [0x41] (files (vol s)) MAX_FILES r \<Longrightarrow> r = None" for r
    by (cases r) (auto simp: first_match_def s(4) m)
  then have new: "find_file_u [0x41] (vol s) = Some None"
    using find_loop_first [of 0 MAX_FILES "files (vol s)" "[0x41]"] by (auto simp: find_file_u_def s(4) m)
  have slot: "free_slot (files (vol s)) 0 MAX_FILES = Some (Some 0)"
    unfolding m s(4) free_slot.simps by (simp add: zero_file_def)
  have "\<exists>s' t' u. util_write zero_block [0x41] [1, 2, 3] s = Some (0, s') \<and> mfs_init (Some (kdisk (vol s'))) boot_kstate = (0, t') \<and>
    load_executable [0x41] t' = Some (0, [1, 2, 3], u) \<and>
    (\<forall>i bs. i \<noteq> 0 \<and> file_with (vol s) i bs \<and> (\<forall>x\<in>set bs. data_start_sector (root (vol s)) \<le> x) \<longrightarrow>
      file_with t' i bs \<and> file_bytes t' i bs = file_bytes (vol s) i bs)"
    by (rule util_write_then_load)
      (use s new slot boot_kstate_buffers formatted_room [OF s(3,6)] in
        \<open>simp_all add: meta_below_def meta_apart_def format_root_def MAX_FILES_def zero_file_def zero_ustate_def length_zero_block mfs_consts PROGRAM_BUF_def\<close>)
  then show ?thesis using s(1) by blast
qed

section \<open>Deleting with the tool\<close>

lemma find_loop_cong:
  assumes "n \<le> length fs" and "n \<le> length fs'" and "\<And>i. i < n \<Longrightarrow> same_name fname (fs' ! i) = same_name fname (fs ! i)"
  shows "find_loop fname fs' 0 n = find_loop fname fs 0 n"
proof -
  obtain r where r: "find_loop fname fs 0 n = Some r" "first_match fname fs n r"
    using find_loop_first [of 0 n fs fname] assms(1) by auto
  obtain r' where r': "find_loop fname fs' 0 n = Some r'" "first_match fname fs' n r'"
    using find_loop_first [of 0 n fs' fname] assms(2) by auto
  have "r' = r"
    using r(2) r'(2) assms(3) by (auto simp: first_match_def split: option.splits) (metis linorder_neqE_nat order.strict_trans)+
  then show ?thesis using r r' by simp
qed

text \<open>
  Deleting with the tool gives no space back. Whatever file is deleted, the bitmap stays as it was and
  the entry keeps its name and its used flag: the blocks of the file are never allocated again, and
  the tool still finds the deleted file. Only the count of files is decremented.
\<close>

theorem util_delete_leaks:
  assumes "kfs_ok k" and "find_file_u fname k = Some (Some i)"
  shows "\<exists>k'. mfs_delete_u fname k = Some (0, k') \<and> block_bitmap k' = block_bitmap k \<and> free_blocks k' = free_blocks k \<and>
    find_file_u fname k' = Some (Some i) \<and> f_used (files k' ! i) = f_used (files k ! i) \<and> f_size (files k' ! i) = 0 \<and>
    filecount (root k') = filecount (root k) - 1"
proof -
  obtain d tb where e: "erase_loop (f_block (files k ! i)) (kdisk k) (tempbuf k) = (d, tb)" by fastforce
  let ?f = "(files k ! i)\<lparr>f_flags := 0, f_size := 0, f_block := 0, f_block_size := 0\<rparr>"
  let ?k = "write_changes (k\<lparr>kdisk := d, tempbuf := tb, files := (files k)[i := ?f], root := (root k)\<lparr>filecount := filecount (root k) - 1\<rparr>\<rparr>)"
  have l: "length (files k) = MAX_FILES" using assms(1) by (simp add: kfs_ok_def MAX_FILES_def mfs_consts)
  then have il: "i < length (files k)"
    using assms(2) find_loop_first [of 0 MAX_FILES "files k" fname] by (auto simp: find_file_u_def first_match_def)
  have "find_file_u fname ?k = find_file_u fname k"
    unfolding find_file_u_def using l il by (intro find_loop_cong) (simp_all add: nth_list_update same_name_def)
  moreover have "mfs_delete_u fname k = Some (0, ?k)" using assms(2) e by (simp add: mfs_delete_u_def Let_def)
  moreover have "free_blocks ?k = free_blocks k" by (auto simp: free_blocks_def marked_def)
  ultimately show ?thesis using assms(2) il by simp
qed

theorem util_delete_leaks_witness:
  "\<exists>k'. mfs_delete_u [0x41] two_files = Some (0, k') \<and> find_file_u [0x41] k' = Some (Some 0)"
proof -
  have "find_file_u [0x41] two_files = Some (Some 0)" by code_simp
  from util_delete_leaks [OF two_files_ok(1) this] show ?thesis by blast
qed

end
