(* ===== verification/Edit.thy ===== *)
theory Edit
  imports Sys Clib
begin

text \<open>
  The text editor (\<^verbatim>\<open>userland/edit.c\<close>) as a Manux program. A line of the buffer is the string in
  it; the bytes behind the terminator are never read. The characters printed are kept in order.
  \<^verbatim>\<open>SEEK_SET\<close> is the constant of \<^verbatim>\<open>sys/fcntl.h\<close>, which the program is compiled with.
  \<open>stk\<close> holds the bytes that an uninitialised local buffer happens to have.
\<close>

section \<open>State\<close>

record editor =
  ek :: kernel
  typed :: "u8 list"
  lines :: "u8 list list"
  num_lines :: nat
  filefd :: int
  printed :: "u8 list"

definition MAX_LINE_LEN :: nat where "MAX_LINE_LEN = 96"
definition MAX_LINES :: nat where "MAX_LINES = 150"

definition say :: "u8 list \<Rightarrow> editor \<Rightarrow> editor" where
  "say msg e = e\<lparr>printed := printed e @ msg\<rparr>"

text \<open>\<^verbatim>\<open>read(0, buf, n)\<close> for a buffer of \<open>n\<close> bytes.\<close>

definition read_stdin :: "u8 list \<Rightarrow> editor \<Rightarrow> (u8 list \<times> editor) option" where
  "read_stdin buf e = do {
     (n, buf1, rest, k) \<leftarrow> sys_read 0 buf (of_nat (length buf)) (typed e) (ek e);
     Some (buf1, e\<lparr>ek := k, typed := rest\<rparr>)
   }"

definition add_line :: "u8 list \<Rightarrow> editor \<Rightarrow> editor" where
  "add_line s e = e\<lparr>lines := (lines e)[num_lines e := s], num_lines := num_lines e + 1\<rparr>"

section \<open>Commands\<close>

partial_function (option) append_loop :: "u8 list \<Rightarrow> editor \<Rightarrow> editor option" where
  "append_loop buf e = do {
     (buf1, e1) \<leftarrow> read_stdin buf e;
     s \<leftarrow> cstring buf1;
     if s = bytes_of ''.'' then Some e1
     else if MAX_LINES \<le> num_lines e1 then Some (say (bytes_of ''Maximum number of lines reached'' @ [0x0A]) e1)
     else append_loop buf1 (add_line s e1)
   }"

definition edit_append :: "u8 list \<Rightarrow> editor \<Rightarrow> editor option" where
  "edit_append stk e = append_loop stk e"

definition print_line :: "nat \<Rightarrow> u8 list \<Rightarrow> u8 list" where
  "print_line i s = bytes_of (show_nat (i + 1)) @ [0x09] @ s @ [0x0A]"

definition print_lines :: "editor \<Rightarrow> editor" where
  "print_lines e = say (concat (map (\<lambda>i. print_line i (lines e ! i)) [0..<num_lines e])) e"

text \<open>The bound is the size of the buffer, not the number of lines.\<close>

definition edit_line :: "u8 list \<Rightarrow> int \<Rightarrow> editor \<Rightarrow> editor option" where
  "edit_line stk line e =
     (if line < 1 \<or> int MAX_LINES < line then Some (say (bytes_of ''Invalid line number'' @ [0x0A]) e)
      else do {
        let i = nat line - 1;
        let e1 = say (bytes_of ''Line '' @ bytes_of (show_int line) @ [0x0A] @ bytes_of ''Old: '' @ lines e ! i @
                      [0x0A] @ bytes_of ''New: '') e;
        (buf, e2) \<leftarrow> read_stdin stk e1;
        s \<leftarrow> cstring buf;
        Some (e2\<lparr>lines := (lines e2)[i := s]\<rparr>)
      })"

text \<open>
  The loop of \<^verbatim>\<open>load_file\<close>; \<open>buf\<close> is the part \<^verbatim>\<open>buf[0..i-1]\<close> of the line buffer that has
  been filled. A line is copied as a string, so it ends at a byte 0.
\<close>

definition put_line :: "u8 list \<Rightarrow> editor \<Rightarrow> editor" where
  "put_line buf e = (if num_lines e < MAX_LINES then add_line (takeWhile (\<lambda>c. c \<noteq> 0) buf) e else e)"

partial_function (option) load_file_loop :: "u8 \<Rightarrow> u8 list \<Rightarrow> editor \<Rightarrow> (u8 list \<times> editor) option" where
  "load_file_loop c0 buf e = do {
     (n, cs, rest, k) \<leftarrow> sys_read (filefd e) [c0] 1 (typed e) (ek e);
     let e1 = e\<lparr>ek := k, typed := rest\<rparr>;
     let c = hd cs;
     if n \<noteq> 1 then Some (buf, e1)
     else if c = 0x0D then load_file_loop c buf e1
     else if c = 0x0A then load_file_loop c [] (put_line buf e1)
     else load_file_loop c (if length buf < MAX_LINE_LEN - 1 then buf @ [c] else buf) e1
   }"

text \<open>What follows the seek: the loop, and the last line if it has no newline.\<close>

definition load_lines :: "u8 \<Rightarrow> editor \<Rightarrow> editor option" where
  "load_lines c0 e = do {
     (buf, e1) \<leftarrow> load_file_loop c0 [] e;
     Some (if 0 < length buf then put_line buf e1 else e1)
   }"

definition load_file :: "u8 \<Rightarrow> editor \<Rightarrow> editor option" where
  "load_file c0 e = do {
     (r, k) \<leftarrow> sys_lseek (filefd e) 0 U_SEEK_SET (ek e);
     load_lines c0 (e\<lparr>num_lines := 0, ek := k\<rparr>)
   }"

text \<open>The command \<^verbatim>\<open>w\<close>; the results of the calls are not looked at.\<close>

fun write_lines :: "int \<Rightarrow> u8 list list \<Rightarrow> kernel \<Rightarrow> kernel option" where
  "write_lines fd [] k = Some k"
| "write_lines fd (s # ls) k = do {
     (r, k1) \<leftarrow> sys_write fd s (of_nat (length s)) k;
     (r', k2) \<leftarrow> sys_write fd [0x0A] 1 k1;
     write_lines fd ls k2
   }"

definition save_file :: "editor \<Rightarrow> editor option" where
  "save_file e = do {
     (r, k) \<leftarrow> sys_lseek (filefd e) 0 U_SEEK_SET (ek e);
     k1 \<leftarrow> write_lines (filefd e) (take (num_lines e) (lines e)) k;
     Some (e\<lparr>ek := k1\<rparr>)
   }"

section \<open>The program\<close>

text \<open>\<^verbatim>\<open>atoi\<close>, undefined for a value that is not an \<^verbatim>\<open>int\<close>.\<close>

definition atoi :: "u8 list \<Rightarrow> int option" where
  "atoi s =
     (let t = dropWhile is_space (map (\<lambda>c. char_of (unat c)) s);
          v = (if t \<noteq> [] \<and> hd t = CHR ''-'' then - int (digits 10 0 (tl t))
               else if t \<noteq> [] \<and> hd t = CHR ''+'' then int (digits 10 0 (tl t))
               else int (digits 10 0 t))
      in if - 0x8000 \<le> v \<and> v < 0x8000 then Some v else None)"

text \<open>The commands other than \<^verbatim>\<open>q\<close>.\<close>

definition run_command :: "u8 list \<Rightarrow> u8 list \<Rightarrow> editor \<Rightarrow> editor option" where
  "run_command stk s e =
     (if s = bytes_of ''w'' then save_file e
      else if s = bytes_of ''a'' then edit_append stk e
      else if s = bytes_of ''p'' then Some (print_lines e)
      else if s \<noteq> [] \<and> hd s = of_char (CHR ''e'') then do { line \<leftarrow> atoi (tl s); edit_line stk line e }
      else Some (say (bytes_of ''Invalid command'' @ [0x0A]) e))"

text \<open>\<open>cmd\<close> is the buffer of 128 bytes for the command.\<close>

partial_function (option) command_loop :: "u8 list \<Rightarrow> u8 list \<Rightarrow> editor \<Rightarrow> editor option" where
  "command_loop stk cmd e = do {
     (cmd1, e1) \<leftarrow> read_stdin cmd (say (bytes_of ''> '') e);
     s \<leftarrow> cstring cmd1;
     if s = bytes_of ''q'' then Some e1
     else do { e2 \<leftarrow> run_command stk s e1; command_loop stk cmd1 e2 }
   }"

text \<open>\<^verbatim>\<open>main\<close>: \<open>fname\<close> is the argument, if there is one; \<open>stack\<close> as in \<open>mfs_open\<close>.\<close>

definition edit_main :: "u16 \<Rightarrow> u8 list \<Rightarrow> u8 list \<Rightarrow> u8 list option \<Rightarrow> editor \<Rightarrow> editor option" where
  "edit_main stack stk cmd fname e = do {
     e1 \<leftarrow> (case fname of None \<Rightarrow> Some e
       | Some name \<Rightarrow> do {
           (fd, k) \<leftarrow> sys_open stack name (O_RDWR OR O_CREAT) (ek e);
           load_file 0 (e\<lparr>ek := k, filefd := fd\<rparr>)
         });
     e2 \<leftarrow> command_loop stk cmd (say (bytes_of ''Edit - text editor'' @ [0x0A]) e1);
     Some (e2\<lparr>ek := snd (sys_close (filefd e2) (ek e2))\<rparr>)
   }"

end
