(* ===== verification/Edit_Spec.thy ===== *)
theory Edit_Spec
  imports Edit Sys_Spec
begin

text \<open>
  The editor on the files and the terminal of the kernel: what its loops write to and read from an
  open file, the bounds of its buffers, and a session. The editor is a client of an open file with
  random access, so the facts about writing and reading in sequence are proved for that interface.
\<close>

section \<open>Writing and reading in sequence\<close>

fun write_all :: "(u8 list \<Rightarrow> 's \<Rightarrow> (u16 \<times> 's) option) \<Rightarrow> u8 list list \<Rightarrow> 's \<Rightarrow> 's option" where
  "write_all wr [] s = Some s"
| "write_all wr (d # ds) s = do { (r, s1) \<leftarrow> wr d s; write_all wr ds s1 }"

context random_access
begin

lemma write_all_law:
  assumes "inv s" and "ready s" and "pos s + length (concat ds) < 0xFFFF"
  shows "\<exists>s'. write_all wr ds s = Some s' \<and> inv s' \<and> ready s' \<and> pos s' \<le> pos s + length (concat ds) \<and>
    (pos s' = pos s + length (concat ds) \<longrightarrow> bytes s' = patch (pos s) (concat ds) (bytes s))"
  using assms
proof (induction ds arbitrary: s)
  case Nil
  then show ?case using pos_le [of s] by (simp add: patch_Nil)
next
  case (Cons d ds)
  have "pos s + length d < 0xFFFF" using Cons.prems(3) by simp
  from write_law [OF Cons.prems(1,2) this] obtain r s1 w where
    s1: "wr d s = Some (r, s1)" "inv s1" "ready s1" "w \<le> length d" "bytes s1 = patch (pos s) (take w d) (bytes s)" "pos s1 = pos s + w"
    by blast
  have "pos s1 + length (concat ds) < 0xFFFF" using Cons.prems(3) s1(4,6) by simp
  from Cons.IH [OF s1(2,3) this] obtain s' where
    s': "write_all wr ds s1 = Some s'" "inv s'" "ready s'" "pos s' \<le> pos s1 + length (concat ds)"
      "pos s' = pos s1 + length (concat ds) \<longrightarrow> bytes s' = patch (pos s1) (concat ds) (bytes s1)"
    by blast
  have "bytes s' = patch (pos s) (concat (d # ds)) (bytes s)" if "pos s' = pos s + length (concat (d # ds))"
  proof -
    have "w = length d" using that s1(4,6) s'(4) by simp
    then show ?thesis using that s1(5,6) s'(5) patch_append [of "pos s" d "concat ds" "bytes s"] by simp
  qed
  then show ?case using s1 s' by simp
qed

text \<open>Reading one byte.\<close>

lemma read_byte:
  assumes "inv s"
  shows "\<exists>s'. rd 1 s = Some (if pos s < length (bytes s) then [bytes s ! pos s] else [], s') \<and> inv s' \<and> bytes s' = bytes s \<and>
    pos s' = (if pos s < length (bytes s) then pos s + 1 else pos s)"
proof -
  have "take 1 (drop (pos s) (bytes s)) = (if pos s < length (bytes s) then [bytes s ! pos s] else [])"
    by (simp add: take_Suc_conv_app_nth)
  then show ?thesis using read_law [OF assms, of 1] pos_le [OF assms] by (auto simp: min_def)
qed

end

section \<open>Writing the lines\<close>

lemma write_lines_all:
  assumes "fd_inv fd (kfs k)" and "fd_ready fd (kfs k)" and "fd_pos fd (kfs k) + length (concat (map (\<lambda>l. l @ [0x0A]) ls)) < 0xFFFF"
  shows "write_lines fd ls k = map_option (\<lambda>s. k\<lparr>kfs := s\<rparr>) (write_all (fd_write fd) (concat (map (\<lambda>l. [l, [0x0A]]) ls)) (kfs k))"
  using assms
proof (induction ls arbitrary: k)
  case (Cons l ls)
  have "fd_pos fd (kfs k) + length l < 0xFFFF" using Cons.prems(3) by simp
  from rw.write_law [OF Cons.prems(1,2) this] obtain r s1 w where
    s1: "fd_write fd l (kfs k) = Some (r, s1)" "fd_inv fd s1" "fd_ready fd s1" "w \<le> length l" "fd_pos fd s1 = fd_pos fd (kfs k) + w"
    by blast
  have "fd_pos fd s1 + length [0x0A :: u8] < 0xFFFF" using Cons.prems(3) s1(4,5) by simp
  from rw.write_law [OF s1(2,3) this] obtain r' s2 w' where
    s2: "fd_write fd [0x0A] s1 = Some (r', s2)" "fd_inv fd s2" "fd_ready fd s2" "w' \<le> 1" "fd_pos fd s2 = fd_pos fd s1 + w'"
    by auto
  have w1: "sys_write fd l (of_nat (length l)) k = Some (r, k\<lparr>kfs := s1\<rparr>)" using sys_write_file [OF Cons.prems(1)] s1(1) by simp
  have w2: "sys_write fd [0x0A] 1 (k\<lparr>kfs := s1\<rparr>) = Some (r', k\<lparr>kfs := s2\<rparr>)"
    using sys_write_file [of fd "k\<lparr>kfs := s1\<rparr>" "[0x0A]"] s1(2) s2(1) by simp
  have "write_lines fd ls (k\<lparr>kfs := s2\<rparr>) = map_option (\<lambda>s. k\<lparr>kfs := s\<rparr>) (write_all (fd_write fd) (concat (map (\<lambda>l. [l, [0x0A]]) ls)) s2)"
    using Cons.IH [of "k\<lparr>kfs := s2\<rparr>"] s2(2-5) s1(4,5) Cons.prems(3) by simp
  then show ?case using s1(1) s2(1) by (simp add: w1 w2)
qed simp


section \<open>Lines and text\<close>

text \<open>The buffer of the editor, and the lines in it.\<close>

definition line_ok :: "u8 list \<Rightarrow> bool" where
  "line_ok l \<longleftrightarrow> length l < MAX_LINE_LEN \<and> 0 \<notin> set l"

definition editor_ok :: "editor \<Rightarrow> bool" where
  "editor_ok e \<longleftrightarrow> length (lines e) = MAX_LINES \<and> (\<forall>l\<in>set (lines e). line_ok l) \<and> num_lines e \<le> MAX_LINES"

definition text_of :: "editor \<Rightarrow> u8 list list" where
  "text_of e = take (num_lines e) (lines e)"

definition file_text :: "u8 list list \<Rightarrow> u8 list" where
  "file_text ls = concat (map (\<lambda>l. l @ [0x0A]) ls)"

text \<open>The lines of a text file; \<open>cur\<close> is the line that has been begun.\<close>

fun text_lines :: "u8 list \<Rightarrow> u8 list \<Rightarrow> u8 list list" where
  "text_lines cur [] = (if cur = [] then [] else [cur])"
| "text_lines cur (c # cs) =
     (if c = 0x0D then text_lines cur cs
      else if c = 0x0A then cur # text_lines [] cs
      else text_lines (cur @ [c]) cs)"

text \<open>What the editor keeps of a line.\<close>

definition clip_line :: "u8 list \<Rightarrow> u8 list" where
  "clip_line l = takeWhile (\<lambda>c. c \<noteq> 0) (take (MAX_LINE_LEN - 1) l)"

lemma text_lines_line:
  "0x0A \<notin> set l \<Longrightarrow> 0x0D \<notin> set l \<Longrightarrow> text_lines cur (l @ 0x0A # rest) = (cur @ l) # text_lines [] rest"
  by (induction l arbitrary: cur) auto

lemma text_lines_file: "\<forall>l\<in>set ls. 0x0A \<notin> set l \<and> 0x0D \<notin> set l \<Longrightarrow> text_lines [] (file_text ls) = ls"
  by (induction ls) (simp_all add: file_text_def text_lines_line)

lemma clip_line_ok: "line_ok l \<Longrightarrow> clip_line l = l" "line_ok (clip_line l)"
proof -
  show "line_ok l \<Longrightarrow> clip_line l = l" by (auto simp: line_ok_def clip_line_def)
  have "length (clip_line l) \<le> length (take (MAX_LINE_LEN - 1) l)" unfolding clip_line_def by (rule length_takeWhile_le)
  also have "\<dots> < MAX_LINE_LEN" by (simp add: MAX_LINE_LEN_def)
  finally show "line_ok (clip_line l)" by (auto simp: line_ok_def clip_line_def dest: set_takeWhileD)
qed

section \<open>Saving and loading\<close>

lemma write_lines_ok:
  assumes "fd_inv fd (kfs k)" and "fd_ready fd (kfs k)" and "fd_pos fd (kfs k) + length (file_text ls) < 0xFFFF"
  shows "\<exists>s. write_lines fd ls k = Some (k\<lparr>kfs := s\<rparr>) \<and> fd_inv fd s \<and>
    (fd_pos fd s = fd_pos fd (kfs k) + length (file_text ls) \<longrightarrow>
      fd_bytes fd s = patch (fd_pos fd (kfs k)) (file_text ls) (fd_bytes fd (kfs k)))"
proof -
  let ?ds = "concat (map (\<lambda>l. [l, [0x0A]]) ls)"
  have c: "concat ?ds = file_text ls" by (induction ls) (simp_all add: file_text_def)
  obtain s where s: "write_all (fd_write fd) ?ds (kfs k) = Some s" "fd_inv fd s" "fd_ready fd s"
    "fd_pos fd s = fd_pos fd (kfs k) + length (concat ?ds) \<longrightarrow> fd_bytes fd s = patch (fd_pos fd (kfs k)) (concat ?ds) (fd_bytes fd (kfs k))"
    using rw.write_all_law [OF assms(1,2), of ?ds] assms(3) by (auto simp: c)
  have "write_lines fd ls k = Some (k\<lparr>kfs := s\<rparr>)"
    using write_lines_all [OF assms(1,2)] assms(3) s(1) by (simp add: file_text_def)
  then show ?thesis using s(2,4) c by auto
qed

text \<open>The lines put into the buffer one after the other.\<close>

definition same_text :: "editor \<Rightarrow> editor \<Rightarrow> bool" where
  "same_text e e' \<longleftrightarrow> lines e' = lines e \<and> num_lines e' = num_lines e"

lemma put_line_same: "same_text e e' \<Longrightarrow> same_text (put_line b e) (put_line b e')"
  by (simp add: same_text_def put_line_def add_line_def)

lemma foldl_put_same: "same_text e e' \<Longrightarrow> same_text (foldl (\<lambda>e b. put_line b e) e bs) (foldl (\<lambda>e b. put_line b e) e' bs)"
  by (induction bs arbitrary: e e') (simp_all add: put_line_same)

lemma put_line_text:
  assumes "length (lines e) = MAX_LINES" and "num_lines e \<le> MAX_LINES"
  shows "text_of (put_line (take (MAX_LINE_LEN - 1) l) e) = take MAX_LINES (text_of e @ [clip_line l])"
    "length (lines (put_line b e)) = MAX_LINES" "num_lines (put_line b e) \<le> MAX_LINES"
  using assms by (auto simp: put_line_def add_line_def text_of_def clip_line_def take_Suc_conv_app_nth)

lemma foldl_put_text:
  assumes "length (lines e) = MAX_LINES" and "num_lines e \<le> MAX_LINES"
  shows "text_of (foldl (\<lambda>e b. put_line b e) e (map (take (MAX_LINE_LEN - 1)) ls)) = take MAX_LINES (text_of e @ map clip_line ls)"
  using assms
proof (induction ls arbitrary: e)
  case Nil
  then show ?case by (simp add: text_of_def)
next
  case (Cons l ls)
  have "take MAX_LINES (take MAX_LINES (text_of e @ [clip_line l]) @ map clip_line ls) = take MAX_LINES (text_of e @ clip_line l # map clip_line ls)"
    by (cases "MAX_LINES \<le> length (text_of e)") (simp_all add: not_le take_append)
  then show ?case using Cons.IH [of "put_line (take (MAX_LINE_LEN - 1) l) e"] put_line_text [OF Cons.prems] by simp
qed


lemma load_file_loop_ok:
  assumes "fd_inv (filefd e) (kfs (ek e))" and "buf = take (MAX_LINE_LEN - 1) cur"
    and "drop (fd_pos (filefd e) (kfs (ek e))) (fd_bytes (filefd e) (kfs (ek e))) = bs"
  shows "\<exists>buf' e' s. load_file_loop c0 buf e = Some (buf', e') \<and> ek e' = (ek e)\<lparr>kfs := s\<rparr> \<and> filefd e' = filefd e \<and> typed e' = typed e \<and>
    fd_inv (filefd e) s \<and> fd_bytes (filefd e) s = fd_bytes (filefd e) (kfs (ek e)) \<and>
    same_text (foldl (\<lambda>e b. put_line b e) e (map (take (MAX_LINE_LEN - 1)) (text_lines cur bs))) (if 0 < length buf' then put_line buf' e' else e')"
  using assms
proof (induction bs arbitrary: cur buf e c0)
  case Nil
  let ?fd = "filefd e" and ?s = "kfs (ek e)"
  have "\<not> fd_pos ?fd ?s < length (fd_bytes ?fd ?s)" using Nil(3) by simp
  then obtain s where s: "fd_read ?fd 1 ?s = Some ([], s)" "fd_inv ?fd s" "fd_bytes ?fd s = fd_bytes ?fd ?s"
    using rw.read_byte [OF Nil(1)] by auto
  have r: "load_file_loop c0 buf e = Some (buf, e\<lparr>ek := (ek e)\<lparr>kfs := s\<rparr>\<rparr>)"
    using sys_read_byte [OF Nil(1) s(1), of c0 "typed e"] by (subst load_file_loop.simps) simp
  have "same_text e (e\<lparr>ek := (ek e)\<lparr>kfs := s\<rparr>\<rparr>)" by (simp add: same_text_def)
  then show ?case using r s(2,3) Nil(2) put_line_same by (auto simp: MAX_LINE_LEN_def)
next
  case (Cons c bs)
  let ?fd = "filefd e" and ?s = "kfs (ek e)"
  have p: "fd_pos ?fd ?s < length (fd_bytes ?fd ?s)" using Cons.prems(3) by (metis drop_all linorder_not_le list.distinct(1))
  have c: "fd_bytes ?fd ?s ! fd_pos ?fd ?s = c" "drop (fd_pos ?fd ?s + 1) (fd_bytes ?fd ?s) = bs"
    using Cons.prems(3) Cons_nth_drop_Suc [OF p] by auto
  obtain s where s: "fd_read ?fd 1 ?s = Some ([c], s)" "fd_inv ?fd s" "fd_bytes ?fd s = fd_bytes ?fd ?s" "fd_pos ?fd s = fd_pos ?fd ?s + 1"
    using rw.read_byte [OF Cons.prems(1)] p c(1) by auto
  let ?e = "e\<lparr>ek := (ek e)\<lparr>kfs := s\<rparr>\<rparr>"
  have r: "load_file_loop c0 buf e = (if c = 0x0D then load_file_loop c buf ?e else if c = 0x0A then load_file_loop c [] (put_line buf ?e)
      else load_file_loop c (if length buf < MAX_LINE_LEN - 1 then buf @ [c] else buf) ?e)"
    using sys_read_byte [OF Cons.prems(1) s(1), of c0 "typed e"] by (subst load_file_loop.simps) simp
  have same: "same_text e ?e" by (simp add: same_text_def)
  have pl: "filefd (put_line buf ?e) = ?fd" "ek (put_line buf ?e) = (ek e)\<lparr>kfs := s\<rparr>" "typed (put_line buf ?e) = typed e"
    by (simp_all add: put_line_def add_line_def)
  have IH: "\<exists>buf' e' s'. load_file_loop c b x = Some (buf', e') \<and> ek e' = (ek e)\<lparr>kfs := s'\<rparr> \<and> filefd e' = ?fd \<and> typed e' = typed e \<and>
      fd_inv ?fd s' \<and> fd_bytes ?fd s' = fd_bytes ?fd ?s \<and>
      same_text (foldl (\<lambda>e b. put_line b e) y (map (take (MAX_LINE_LEN - 1)) (text_lines cur' bs))) (if 0 < length buf' then put_line buf' e' else e')"
    if "b = take (MAX_LINE_LEN - 1) cur'" "filefd x = ?fd" "ek x = (ek e)\<lparr>kfs := s\<rparr>" "typed x = typed e" "same_text y x" for b x y cur'
    using Cons.IH [of x b cur' c] that s c(2) foldl_put_same [OF that(5)] by (fastforce simp: same_text_def)
  consider "c = 0x0D" | "c = 0x0A" | "c \<noteq> 0x0D" "c \<noteq> 0x0A" by blast
  then show ?case
  proof cases
    case 1
    then show ?thesis using IH [OF Cons.prems(2) _ _ _ same] r by simp
  next
    case 2
    then show ?thesis using IH [of "[]" "[]", OF _ pl put_line_same [OF same]] r Cons.prems(2) by simp
  next
    case 3
    have "(if length buf < MAX_LINE_LEN - 1 then buf @ [c] else buf) = take (MAX_LINE_LEN - 1) (cur @ [c])"
      using Cons.prems(2) by (auto simp: min_def)
    from IH [OF this _ _ _ same] show ?thesis using r 3 by simp
  qed
qed

lemma load_lines_ok:
  assumes "editor_ok e" and "fd_inv (filefd e) (kfs (ek e))"
  obtains e' s where "load_lines c0 e = Some e'" and "ek e' = (ek e)\<lparr>kfs := s\<rparr>"
    and "fd_inv (filefd e) s" and "fd_bytes (filefd e) s = fd_bytes (filefd e) (kfs (ek e))"
    and "text_of e' = take MAX_LINES (text_of e @ map clip_line (text_lines [] (drop (fd_pos (filefd e) (kfs (ek e))) (fd_bytes (filefd e) (kfs (ek e))))))"
proof -
  let ?fd = "filefd e" and ?s = "kfs (ek e)"
  let ?b = "drop (fd_pos ?fd ?s) (fd_bytes ?fd ?s)"
  obtain buf' e' s where l: "load_file_loop c0 [] e = Some (buf', e')" "ek e' = (ek e)\<lparr>kfs := s\<rparr>"
    "fd_inv ?fd s" "fd_bytes ?fd s = fd_bytes ?fd ?s"
    "same_text (foldl (\<lambda>e b. put_line b e) e (map (take (MAX_LINE_LEN - 1)) (text_lines [] ?b))) (if 0 < length buf' then put_line buf' e' else e')"
    using load_file_loop_ok [OF assms(2), of "[]" "[]" ?b c0] by auto
  let ?e' = "if 0 < length buf' then put_line buf' e' else e'"
  have "load_lines c0 e = Some ?e'" using l(1) by (simp add: load_lines_def)
  moreover have "text_of ?e' = take MAX_LINES (text_of e @ map clip_line (text_lines [] ?b))"
    using l(5) foldl_put_text [of e "text_lines [] ?b"] assms(1) by (simp add: same_text_def text_of_def editor_ok_def)
  moreover have "ek ?e' = ek e'" by (simp add: put_line_def add_line_def)
  ultimately show thesis using l by (intro that [of ?e' s]) simp_all
qed

text \<open>
  C34: What the editor reads from a file. From an open file, at whatever position it is, the loop of
  \<^verbatim>\<open>load_file\<close> returns and adds to the text the lines of the rest of the file: carriage
  returns dropped, each line cut to 95 characters and at a byte 0, and at most 150 lines in all. The
  last line counts without a newline unless it is empty. The file is not changed. (The seek in front
  of the loop is not part of this: it has no defined result.)
\<close>

theorem editor_loads_text:
  assumes "editor_ok e" and "fd_inv (filefd e) (kfs (ek e))"
  shows "\<exists>e'. load_lines c0 e = Some e' \<and>
    text_of e' = take MAX_LINES (text_of e @
      map clip_line (text_lines [] (drop (fd_pos (filefd e) (kfs (ek e))) (fd_bytes (filefd e) (kfs (ek e)))))) \<and>
    fd_bytes (filefd e) (kfs (ek e')) = fd_bytes (filefd e) (kfs (ek e))"
  using load_lines_ok [OF assms, of c0 thesis for thesis] by force

text \<open>
  C23: Writing and reading back. The loop of the command \<^verbatim>\<open>w\<close> returns; when it has written the
  whole text from a position on (the disk did not fill up), the text lies over the file's bytes
  there. When the older version does not reach behind it, the loop of \<^verbatim>\<open>load_file\<close>, from a
  descriptor set back to that position as the kernel defines seeking, reads the same lines again.
  (The seeks that \<^verbatim>\<open>edit.c\<close> itself makes in front of the two loops have no defined result.)
\<close>

theorem editor_save_load:
  assumes "editor_ok e" and "fd_inv (filefd e) (kfs (ek e))" and "fd_ready (filefd e) (kfs (ek e))"
    and "\<forall>l\<in>set (text_of e). 0x0A \<notin> set l \<and> 0x0D \<notin> set l" and "unat p = fd_pos (filefd e) (kfs (ek e))"
    and "unat p + length (file_text (text_of e)) < 0xFFFF"
  defines "old \<equiv> fd_bytes (filefd e) (kfs (ek e))" and "new \<equiv> file_text (text_of e)"
  shows "\<exists>s1. write_lines (filefd e) (text_of e) (ek e) = Some ((ek e)\<lparr>kfs := s1\<rparr>) \<and>
    (fd_pos (filefd e) s1 = unat p + length new \<longrightarrow>
      fd_bytes (filefd e) s1 = patch (unat p) new old \<and>
      (length old \<le> unat p + length new \<longrightarrow>
        (\<exists>s2 e2. mfs_seek (filefd e) p SEEK_SET s1 = Some (p, s2) \<and>
          load_lines c0 (e\<lparr>num_lines := 0, ek := (ek e)\<lparr>kfs := s2\<rparr>\<rparr>) = Some e2 \<and> text_of e2 = text_of e)))"
proof -
  let ?fd = "filefd e"
  obtain s1 where s1: "write_lines ?fd (text_of e) (ek e) = Some ((ek e)\<lparr>kfs := s1\<rparr>)" "fd_inv ?fd s1"
    "fd_pos ?fd s1 = unat p + length new \<longrightarrow> fd_bytes ?fd s1 = patch (unat p) new old"
    using write_lines_ok [OF assms(2,3), of "text_of e"] assms(5,6) unfolding old_def new_def by auto
  have "\<exists>s2 e2. mfs_seek ?fd p SEEK_SET s1 = Some (p, s2) \<and>
      load_lines c0 (e\<lparr>num_lines := 0, ek := (ek e)\<lparr>kfs := s2\<rparr>\<rparr>) = Some e2 \<and> text_of e2 = text_of e"
    if "fd_pos ?fd s1 = unat p + length new" "length old \<le> unat p + length new"
  proof -
    have b: "fd_bytes ?fd s1 = patch (unat p) new old" using s1(3) that(1) by blast
    have "unat p \<le> length old" using rw.pos_le [OF assms(2)] assms(5) by (simp add: old_def)
    then have r: "drop (unat p) (fd_bytes ?fd s1) = new" "unat p \<le> length (fd_bytes ?fd s1)"
      using that(2) by (simp_all add: b patch_def)
    obtain s2 where s2: "fd_seek ?fd p s1 = Some s2" "fd_inv ?fd s2" "fd_bytes ?fd s2 = fd_bytes ?fd s1" "fd_pos ?fd s2 = unat p"
      using rw.seek_law [OF s1(2) r(2)] by blast
    let ?e = "e\<lparr>num_lines := 0, ek := (ek e)\<lparr>kfs := s2\<rparr>\<rparr>"
    have ok: "editor_ok ?e" "fd_inv (filefd ?e) (kfs (ek ?e))" using assms(1) s2(2) by (simp_all add: editor_ok_def)
    obtain e2 where e2: "load_lines c0 ?e = Some e2" "text_of e2 = take MAX_LINES (map clip_line (text_lines [] new))"
      using load_lines_ok [OF ok, of c0] s2(3,4) r(1) by (auto simp: text_of_def)
    have "text_lines [] new = text_of e" using text_lines_file [OF assms(4)] by (simp add: new_def)
    moreover have "map clip_line (text_of e) = text_of e"
      using assms(1) clip_line_ok(1) by (intro map_idI) (auto simp: editor_ok_def text_of_def dest: in_set_takeD)
    moreover have "length (text_of e) \<le> MAX_LINES" using assms(1) by (simp add: editor_ok_def text_of_def)
    ultimately show ?thesis using e2 mfs_seek_pos [OF s1(2) s2(1)] by simp
  qed
  then show ?thesis using s1 by blast
qed

definition demo_editor :: editor where
  "demo_editor = \<lparr>ek = \<lparr>kfs = (demo_open 3 0 3)\<lparr>fd_table := (fd_table (demo_open 3 0 3))(0 := demo_stdin)\<rparr>, ktty = demo_tty, pih = \<lparr>pih_magic = 0, pih_size = 0, pih_entry = 0, pih_flags = 0,
       pih_exitcode = 0, pih_argc = 0, pih_argv = []\<rparr>, umem = \<lambda>_. 0\<rparr>,
     typed = [], lines = [0x41, 0x42, 0x43] # replicate 149 [], num_lines = 1, filefd = 3, printed = []\<rparr>"

lemma demo_editor_ok: "editor_ok demo_editor" "fd_inv (filefd demo_editor) (kfs (ek demo_editor))"
    "fd_ready (filefd demo_editor) (kfs (ek demo_editor))" "text_of demo_editor = [[0x41, 0x42, 0x43]]"
    "fd_bytes (filefd demo_editor) (kfs (ek demo_editor)) = [7, 8, 9]" "filefd demo_editor = 3" "fd_pos (filefd demo_editor) (kfs (ek demo_editor)) = 0"
proof -
  have x: "nat 3 \<noteq> 0" "e_type demo_stdin \<noteq> FD_TYPE_FILE"
    using fd_types(1) by (simp_all add: demo_stdin_def)
  show "fd_inv (filefd demo_editor) (kfs (ek demo_editor))" "fd_ready (filefd demo_editor) (kfs (ek demo_editor))"
    "fd_bytes (filefd demo_editor) (kfs (ek demo_editor)) = [7, 8, 9]"
    using other_entry [OF x, of "demo_open 3 0 3"] demo_small by (simp_all add: demo_editor_def)
  show "fd_pos (filefd demo_editor) (kfs (ek demo_editor)) = 0"
    using demo_small(4) by (simp add: demo_editor_def fd_pos_def)
qed (simp_all add: demo_editor_def editor_ok_def line_ok_def MAX_LINE_LEN_def MAX_LINES_def text_of_def)

theorem editor_loads_text_witness:
  "\<exists>e'. load_lines 0 demo_editor = Some e' \<and> text_of e' = [[0x41, 0x42, 0x43], [7, 8, 9]]"
proof -
  have "clip_line [7, 8, 9] = [7, 8, 9]" by (simp add: clip_line_def MAX_LINE_LEN_def)
  then show ?thesis
    using editor_loads_text [OF demo_editor_ok(1,2), of 0] unfolding demo_editor_ok(4,5,7) by (auto simp: MAX_LINES_def)
qed

lemma fd_bytes_blocks: "fd_inv fd s \<Longrightarrow> length (fd_bytes fd s) \<le> BLOCK_DATA * length (blocks_of s (fd_file fd s))"
  using fd_invD(3,4) [of fd s] by (simp add: file_with_def)

text \<open>A write that stays in the current block of the file needs no new block and is complete.\<close>

lemma fd_write_inside:
  assumes "fd_inv fd s" and "fd_ready fd s" and "fd_pos fd s < BLOCK_DATA * length (blocks_of s (fd_file fd s))"
    and "fd_pos fd s mod BLOCK_DATA + length data < BLOCK_DATA" and "fd_pos fd s + length data < 0xFFFF"
  shows "\<exists>r s'. fd_write fd data s = Some (r, s') \<and> fd_inv fd s' \<and> fd_ready fd s' \<and> fd_pos fd s' = fd_pos fd s + length data"
proof -
  let ?e = "fd_table s (nat fd)" and ?i = "fd_file fd s" and ?n = "of_nat (length data) :: u16"
  have e: "fd_get fd = Some (nat fd)" "e_type ?e = FD_TYPE_FILE" "e_file ?e = Some ?i" "e_flags ?e = FD_FLAGS_READ OR FD_FLAGS_WRITE"
    and c: "cursor_at (sector (kdisk s)) (total_sectors (root s)) (blocks_of s ?i) ?e"
    using assms(1) by (simp_all add: fd_inv_def open_at_def)
  have cur: "e_cur_block ?e \<noteq> 0" "e_cur_block ?e < total_sectors (root s)"
    using cursor_inside [OF c assms(3) [unfolded fd_pos_def]] by blast+
  have n: "unat ?n = length data" using assms(5) by (simp add: unat_of_nat)
  have o: "unat (e_block_offset ?e) + length data < BLOCK_DATA" using c assms(4) by (simp add: cursor_at_def fd_pos_def)
  then have "unat (data_size - e_block_offset ?e) = BLOCK_DATA - unat (e_block_offset ?e)"
    by (subst unat_sub) (simp_all add: word_le_nat_alt data_size_unat)
  then have lt: "?n < data_size - e_block_offset ?e" using o n by (simp add: word_less_nat_alt)
  obtain r s' w where w: "fd_write fd data s = Some (r, s')" "fd_inv fd s'" "fd_ready fd s'" "fd_pos fd s' = fd_pos fd s + w"
    "r = ?n \<and> w = length data \<or> r = -1 \<and> w < length data"
    using fd_write_full [OF assms(1,2), of data] assms(5) by force
  from w(1) obtain e' s'' where l: "write_loop data ?i ?n 0 ?e s = Some (r, e', s'')"
    using e rw_flags by (auto simp: fd_write_def mfs_write_def Let_def split: Option.bind_splits)
  have "r = ?n"
  proof (cases "?n = 0")
    case True
    then show ?thesis using l by (subst (asm) write_loop.simps) simp
  next
    case False
    then have pos: "0 < ?n" by (simp add: word_gt_0)
    have x: "extend_chain ?i ?e s = Some (Some ?e, s)" using cur by (simp add: extend_chain_def linorder_not_le [symmetric])
    obtain v e2 s2 where v: "write_block data ?i ?n ?e s = Some (v, e2, s2)"
      using l pos x by (subst (asm) write_loop.simps) (cases "write_block data ?i ?n ?e s"; auto)
    have vn: "v = ?n" using v lt by (auto simp: write_block_def Let_def split: if_splits)
    have "write_loop (drop (unat v) data) ?i (?n - v) (0 + v) e2 s2 = Some (r, e', s'')"
      using l pos x v by (subst (asm) write_loop.simps) simp
    then show ?thesis by (subst (asm) write_loop.simps) (simp add: vn)
  qed
  moreover have "unat (- 1 :: u16) = 0xFFFF" by (simp add: unsigned_minus_1_eq_mask mask_eq_exp_minus_1)
  then have "?n \<noteq> -1" using n assms(5) by auto
  ultimately show ?thesis using w by auto
qed

theorem editor_save_load_witness:
  "\<exists>s1 s2 e2. write_lines 3 [[0x41, 0x42, 0x43]] (ek demo_editor) = Some ((ek demo_editor)\<lparr>kfs := s1\<rparr>) \<and>
     mfs_seek 3 0 SEEK_SET s1 = Some (0, s2) \<and>
     load_lines 0 (demo_editor\<lparr>num_lines := 0, ek := (ek demo_editor)\<lparr>kfs := s2\<rparr>\<rparr>) = Some e2 \<and> text_of e2 = [[0x41, 0x42, 0x43]]"
proof -
  let ?k = "ek demo_editor" and ?l = "[0x41, 0x42, 0x43] :: u8 list"
  note d = demo_editor_ok [unfolded demo_editor_ok(6)]
  have "0 < BLOCK_DATA * length (blocks_of (kfs ?k) (fd_file 3 (kfs ?k)))"
    using fd_bytes_blocks [OF d(2)] arg_cong [OF d(5), of length] by (simp only: list.size)
  then obtain r1 s1 where s1: "fd_write 3 ?l (kfs ?k) = Some (r1, s1)" "fd_inv 3 s1" "fd_ready 3 s1" "fd_pos 3 s1 = 3"
    using fd_write_inside [OF d(2,3), of ?l, unfolded d(7)] by (auto simp: mfs_consts)
  have "3 \<le> BLOCK_DATA * length (blocks_of s1 (fd_file 3 s1))"
    using fd_bytes_blocks [OF s1(2)] fd_invD(5) [OF s1(2)] s1(4) by linarith
  then have "3 < BLOCK_DATA * length (blocks_of s1 (fd_file 3 s1))"
    by (cases "blocks_of s1 (fd_file 3 s1)") (simp_all add: mfs_consts)
  then obtain r2 s2 where s2: "fd_write 3 [0x0A] s1 = Some (r2, s2)" "fd_inv 3 s2" "fd_pos 3 s2 = 4"
    using fd_write_inside [OF s1(2,3), of "[0x0A]"] s1(4) by (auto simp: mfs_consts)
  have "write_lines 3 [?l] ?k = Some (?k\<lparr>kfs := s2\<rparr>)"
    using sys_write_file [OF d(2), of ?l] sys_write_file [of 3 "?k\<lparr>kfs := s1\<rparr>" "[0x0A]"] s1(1,2) s2(1) by simp
  then have eq: "s1 = s2" if "write_lines 3 [?l] ?k = Some (?k\<lparr>kfs := s1\<rparr>)" for s1
    using that by (metis kernel.select_convs(1) kernel.surjective kernel.update_convs(1) option.inject)
  have l: "length (file_text [?l]) = 4" by (simp add: file_text_def)
  have "\<forall>l\<in>set [?l]. 0x0A \<notin> set l \<and> 0x0D \<notin> set l" by simp
  from editor_save_load [OF demo_editor_ok(1-3), of 0 0, unfolded demo_editor_ok(4,5,6,7) d(5,7) l, OF this]
  obtain s1 where w: "write_lines 3 [?l] ?k = Some (?k\<lparr>kfs := s1\<rparr>)" "fd_pos 3 s1 = 4 \<Longrightarrow> \<exists>s2 e2. mfs_seek 3 0 SEEK_SET s1 = Some (0, s2) \<and>
      load_lines 0 (demo_editor\<lparr>num_lines := 0, ek := ?k\<lparr>kfs := s2\<rparr>\<rparr>) = Some e2 \<and> text_of e2 = [?l]"
    by auto
  from w(2) show ?thesis using w(1) eq [OF w(1)] s2(3) by blast
qed

text \<open>
  C35: The value of \<^verbatim>\<open>SEEK_SET\<close> in \<^verbatim>\<open>sys/fcntl.h\<close> is 0, and for 0 the kernel's \<^verbatim>\<open>mfs_seek\<close>
  computes the new position from an uninitialised variable. So no program can go back to the
  beginning of an open file, and the editor has no defined behaviour once it has opened one.
\<close>

theorem userland_seek_undefined:
  assumes "fd_inv (filefd e) (kfs (ek e))"
  shows "sys_lseek (filefd e) p U_SEEK_SET (ek e) = None \<and> load_file c0 e = None \<and> save_file e = None"
proof -
  have "mfs_seek (filefd e) p U_SEEK_SET (kfs (ek e)) = None" for p
    using assms by (simp add: mfs_seek_def fd_inv_def U_SEEK_SET_def SEEK_SET_def SEEK_CUR_def SEEK_END_def)
  then show ?thesis
    by (simp add: sys_lseek_def load_file_def save_file_def)
qed

theorem userland_seek_undefined_witness: "sys_lseek 3 0 U_SEEK_SET (ek demo_editor) = None"
  using userland_seek_undefined [OF demo_editor_ok(2), of 0] by (simp add: demo_editor_def)

section \<open>The buffers of the editor\<close>

lemma cstring_line: "cstring buf = Some s \<Longrightarrow> length buf = MAX_LINE_LEN \<Longrightarrow> line_ok s"
  using length_cstring [of buf s] cstring_not_0 [of buf s] by (simp add: line_ok_def)

lemma add_line_ok: "editor_ok e \<Longrightarrow> line_ok s \<Longrightarrow> num_lines e < MAX_LINES \<Longrightarrow> editor_ok (add_line s e)"
  using set_update_subset_insert [of "lines e" "num_lines e" s] by (auto simp: editor_ok_def add_line_def)

section \<open>Typing\<close>

lemma read_stdin_line:
  assumes "stdin_ok (ek e)" and "typed e = keys l @ rest" and "plain l" and "length l < length buf" and "length buf < 0x8000"
  shows "\<exists>buf' t. read_stdin buf e = Some (buf', e\<lparr>ek := (ek e)\<lparr>ktty := t\<rparr>, typed := rest\<rparr>) \<and> length buf' = length buf \<and> cstring buf' = Some l"
  using sys_read_line [OF assms(1,3-5), of rest] assms(2) by (auto simp: read_stdin_def)

text \<open>Lines typed to \<^verbatim>\<open>append\<close> while there is room for them; the loop goes on behind them.\<close>

lemma append_loop_typed:
  assumes "editor_ok e" and "stdin_ok (ek e)" and "length buf = MAX_LINE_LEN" and "typed e = concat (map keys ls) @ rest"
    and "\<forall>l\<in>set ls. plain l \<and> length l < MAX_LINE_LEN \<and> l \<noteq> bytes_of ''.''" and "num_lines e + length ls \<le> MAX_LINES"
  shows "\<exists>buf' e' t. append_loop buf e = append_loop buf' e' \<and> length buf' = MAX_LINE_LEN \<and> text_of e' = text_of e @ ls \<and>
    num_lines e' = num_lines e + length ls \<and> typed e' = rest \<and> ek e' = (ek e)\<lparr>ktty := t\<rparr> \<and> filefd e' = filefd e \<and>
    printed e' = printed e \<and> editor_ok e'"
  using assms
proof (induction ls arbitrary: e buf)
  case Nil
  then show ?case by (intro exI [of _ buf] exI [of _ e] exI [of _ "ktty (ek e)"]) simp
next
  case (Cons l ls)
  let ?rest = "concat (map keys ls) @ rest"
  have l: "plain l" "length l < length buf" "l \<noteq> bytes_of ''.''" "length buf < 0x8000"
    using Cons.prems(3,5) by (simp_all add: MAX_LINE_LEN_def)
  obtain buf' t where r: "read_stdin buf e = Some (buf', e\<lparr>ek := (ek e)\<lparr>ktty := t\<rparr>, typed := ?rest\<rparr>)" "length buf' = length buf" "cstring buf' = Some l"
    using read_stdin_line [OF Cons.prems(2) _ l(1,2,4), of ?rest] Cons.prems(4) by auto
  let ?e = "add_line l (e\<lparr>ek := (ek e)\<lparr>ktty := t\<rparr>, typed := ?rest\<rparr>)"
  have step: "append_loop buf e = append_loop buf' ?e"
    using r l(3) Cons.prems(6) by (subst append_loop.simps) simp
  have ok: "editor_ok ?e" using Cons.prems(1,6) cstring_line [OF r(3)] r(2) Cons.prems(3)
    by (intro add_line_ok) (simp_all add: editor_ok_def)
  have t: "text_of ?e = text_of e @ [l]"
    using Cons.prems(1,6) by (simp add: text_of_def add_line_def editor_ok_def take_Suc_conv_app_nth)
  have "\<exists>buf'' e' t'. append_loop buf' ?e = append_loop buf'' e' \<and> length buf'' = MAX_LINE_LEN \<and> text_of e' = text_of ?e @ ls \<and>
      num_lines e' = num_lines ?e + length ls \<and> typed e' = rest \<and> ek e' = (ek ?e)\<lparr>ktty := t'\<rparr> \<and> filefd e' = filefd ?e \<and>
      printed e' = printed ?e \<and> editor_ok e'"
    using Cons.prems r(2) by (intro Cons.IH ok) (simp_all add: add_line_def stdin_ok_def)
  then show ?case unfolding step t by (auto simp: add_line_def)
qed

lemma append_loop_dot:
  assumes "stdin_ok (ek e)" and "length buf = MAX_LINE_LEN" and "typed e = keys (bytes_of ''.'') @ rest"
  shows "\<exists>t. append_loop buf e = Some (e\<lparr>ek := (ek e)\<lparr>ktty := t\<rparr>, typed := rest\<rparr>)"
proof -
  obtain buf' t where "read_stdin buf e = Some (buf', e\<lparr>ek := (ek e)\<lparr>ktty := t\<rparr>, typed := rest\<rparr>)" "cstring buf' = Some (bytes_of ''.'')"
    using read_stdin_line [of e "bytes_of ''.''" rest buf] assms by (auto simp: plain_def MAX_LINE_LEN_def)
  then show ?thesis by (intro exI [of _ t]) (subst append_loop.simps, simp)
qed

lemma append_lines:
  assumes "editor_ok e" and "stdin_ok (ek e)" and "length stk = MAX_LINE_LEN" and "typed e = concat (map keys ls) @ keys (bytes_of ''.'') @ rest"
    and "\<forall>l\<in>set ls. plain l \<and> length l < MAX_LINE_LEN \<and> l \<noteq> bytes_of ''.''" and "num_lines e + length ls \<le> MAX_LINES"
  shows "\<exists>e' t. edit_append stk e = Some e' \<and> text_of e' = text_of e @ ls \<and> num_lines e' = num_lines e + length ls \<and>
    typed e' = rest \<and> ek e' = (ek e)\<lparr>ktty := t\<rparr> \<and> filefd e' = filefd e \<and> printed e' = printed e \<and> editor_ok e'"
proof -
  obtain buf e1 t where e1: "append_loop stk e = append_loop buf e1" "length buf = MAX_LINE_LEN" "text_of e1 = text_of e @ ls"
    "num_lines e1 = num_lines e + length ls" "typed e1 = keys (bytes_of ''.'') @ rest" "ek e1 = (ek e)\<lparr>ktty := t\<rparr>" "filefd e1 = filefd e"
    "printed e1 = printed e" "editor_ok e1"
    using append_loop_typed [OF assms] by blast
  have "stdin_ok (ek e1)" using e1(6) assms(2) by simp
  then show ?thesis using append_loop_dot [OF _ e1(2,5)] e1 by (auto simp: edit_append_def text_of_def editor_ok_def)
qed

text \<open>
  C33: The bounds of \<^verbatim>\<open>append\<close>. Lines of at most 95 characters are added to the buffer in order
  until a line of one dot; when the buffer has 150 lines the next line typed is dropped with a
  message, and the buffer stays a buffer of 150 terminated strings that fit into their 96 bytes. A
  line of 96 characters is too long: the read stores its terminator behind the local buffer, and
  \<^verbatim>\<open>append\<close> has no defined result.
\<close>

theorem append_bounds:
  assumes "editor_ok e" and "stdin_ok (ek e)" and "length stk = MAX_LINE_LEN" and "typed e = concat (map keys ls) @ rest"
    and "\<forall>l\<in>set ls. plain l \<and> length l < MAX_LINE_LEN \<and> l \<noteq> bytes_of ''.''" and "num_lines e + length ls \<le> MAX_LINES"
  shows "(rest = keys (bytes_of ''.'') @ rest' \<longrightarrow>
      (\<exists>e'. edit_append stk e = Some e' \<and> text_of e' = text_of e @ ls \<and> typed e' = rest' \<and> printed e' = printed e \<and> editor_ok e')) \<and>
    (rest = keys l @ rest' \<longrightarrow> plain l \<and> length l < MAX_LINE_LEN \<and> l \<noteq> bytes_of ''.'' \<and> num_lines e + length ls = MAX_LINES \<longrightarrow>
      (\<exists>e'. edit_append stk e = Some e' \<and> text_of e' = text_of e @ ls \<and> typed e' = rest' \<and>
        printed e' = printed e @ bytes_of ''Maximum number of lines reached'' @ [0x0A] \<and> editor_ok e')) \<and>
    (rest = l @ rest' \<longrightarrow> plain l \<and> length l = MAX_LINE_LEN \<longrightarrow> edit_append stk e = None \<and>
      (\<exists>buf t. length buf = MAX_LINE_LEN \<and> sysc_read 0 96 buf rest ((ek e)\<lparr>ktty := t\<rparr>) = Some (Read_line Overrun)))"
proof -
  obtain buf e1 t where e1: "append_loop stk e = append_loop buf e1" "length buf = MAX_LINE_LEN" "text_of e1 = text_of e @ ls"
    "num_lines e1 = num_lines e + length ls" "typed e1 = rest" "ek e1 = (ek e)\<lparr>ktty := t\<rparr>" "printed e1 = printed e" "editor_ok e1"
    using append_loop_typed [OF assms] by blast
  have sd: "stdin_ok (ek e1)" using e1(6) assms(2) by simp
  have dot: "\<exists>e'. edit_append stk e = Some e' \<and> text_of e' = text_of e @ ls \<and> typed e' = rest' \<and> printed e' = printed e \<and> editor_ok e'"
    if "rest = keys (bytes_of ''.'') @ rest'"
    using append_loop_dot [OF sd e1(2), of rest'] that e1 by (auto simp: edit_append_def text_of_def editor_ok_def)
  have full: "\<exists>e'. edit_append stk e = Some e' \<and> text_of e' = text_of e @ ls \<and> typed e' = rest' \<and>
        printed e' = printed e @ bytes_of ''Maximum number of lines reached'' @ [0x0A] \<and> editor_ok e'"
    if r: "rest = keys l @ rest'" and l: "plain l \<and> length l < MAX_LINE_LEN \<and> l \<noteq> bytes_of ''.'' \<and> num_lines e + length ls = MAX_LINES"
  proof -
    obtain buf' t' where "read_stdin buf e1 = Some (buf', e1\<lparr>ek := (ek e1)\<lparr>ktty := t'\<rparr>, typed := rest'\<rparr>)" "cstring buf' = Some l"
      using read_stdin_line [OF sd trans [OF e1(5) r], of buf] l e1(2) by (auto simp: MAX_LINE_LEN_def)
    then have "append_loop buf e1 = Some (say (bytes_of ''Maximum number of lines reached'' @ [0x0A]) (e1\<lparr>ek := (ek e1)\<lparr>ktty := t'\<rparr>, typed := rest'\<rparr>))"
      using l e1(4) by (subst append_loop.simps) simp
    then show ?thesis using e1 by (auto simp: edit_append_def say_def text_of_def editor_ok_def)
  qed
  have over: "edit_append stk e = None" "sysc_read 0 96 buf rest ((ek e)\<lparr>ktty := t\<rparr>) = Some (Read_line Overrun)"
    if "rest = l @ rest'" "plain l \<and> length l = MAX_LINE_LEN"
  proof -
    have "kgets_loop 96 0 buf (l @ rest') t = Overrun"
      using that(2) e1(2) by (intro kgets_loop_fill) (auto simp: plain_def is_newline_def MAX_LINE_LEN_def)
    then show o: "sysc_read 0 96 buf rest ((ek e)\<lparr>ktty := t\<rparr>) = Some (Read_line Overrun)"
      using that(1) assms(2) by (simp add: sysc_read_def stdin_ok_def kgetslen_def FD_MAX_def)
    have "read_stdin buf e1 = None" using o e1(2,5,6) by (simp add: read_stdin_def sys_read_def MAX_LINE_LEN_def)
    then show "edit_append stk e = None" using e1(1) by (simp add: edit_append_def) (subst append_loop.simps, simp)
  qed
  show ?thesis using dot full over e1(2) by blast
qed

text \<open>One command: its line is read, and it is run.\<close>

lemma command_step:
  assumes "stdin_ok (ek e)" and "typed e = keys s @ rest" and "plain s" and "length s < length cmd" and "length cmd < 0x8000"
  obtains cmd' t where "length cmd' = length cmd" and "command_loop stk cmd e =
      (let e1 = e\<lparr>ek := (ek e)\<lparr>ktty := t\<rparr>, typed := rest, printed := printed e @ bytes_of ''> ''\<rparr>
       in if s = bytes_of ''q'' then Some e1 else do { e2 \<leftarrow> run_command stk s e1; command_loop stk cmd' e2 })"
proof -
  let ?e = "say (bytes_of ''> '') e"
  have eq: "e\<lparr>printed := p, ek := k, typed := x\<rparr> = e\<lparr>ek := k, typed := x, printed := p\<rparr>" for p k x by (cases e) simp
  obtain cmd' t where r: "read_stdin cmd ?e = Some (cmd', ?e\<lparr>ek := (ek e)\<lparr>ktty := t\<rparr>, typed := rest\<rparr>)"
    "length cmd' = length cmd" "cstring cmd' = Some s"
    using read_stdin_line [of ?e s rest cmd] assms by (auto simp: say_def)
  then have "command_loop stk cmd e =
      (let e1 = e\<lparr>ek := (ek e)\<lparr>ktty := t\<rparr>, typed := rest, printed := printed e @ bytes_of ''> ''\<rparr>
       in if s = bytes_of ''q'' then Some e1 else do { e2 \<leftarrow> run_command stk s e1; command_loop stk cmd' e2 })"
    using eq by (subst command_loop.simps) (simp add: say_def Let_def)
  with r(2) show thesis by (rule that)
qed

section \<open>A session\<close>

lemma atoi_show_nat: "n < 0x8000 \<Longrightarrow> atoi (bytes_of (show_nat n)) = Some (int n)"
proof -
  assume n: "n < 0x8000"
  obtain d cs where d: "show_nat n = digit_char d # cs" "d < 10" using show_nat_digits [of n] by (cases "show_nat n") auto
  then have "dropWhile is_space (show_nat n) = show_nat n" "hd (show_nat n) \<noteq> CHR ''-''" "hd (show_nat n) \<noteq> CHR ''+''"
    using digit_char_not_space by (auto simp: digit_char_eq)
  then show ?thesis using n char_bytes [of "show_nat n"] digits_show_nat [of n] by (simp add: atoi_def Let_def)
qed

lemma show_nat_typed: "n \<le> MAX_LINES \<Longrightarrow> plain (bytes_of (show_nat n)) \<and> length (show_nat n) \<le> 3"
proof
  have "(of_char (digit_char d) :: u8) \<noteq> x" if "d < 10" "unat x < 48 \<or> 57 < unat x" for d x
    using that of_digit_char [of d] unat_of_char [of "digit_char d"] by auto
  then show "plain (bytes_of (show_nat n))" using show_nat_digits [of n] by (fastforce simp: plain_def)
  assume "n \<le> MAX_LINES"
  then show "length (show_nat n) \<le> 3"
    by (subst show_nat.simps, subst show_nat.simps, subst show_nat.simps) (auto simp: MAX_LINES_def)
qed

text \<open>The command that replaces a line.\<close>

lemma edit_command:
  assumes "editor_ok e" and "stdin_ok (ek e)" and "length stk = MAX_LINE_LEN" and "typed e = keys l @ rest" and "plain l" and "length l < MAX_LINE_LEN"
    and "1 \<le> n" and "n \<le> num_lines e"
  shows "\<exists>e' t. run_command stk (bytes_of (CHR ''e'' # show_nat n)) e = Some e' \<and> text_of e' = (text_of e)[n - 1 := l] \<and>
    num_lines e' = num_lines e \<and> typed e' = rest \<and> ek e' = (ek e)\<lparr>ktty := t\<rparr> \<and> filefd e' = filefd e \<and>
    printed e' = printed e @ bytes_of ''Line '' @ bytes_of (show_nat n) @ [0x0A] @ bytes_of ''Old: '' @ text_of e ! (n - 1) @
      [0x0A] @ bytes_of ''New: '' \<and> editor_ok e'"
proof -
  have n: "n \<le> MAX_LINES" "n < 0x8000" using assms(1,8) by (simp_all add: editor_ok_def MAX_LINES_def)
  let ?m = "bytes_of ''Line '' @ bytes_of (show_nat n) @ [0x0A] @ bytes_of ''Old: '' @ text_of e ! (n - 1) @ [0x0A] @ bytes_of ''New: ''"
  have ty: "stdin_ok (ek (say ?m e))" "typed (say ?m e) = keys l @ rest" using assms(2,4) by (simp_all add: say_def)
  obtain buf t where r: "read_stdin stk (say ?m e) = Some (buf, (say ?m e)\<lparr>ek := (ek e)\<lparr>ktty := t\<rparr>, typed := rest\<rparr>)" "cstring buf = Some l"
    using read_stdin_line [OF ty assms(5), of stk] assms(3,6) by (auto simp: MAX_LINE_LEN_def say_def)
  have i: "lines e ! (n - 1) = text_of e ! (n - 1)" using assms(7,8) by (simp add: text_of_def)
  let ?e = "(say ?m e)\<lparr>ek := (ek e)\<lparr>ktty := t\<rparr>, typed := rest, lines := (lines e)[n - 1 := l]\<rparr>"
  have "line_ok l" using assms(5,6) by (auto simp: line_ok_def plain_def)
  then have ok: "editor_ok ?e" using assms(1) set_update_subset_insert [of "lines e" "n - 1" l] by (auto simp: editor_ok_def say_def)
  have "edit_line stk (int n) e = Some ?e"
    using r n assms(7) i by (simp add: edit_line_def Let_def show_int_def say_def)
  moreover have "run_command stk (bytes_of (CHR ''e'' # show_nat n)) e = edit_line stk (int n) e"
    using atoi_show_nat [OF n(2)] by (simp add: run_command_def)
  moreover have "text_of ?e = (text_of e)[n - 1 := l]" by (simp add: text_of_def take_update_swap say_def)
  ultimately show ?thesis using ok by (intro exI [of _ ?e] exI [of _ t] conjI) (simp_all add: say_def)
qed

text \<open>The numbered listing of a text.\<close>

definition listing :: "u8 list list \<Rightarrow> u8 list" where
  "listing ls = concat (map (\<lambda>(i, l). bytes_of (show_nat (i + 1)) @ [0x09] @ l @ [0x0A]) (enumerate 0 ls))"

lemma print_lines_listing: "editor_ok e \<Longrightarrow> print_lines e = say (listing (text_of e)) e"
proof -
  assume ok: "editor_ok e"
  then have l: "length (text_of e) = num_lines e" by (simp add: editor_ok_def text_of_def)
  have "map (\<lambda>i. print_line i (lines e ! i)) [0..<num_lines e] =
      map (\<lambda>(i, l). bytes_of (show_nat (i + 1)) @ [0x09] @ l @ [0x0A]) (enumerate 0 (text_of e))"
    using l by (intro nth_equalityI) (auto simp: print_line_def nth_enumerate_eq text_of_def)
  then show ?thesis by (simp add: print_lines_def listing_def)
qed

text \<open>
  C22: A session without a file. Typing \<^verbatim>\<open>a\<close>, the lines of a text, \<^verbatim>\<open>.\<close>, the command that
  replaces line \<open>n\<close>, its new text, \<^verbatim>\<open>p\<close> and \<^verbatim>\<open>q\<close> runs the editor from \<^verbatim>\<open>main\<close> to its
  end: its text is the old text with the lines behind it and line \<open>n\<close> replaced, the dialogue with
  the numbered listing of that text is printed, what was typed behind it is not read, and the file
  system is as before. (The lines have at most 95 characters and the text at most 150 lines.)
\<close>

theorem editor_session:
  assumes "editor_ok e" and "stdin_ok (ek e)" and "filefd e = -1" and "length stk = MAX_LINE_LEN" and "length cmd = 128"
    and "\<forall>l\<in>set ls. plain l \<and> length l < MAX_LINE_LEN \<and> l \<noteq> bytes_of ''.''" and "num_lines e + length ls \<le> MAX_LINES"
    and "1 \<le> n" and "n \<le> num_lines e + length ls" and "plain new" and "length new < MAX_LINE_LEN"
    and "typed e = keys (bytes_of ''a'') @ concat (map keys ls) @ keys (bytes_of ''.'') @
      keys (bytes_of (CHR ''e'' # show_nat n)) @ keys new @ keys (bytes_of ''p'') @ keys (bytes_of ''q'') @ rest"
  shows "\<exists>e'. edit_main stack stk cmd None e = Some e' \<and> text_of e' = (text_of e @ ls)[n - 1 := new] \<and> typed e' = rest \<and>
    kfs (ek e') = kfs (ek e) \<and>
    printed e' = printed e @ bytes_of ''Edit - text editor'' @ [0x0A] @ bytes_of ''> > '' @
      bytes_of ''Line '' @ bytes_of (show_nat n) @ [0x0A] @ bytes_of ''Old: '' @ (text_of e @ ls) ! (n - 1) @ [0x0A] @ bytes_of ''New: '' @
      bytes_of ''> '' @ listing ((text_of e @ ls)[n - 1 := new]) @ bytes_of ''> ''"
proof -
  let ?msg = "bytes_of ''Edit - text editor'' @ [0x0A]"
  have pl: "plain (bytes_of ''a'')" "plain (bytes_of ''p'')" "plain (bytes_of ''q'')" by (simp_all add: plain_def)
  have "n \<le> MAX_LINES" using assms(7,9) by simp
  then have pn: "plain (bytes_of (CHR ''e'' # show_nat n))" "length (bytes_of (CHR ''e'' # show_nat n)) < 128"
    using show_nat_typed [of n] by (auto simp: plain_def)
  let ?q = "keys (bytes_of ''q'') @ rest"
  let ?p = "keys (bytes_of ''p'') @ ?q"
  let ?e = "keys (bytes_of (CHR ''e'' # show_nat n)) @ keys new @ ?p"
  have a: "stdin_ok (ek (say ?msg e))" "typed (say ?msg e) = keys (bytes_of ''a'') @ concat (map keys ls) @ keys (bytes_of ''.'') @ ?e"
    using assms(2,12) by (simp_all add: say_def)
  obtain c1 t1 where c1: "length c1 = 128" "command_loop stk cmd (say ?msg e) =
      do { e2 \<leftarrow> edit_append stk ((say ?msg e)\<lparr>ek := (ek e)\<lparr>ktty := t1\<rparr>, typed := concat (map keys ls) @ keys (bytes_of ''.'') @ ?e,
             printed := printed e @ ?msg @ bytes_of ''> ''\<rparr>); command_loop stk c1 e2 }"
    by (rule command_step [OF a pl(1), of cmd stk]) (use assms(5) in \<open>simp_all add: run_command_def Let_def say_def\<close>)
  let ?e1 = "(say ?msg e)\<lparr>ek := (ek e)\<lparr>ktty := t1\<rparr>, typed := concat (map keys ls) @ keys (bytes_of ''.'') @ ?e, printed := printed e @ ?msg @ bytes_of ''> ''\<rparr>"
  obtain e2 t2 where e2: "edit_append stk ?e1 = Some e2" "text_of e2 = text_of e @ ls" "num_lines e2 = num_lines e + length ls" "typed e2 = ?e"
    "ek e2 = (ek e)\<lparr>ktty := t2\<rparr>" "filefd e2 = filefd e" "printed e2 = printed e @ ?msg @ bytes_of ''> ''" "editor_ok e2"
    using append_lines [of ?e1 stk ls ?e] assms(1,2,4,6,7) by (auto simp: text_of_def editor_ok_def say_def)
  have sd: "stdin_ok (ek e2)" using assms(2) e2(5) by simp
  obtain c2 t3 where c2: "length c2 = 128" "command_loop stk c1 e2 =
      do { e3 \<leftarrow> run_command stk (bytes_of (CHR ''e'' # show_nat n)) (e2\<lparr>ek := (ek e2)\<lparr>ktty := t3\<rparr>, typed := keys new @ ?p, printed := printed e2 @ bytes_of ''> ''\<rparr>);
           command_loop stk c2 e3 }"
    by (rule command_step [OF sd e2(4) pn(1), of c1 stk]) (use c1(1) pn(2) in \<open>simp_all add: Let_def\<close>)
  let ?e3 = "e2\<lparr>ek := (ek e2)\<lparr>ktty := t3\<rparr>, typed := keys new @ ?p, printed := printed e2 @ bytes_of ''> ''\<rparr>"
  have ok3: "editor_ok ?e3" "stdin_ok (ek ?e3)" "typed ?e3 = keys new @ ?p" "n \<le> num_lines ?e3" "text_of ?e3 = text_of e @ ls"
    using e2(2,3,8) sd assms(9) by (simp_all add: editor_ok_def text_of_def)
  obtain e4 t4 where e4: "run_command stk (bytes_of (CHR ''e'' # show_nat n)) ?e3 = Some e4" "text_of e4 = (text_of e @ ls)[n - 1 := new]"
    "num_lines e4 = num_lines ?e3" "typed e4 = ?p" "ek e4 = (ek e)\<lparr>ktty := t4\<rparr>" "filefd e4 = filefd e"
    "printed e4 = printed ?e3 @ bytes_of ''Line '' @ bytes_of (show_nat n) @ [0x0A] @ bytes_of ''Old: '' @ (text_of e @ ls) ! (n - 1) @
      [0x0A] @ bytes_of ''New: ''" "editor_ok e4"
    using edit_command [OF ok3(1,2) assms(4) ok3(3) assms(10,11,8) ok3(4)] e2(5,6) unfolding ok3(5) by auto
  have sd4: "stdin_ok (ek e4)" using assms(2) e4(5) by simp
  obtain c3 t5 where c3: "length c3 = 128" "command_loop stk c2 e4 =
      command_loop stk c3 (print_lines (e4\<lparr>ek := (ek e4)\<lparr>ktty := t5\<rparr>, typed := ?q, printed := printed e4 @ bytes_of ''> ''\<rparr>))"
    by (rule command_step [OF sd4 e4(4) pl(2), of c2 stk]) (use c2(1) in \<open>simp_all add: run_command_def Let_def\<close>)
  let ?e5 = "e4\<lparr>ek := (ek e4)\<lparr>ktty := t5\<rparr>, typed := ?q, printed := printed e4 @ bytes_of ''> ''\<rparr>"
  have "editor_ok ?e5" "text_of ?e5 = text_of e4" using e4(8) by (simp_all add: editor_ok_def text_of_def)
  then have e5: "print_lines ?e5 = say (listing (text_of e4)) ?e5" using print_lines_listing by simp
  let ?e6 = "say (listing (text_of e4)) ?e5"
  have sd6: "stdin_ok (ek ?e6)" "typed ?e6 = ?q" using sd4 by (simp_all add: say_def)
  obtain t6 where e6: "command_loop stk c3 ?e6 = Some (?e6\<lparr>ek := (ek ?e6)\<lparr>ktty := t6\<rparr>, typed := rest, printed := printed ?e6 @ bytes_of ''> ''\<rparr>)"
    by (rule command_step [OF sd6 pl(3), of c3 stk]) (use c3(1) in \<open>simp_all add: Let_def\<close>)
  have "sys_close (-1) k = (1, k)" for k by (simp add: sys_close_def fd_close.simps)
  then have "edit_main stack stk cmd None e =
      Some (?e6\<lparr>ek := (ek ?e6)\<lparr>ktty := t6\<rparr>, typed := rest, printed := printed ?e6 @ bytes_of ''> ''\<rparr>)"
    using c1(2) e2(1) c2(2) e4(1,6) c3(2) e5 e6 assms(3) by (simp add: edit_main_def say_def)
  moreover have "text_of (?e6\<lparr>ek := k, typed := ty, printed := pr\<rparr>) = text_of e4" for k ty pr by (simp add: text_of_def say_def)
  ultimately show ?thesis using e2(5,7) e4(2,5,7) by (simp add: say_def)
qed

text \<open>An editor started without a file, with one line in its buffer.\<close>

definition demo_typing :: "u8 list \<Rightarrow> editor" where
  "demo_typing inp = demo_editor\<lparr>filefd := -1, typed := inp\<rparr>"

lemma demo_typing_ok: "editor_ok (demo_typing inp)" "stdin_ok (ek (demo_typing inp))" "text_of (demo_typing inp) = [[0x41, 0x42, 0x43]]"
    "num_lines (demo_typing inp) = 1" "typed (demo_typing inp) = inp" "filefd (demo_typing inp) = -1"
  using demo_editor_ok(1,4)
  by (simp_all add: demo_typing_def editor_ok_def text_of_def) (simp_all add: stdin_ok_def demo_editor_def demo_stdin_def)

theorem editor_session_witness:
  "\<exists>e'. edit_main 0 (replicate 96 0) (replicate 128 0) None (demo_typing (keys (bytes_of ''a'') @ keys [0x44] @ keys (bytes_of ''.'') @
     keys (bytes_of (CHR ''e'' # show_nat 1)) @ keys [0x45] @ keys (bytes_of ''p'') @ keys (bytes_of ''q''))) = Some e' \<and>
     text_of e' = [[0x45], [0x44]] \<and> typed e' = []"
proof -
  let ?inp = "keys (bytes_of ''a'') @ keys [0x44] @ keys (bytes_of ''.'') @
     keys (bytes_of (CHR ''e'' # show_nat 1)) @ keys [0x45] @ keys (bytes_of ''p'') @ keys (bytes_of ''q'')"
  note d = demo_typing_ok [of ?inp]
  have t: "typed (demo_typing ?inp) = keys (bytes_of ''a'') @ concat (map keys [[0x44]]) @ keys (bytes_of ''.'') @
     keys (bytes_of (CHR ''e'' # show_nat 1)) @ keys [0x45] @ keys (bytes_of ''p'') @ keys (bytes_of ''q'') @ []"
    unfolding d(5) by simp
  have l: "\<forall>l\<in>set [[0x44 :: u8]]. plain l \<and> length l < MAX_LINE_LEN \<and> l \<noteq> bytes_of ''.''" "plain [0x45]" "length [0x45 :: u8] < MAX_LINE_LEN"
    by (simp_all add: plain_def MAX_LINE_LEN_def)
  have n: "num_lines (demo_typing ?inp) + length [[0x44 :: u8]] \<le> MAX_LINES" "1 \<le> num_lines (demo_typing ?inp) + length [[0x44 :: u8]]"
    "length (replicate 96 (0 :: u8)) = MAX_LINE_LEN" "length (replicate 128 (0 :: u8)) = 128"
    by (simp_all add: demo_typing_ok(4) MAX_LINES_def MAX_LINE_LEN_def)
  from editor_session [OF d(1,2,6) n(3,4) l(1) n(1) order_refl n(2) l(2,3) t, of 0] show ?thesis
    unfolding d(3) by auto
qed

theorem append_bounds_witness:
  "(\<exists>e'. edit_append (replicate 96 0) (demo_typing (keys [0x44] @ keys (bytes_of ''.''))) = Some e' \<and> text_of e' = [[0x41, 0x42, 0x43], [0x44]]) \<and>
   edit_append (replicate 96 0) (demo_typing (keys [0x44] @ replicate 96 0x41)) = None"
proof
  let ?i = "keys [0x44] @ keys (bytes_of ''.'')" and ?j = "keys [0x44] @ replicate 96 0x41"
  have l: "\<forall>l\<in>set [[0x44 :: u8]]. plain l \<and> length l < MAX_LINE_LEN \<and> l \<noteq> bytes_of ''.''" "1 + length [[0x44 :: u8]] \<le> MAX_LINES"
    by (simp_all add: plain_def MAX_LINE_LEN_def MAX_LINES_def)
  have s: "length (replicate 96 (0 :: u8)) = MAX_LINE_LEN" by (simp add: MAX_LINE_LEN_def)
  have "typed (demo_typing ?i) = concat (map keys [[0x44]]) @ keys (bytes_of ''.'')"
    "typed (demo_typing ?j) = concat (map keys [[0x44]]) @ replicate 96 0x41" by (simp_all add: demo_typing_ok(5))
  note t = this
  show "\<exists>e'. edit_append (replicate 96 0) (demo_typing ?i) = Some e' \<and> text_of e' = [[0x41, 0x42, 0x43], [0x44]]"
    using append_bounds [OF demo_typing_ok(1,2) s t(1) l(1), of "[]" "[]"] l(2) unfolding demo_typing_ok(3,4) by auto
  show "edit_append (replicate 96 0) (demo_typing ?j) = None"
    using append_bounds [OF demo_typing_ok(1,2) s t(2) l(1), of "[]" "replicate 96 0x41"] l(2)
    unfolding demo_typing_ok(3,4) by (simp add: plain_def MAX_LINE_LEN_def)
qed

end
