(* ===== verification/Shell.thy ===== *)
theory Shell
  imports Sys Clib
begin

text \<open>
  The shell (\<^verbatim>\<open>userland/shell.c\<close>). \<open>stk\<close> holds the bytes an uninitialised local buffer happens to
  have. When a program is started the shell does not go on: the kernel leaves it for the program
  and comes back when the program ends. \<open>None\<close> is a fault or a wait for a character that is never
  typed; a call through a null function pointer is a result of its own.
\<close>

section \<open>State and output\<close>

record shell =
  sk :: kernel
  styped :: "u8 list"
  uutsname :: "u8 list"

definition put_bytes :: "u8 list \<Rightarrow> shell \<Rightarrow> shell option" where
  "put_bytes s h = do { (r, k) \<leftarrow> sys_write 1 s (of_nat (length s)) (sk h); Some (h\<lparr>sk := k\<rparr>) }"

definition putchr :: "u8 \<Rightarrow> shell \<Rightarrow> shell option" where
  "putchr c h = put_bytes [c] h"

definition putstr :: "u8 list \<Rightarrow> shell \<Rightarrow> shell option" where
  "putstr s h = put_bytes s h"

definition puthex :: "u16 \<Rightarrow> shell \<Rightarrow> shell" where
  "puthex n h = h\<lparr>sk := (sk h)\<lparr>ktty := kputh n (ktty (sk h))\<rparr>\<rparr>"

definition newline :: "shell \<Rightarrow> shell option" where
  "newline h = putchr 0x0A h"

section \<open>Built-in commands\<close>

datatype builtin = Buname | Bls | Bcat | Bclear | Bhelp

definition builtin_cmds :: "u8 list list" where
  "builtin_cmds = map (map of_char) [''uname'', ''ls'', ''cat'', ''clear'', ''help'', '''', '''', '''']"

definition builtin_ptr :: "builtin option list" where
  "builtin_ptr = [Some Buname, Some Bls, Some Bcat, Some Bclear, Some Bhelp, None, None, None]"

fun builtin_loop :: "u8 list \<Rightarrow> u8 list list \<Rightarrow> nat \<Rightarrow> nat option" where
  "builtin_loop cmd [] i = None"
| "builtin_loop cmd (name # names) i = (if name = cmd then Some i else builtin_loop cmd names (Suc i))"

definition get_builtin_cmd :: "u8 list \<Rightarrow> nat option" where
  "get_builtin_cmd cmd = builtin_loop cmd builtin_cmds 0"

definition buname :: "shell \<Rightarrow> shell option" where
  "buname h = do { h1 \<leftarrow> put_bytes (take 45 (uutsname h)) h; newline h1 }"

text \<open>\<^verbatim>\<open>ls\<close>: the names are 12 bytes apart in a buffer of 144 bytes.\<close>

fun ls_loop :: "u8 list \<Rightarrow> nat \<Rightarrow> nat \<Rightarrow> shell \<Rightarrow> shell option" where
  "ls_loop buffer i 0 h = Some h"
| "ls_loop buffer i (Suc n) h = do {
     name \<leftarrow> cstring (drop (12 * i) buffer);
     h1 \<leftarrow> putstr name h;
     h2 \<leftarrow> newline h1;
     ls_loop buffer (Suc i) n h2
   }"

definition bls :: "u8 list \<Rightarrow> shell \<Rightarrow> shell option" where
  "bls stk h = do {
     (count, out) \<leftarrow> mfs_list (kfs (sk h));
     if length stk < length out then None
     else do {
       h1 \<leftarrow> putstr (bytes_of ''File count: '') h;
       h2 \<leftarrow> newline (puthex count h1);
       ls_loop (patch 0 out stk) 0 (nat (sint count)) h2
     }
   }"

text \<open>\<^verbatim>\<open>cat\<close>: the file in chunks of at most 255 bytes.\<close>

function cat_loop :: "int \<Rightarrow> u8 list \<Rightarrow> u16 \<Rightarrow> shell \<Rightarrow> shell option" where
  "cat_loop fd buffer remaining h =
     (if 0 < remaining then do {
        let to_read = (if remaining < 255 then remaining else 255);
        (r, buffer1, rest, k) \<leftarrow> sys_read fd buffer to_read (styped h) (sk h);
        (r', k1) \<leftarrow> sys_write 1 buffer1 to_read k;
        cat_loop fd buffer1 (remaining - to_read) (h\<lparr>sk := k1, styped := rest\<rparr>)
      }
      else Some h)"
  by pat_completeness auto
termination
proof (relation "measure (\<lambda>(fd, buffer, remaining, h). unat remaining)", goal_cases)
  case (2 fd buffer remaining h to_read)
  then have le: "to_read \<le> remaining" and "to_read \<noteq> 0" by auto
  then have "0 < unat to_read" by (simp add: unat_gt_0)
  then have "unat (remaining - to_read) < unat remaining" using le by (simp add: unat_sub word_le_nat_alt)
  then show ?case by simp
qed simp

declare cat_loop.simps [simp del]

text \<open>Without an argument \<^verbatim>\<open>argv[1]\<close> is null.\<close>

definition bcat :: "u16 \<Rightarrow> u8 list \<Rightarrow> u8 list list \<Rightarrow> shell \<Rightarrow> shell option" where
  "bcat stack stk argv h =
     (if length argv < 2 then None
      else do {
        let fname = argv ! 1;
        (fd, k) \<leftarrow> sys_open stack fname O_RDONLY (sk h);
        let h1 = h\<lparr>sk := k\<rparr>;
        if fd = -1 then putstr (bytes_of ''Error opening file'' @ [0x0A, 0x0D]) h1
        else do {
          filesize \<leftarrow> mfs_filesize fname (kfs k);
          if filesize = -1 then putstr (bytes_of ''Error getting file size'' @ [0x0A, 0x0D]) h1
          else do {
            h2 \<leftarrow> (if sint filesize < 255 then do {
                     (r, buffer, rest, k1) \<leftarrow> sys_read fd stk filesize (styped h1) k;
                     (r', k2) \<leftarrow> sys_write 1 buffer filesize k1;
                     newline (h1\<lparr>sk := k2, styped := rest\<rparr>)
                   }
                   else cat_loop fd stk filesize h1);
            Some (h2\<lparr>sk := snd (sys_close fd (sk h2))\<rparr>)
          }
        }
      })"

definition bclear :: "shell \<Rightarrow> shell option" where
  "bclear h = putstr ([0x1B] @ bytes_of ''[2J'' @ [0x1B] @ bytes_of ''[H'') h"

fun help_loop :: "u8 list list \<Rightarrow> shell \<Rightarrow> shell option" where
  "help_loop [] h = Some h"
| "help_loop (name # names) h = do { h1 \<leftarrow> putstr name h; h2 \<leftarrow> putstr [0x0A, 0x0D] h1; help_loop names h2 }"

definition bhelp :: "shell \<Rightarrow> shell option" where
  "bhelp h = do { h1 \<leftarrow> putstr (bytes_of ''Available commands:'' @ [0x0A, 0x0D]) h; help_loop builtin_cmds h1 }"

text \<open>\<open>stk\<close> serves for the buffers of \<^verbatim>\<open>ls\<close> (144 bytes) and \<^verbatim>\<open>cat\<close> (255 bytes).\<close>

definition run_builtin :: "u16 \<Rightarrow> u8 list \<Rightarrow> builtin \<Rightarrow> u8 list list \<Rightarrow> shell \<Rightarrow> shell option" where
  "run_builtin stack stk b argv h =
     (case b of Buname \<Rightarrow> buname h | Bls \<Rightarrow> bls (take 144 stk) h | Bcat \<Rightarrow> bcat stack (take 255 stk) argv h
      | Bclear \<Rightarrow> bclear h | Bhelp \<Rightarrow> bhelp h)"

section \<open>The command loop\<close>

text \<open>The vector of arguments: the command and the tokens behind its first space.\<close>

function token_loop :: "nat \<Rightarrow> u8 list \<Rightarrow> u8 list list" where
  "token_loop argc s =
     (case strtok s (bytes_of '' '') of None \<Rightarrow> []
      | Some (tok, rest) \<Rightarrow> if argc < 16 then tok # token_loop (argc + 1) rest else [])"
  by pat_completeness auto
termination by (relation "measure (\<lambda>(argc, s). 16 - argc)") auto

declare token_loop.simps [simp del]

definition shell_argv :: "u8 list \<Rightarrow> u8 list list" where
  "shell_argv command =
     (let cmd = takeWhile (\<lambda>c. c \<noteq> 0x20) command
      in if 0x20 \<in> set command then cmd # token_loop 1 (drop (length cmd + 1) command) else [cmd])"

datatype shell_event = Again | Program | Null_call

text \<open>One round of the loop in \<^verbatim>\<open>main\<close>.\<close>

definition shell_step :: "u16 \<Rightarrow> u8 list \<Rightarrow> shell \<Rightarrow> (shell_event \<times> shell) option" where
  "shell_step stack stk h = do {
     h1 \<leftarrow> putstr (bytes_of ''$ '') h;
     (r, command, rest, k) \<leftarrow> sys_read 0 (replicate 128 0) 128 (styped h1) (sk h1);
     let h2 = h1\<lparr>sk := k, styped := rest\<rparr>;
     line \<leftarrow> cstring command;
     if line = [] then Some (Again, h2)
     else do {
       let argvv = shell_argv line;
       let cmd = hd argvv;
       case get_builtin_cmd cmd of
         Some i \<Rightarrow> (case builtin_ptr ! i of None \<Rightarrow> Some (Null_call, h2)
                   | Some b \<Rightarrow> do { h3 \<leftarrow> run_builtin stack stk b argvv h2; Some (Again, h3) })
       | None \<Rightarrow>
           if take 2 cmd = bytes_of ''./'' then do {
             (code, k1) \<leftarrow> sys_execv (drop 2 cmd) (Some argvv) (sk h2);
             if code = -1 then do { h3 \<leftarrow> putstr (bytes_of ''No such file'' @ [0x0A, 0x0D]) (h2\<lparr>sk := k1\<rparr>); Some (Again, h3) }
             else Some (Program, h2\<lparr>sk := k1\<rparr>)
           }
           else do { h3 \<leftarrow> putstr (bytes_of ''Unknown command'' @ [0x0A, 0x0D]) h2; Some (Again, h3) }
     }
   }"

partial_function (option) shell_loop :: "u16 \<Rightarrow> u8 list \<Rightarrow> shell \<Rightarrow> (shell_event \<times> shell) option" where
  "shell_loop stack stk h = do {
     (ev, h1) \<leftarrow> shell_step stack stk h;
     if ev = Again then shell_loop stack stk h1 else Some (ev, h1)
   }"

text \<open>\<^verbatim>\<open>main\<close>; \<open>info\<close> is the structure the kernel copies for \<^verbatim>\<open>uname\<close>, whose release begins at byte 18.\<close>

definition shell_main :: "u16 \<Rightarrow> u8 list \<Rightarrow> u8 list \<Rightarrow> shell \<Rightarrow> (shell_event \<times> shell) option" where
  "shell_main stack stk info h = do {
     let h1 = h\<lparr>uutsname := info\<rparr>;
     h2 \<leftarrow> putstr (bytes_of ''Manux Shell'' @ [0x0A, 0x0D] @ bytes_of ''Kernel version: '') h1;
     release \<leftarrow> cstring (drop 18 info);
     h3 \<leftarrow> putstr release h2;
     h4 \<leftarrow> putstr [0x0A, 0x0D] h3;
     shell_loop stack stk h4
   }"

end
