(* ===== verification/Shell_Spec.thy ===== *)
theory Shell_Spec
  imports Shell Sys_Spec Kernel_Spec
begin

text \<open>
  The shell: how a line becomes a vector of arguments, that a program gets exactly these, what
  \<^verbatim>\<open>cat\<close> prints, and the line that makes the shell call a null pointer.
\<close>

section \<open>Words\<close>

text \<open>The reference: the words of a line, separated by any number of spaces.\<close>

fun words :: "u8 list \<Rightarrow> u8 list \<Rightarrow> u8 list list" where
  "words cur [] = (if cur = [] then [] else [cur])"
| "words cur (c # cs) =
     (if c = 0x20 then if cur = [] then words [] cs else cur # words [] cs
      else words (cur @ [c]) cs)"

lemma words_word: "0x20 \<notin> set w \<Longrightarrow> cur @ w \<noteq> [] \<Longrightarrow> words cur (w @ 0x20 # rest) = (cur @ w) # words [] rest"
  by (induction w arbitrary: cur) auto

lemma words_last: "0x20 \<notin> set w \<Longrightarrow> words cur w = (if cur @ w = [] then [] else [cur @ w])"
  by (induction w arbitrary: cur) auto

lemma words_spaces: "words [] (dropWhile (\<lambda>c. c = 0x20) s) = words [] s"
  by (induction s) auto

lemma words_span:
  assumes "t \<noteq> []" and "hd t \<noteq> 0x20"
  shows "words [] t = takeWhile (\<lambda>c. c \<noteq> 0x20) t # words [] (drop 1 (dropWhile (\<lambda>c. c \<noteq> 0x20) t))"
proof -
  let ?w = "takeWhile (\<lambda>c. c \<noteq> 0x20) t" and ?r = "dropWhile (\<lambda>c. c \<noteq> 0x20) t"
  have w: "?w \<noteq> []" "0x20 \<notin> set ?w" using assms by (cases t; auto dest: set_takeWhileD)+
  have t: "t = ?w @ ?r" by simp
  show ?thesis
  proof (cases ?r)
    case Nil
    then have "t = ?w" using t by (metis append_Nil2)
    then have "words [] t = [?w]" using w words_last [of ?w "[]"] by simp
    then show ?thesis by (simp only: Nil) simp
  next
    case (Cons c cs)
    then have "c = 0x20" using hd_dropWhile [of "\<lambda>c. c \<noteq> 0x20" t] by simp
    then have "words [] (?w @ ?r) = ?w # words [] cs" using words_word [of ?w "[]" cs] w Cons by simp
    moreover have "?w @ ?r = t" by (rule takeWhile_dropWhile_id)
    ultimately have "words [] t = ?w # words [] cs" by metis
    then show ?thesis by (simp only: Cons) simp
  qed
qed

lemma strtok_words:
  "case strtok s [0x20] of None \<Rightarrow> words [] s = [] | Some (tok, rest) \<Rightarrow> words [] s = tok # words [] rest"
proof -
  let ?t = "dropWhile (\<lambda>c. c = 0x20) s"
  have h: "?t \<noteq> [] \<Longrightarrow> hd ?t \<noteq> 0x20" by (rule hd_dropWhile)
  show ?thesis
  proof (cases "?t = []")
    case True
    then have "words [] s = []" using words_spaces [of s] by (metis words.simps(1))
    then show ?thesis using True by (simp add: strtok_def)
  next
    case False
    then have "strtok s [0x20] = Some (takeWhile (\<lambda>c. c \<noteq> 0x20) ?t, drop 1 (dropWhile (\<lambda>c. c \<noteq> 0x20) ?t))"
      by (simp add: strtok_def Let_def)
    then show ?thesis using words_spaces [of s] words_span [OF False h [OF False]] by simp
  qed
qed

lemma token_loop_words: "token_loop argc s = take (16 - argc) (words [] s)"
proof (induction argc s rule: token_loop.induct)
  case (1 argc s)
  show ?case
  proof (cases "strtok s [0x20 :: u8]")
    case None
    then show ?thesis using strtok_words [of s] by (simp add: token_loop.simps [of argc s])
  next
    case (Some p)
    obtain tok rest where p: "p = (tok, rest)" by (cases p)
    have w: "words [] s = tok # words [] rest" using strtok_words [of s] Some p by simp
    show ?thesis
    proof (cases "argc < 16")
      case True
      then obtain m where m: "16 - argc = Suc m" "16 - (argc + 1) = m" by (cases "16 - argc") auto
      have "token_loop argc s = tok # token_loop (argc + 1) rest" using True Some p by (simp add: token_loop.simps [of argc s])
      moreover have "token_loop (argc + 1) rest = take m (words [] rest)"
        unfolding m(2) [symmetric] by (rule 1) (use True Some p in simp_all)
      ultimately show ?thesis by (simp add: w m(1))
    next
      case False
      then have "token_loop argc s = []" using Some p by (simp add: token_loop.simps [of argc s])
      then show ?thesis using False by simp
    qed
  qed
qed

lemma shell_argv_words:
  assumes "line \<noteq> []" and "hd line \<noteq> 0x20"
  shows "shell_argv line = take 16 (words [] line)"
proof -
  let ?w = "takeWhile (\<lambda>c. c \<noteq> 0x20) line"
  have d: "dropWhile (\<lambda>c. c \<noteq> 0x20) line = drop (length ?w) line" by (simp add: dropWhile_eq_drop)
  note s = words_span [OF assms, unfolded d]
  show ?thesis
  proof (cases "0x20 \<in> set line")
    case True
    then show ?thesis using s by (simp add: shell_argv_def token_loop_words Let_def)
  next
    case False
    then have "?w = line" by (auto simp: takeWhile_eq_all_conv)
    moreover have "words [] line = [line]" using words_last [OF False, of "[]"] assms(1) by simp
    ultimately show ?thesis using False by (simp add: shell_argv_def)
  qed
qed

text \<open>
  C37: The shell's argument vector. A line that does not begin with a space is split into exactly its
  words, whatever the number of spaces between them, of which the first 16 are kept.
\<close>

theorem shell_splits_words:
  assumes "line \<noteq> []" and "hd line \<noteq> 0x20"
  shows "shell_argv line = take 16 (words [] line)"
  by (rule shell_argv_words [OF assms])

theorem shell_splits_words_witness: "shell_argv [0x61, 0x20, 0x20, 0x62] = take 16 (words [] [0x61, 0x20, 0x20, 0x62])"
  by (rule shell_splits_words) simp_all

section \<open>Rounds of the command loop\<close>

definition stdout_ok :: "kernel \<Rightarrow> bool" where
  "stdout_ok k \<longleftrightarrow> e_type (fd_table (kfs k) 1) = FD_TYPE_STDOUT"

definition out :: "u8 list \<Rightarrow> kernel \<Rightarrow> kernel" where
  "out s k = k\<lparr>ktty := (ktty k)\<lparr>tty_data := tty_data (ktty k) @ s\<rparr>\<rparr>"

lemma out_sel [simp]: "kfs (out s k) = kfs k" "stdout_ok (out s k) = stdout_ok k" "stdin_ok (out s k) = stdin_ok k"
    "tty_data (ktty (out s k)) = tty_data (ktty k) @ s" "pih (out s k) = pih k" "umem (out s k) = umem k"
  by (simp_all add: out_def stdout_ok_def stdin_ok_def)

lemma sys_write_stdout: "stdout_ok k \<Longrightarrow> unat n \<le> length s \<Longrightarrow> sys_write 1 s n k = Some (0, out (take (unat n) s) k)"
  by (simp add: sys_write_def sysc_write_def stdout_ok_def kputslen_out out_def FD_MAX_def Let_def)

lemma put_bytes_out: "stdout_ok (sk h) \<Longrightarrow> length s < 0x10000 \<Longrightarrow> put_bytes s h = Some (h\<lparr>sk := out s (sk h)\<rparr>)"
  using sys_write_stdout [of "sk h" "of_nat (length s)" s] by (simp add: put_bytes_def unat_of_nat)

lemma shell_reads:
  assumes "stdin_ok (sk h)" and "stdout_ok (sk h)" and "styped h = keys line @ rest" and "plain line" and "length line < 128"
  obtains t command where "putstr (bytes_of ''$ '') h = Some (h\<lparr>sk := out (bytes_of ''$ '') (sk h)\<rparr>)"
    and "sys_read 0 (replicate 128 0) 128 (styped h) (out (bytes_of ''$ '') (sk h)) =
      Some (of_nat (length line), command, rest, (sk h)\<lparr>ktty := t\<rparr>)" and "cstring command = Some line"
proof -
  have p: "putstr (bytes_of ''$ '') h = Some (h\<lparr>sk := out (bytes_of ''$ '') (sk h)\<rparr>)"
    using put_bytes_out [OF assms(2), of "bytes_of ''$ ''"] by (simp add: putstr_def)
  obtain buf' t where "sys_read 0 (replicate 128 0) (of_nat (length (replicate 128 (0 :: u8)))) (keys line @ rest) (out (bytes_of ''$ '') (sk h)) =
      Some (of_nat (length line), buf', rest, (out (bytes_of ''$ '') (sk h))\<lparr>ktty := t\<rparr>)" "cstring buf' = Some line"
    using sys_read_line [of "out (bytes_of ''$ '') (sk h)" line "replicate 128 0" rest] assms by auto
  then show thesis using p assms(3) by (intro that [of buf' t]) (simp_all add: out_def)
qed

text \<open>
  C36: A space in front of a command. The command is then the empty string, which equals the unused
  entries of the table of built-in commands, and the shell calls the null pointer that is the
  function of such an entry, whatever follows the space.
\<close>

theorem shell_leading_space:
  assumes "stdin_ok (sk h)" and "stdout_ok (sk h)" and "styped h = keys (0x20 # line) @ rest" and "plain line" and "length line < 127"
  shows "\<exists>h'. shell_loop stack stk h = Some (Null_call, h')"
proof -
  have pl: "plain (0x20 # line)" "length (0x20 # line) < 128" using assms(4,5) by (simp_all add: plain_def)
  obtain t command where r: "putstr (bytes_of ''$ '') h = Some (h\<lparr>sk := out (bytes_of ''$ '') (sk h)\<rparr>)"
    "sys_read 0 (replicate 128 0) 128 (styped h) (out (bytes_of ''$ '') (sk h)) = Some (of_nat (length (0x20 # line)), command, rest, (sk h)\<lparr>ktty := t\<rparr>)"
    "cstring command = Some (0x20 # line)"
    by (rule shell_reads [OF assms(1-3) pl])
  have "hd (shell_argv (0x20 # line)) = []" by (simp add: shell_argv_def)
  moreover have "get_builtin_cmd [] = Some 5" by (simp add: get_builtin_cmd_def builtin_cmds_def)
  ultimately have "shell_step stack stk h = Some (Null_call, h\<lparr>sk := (sk h)\<lparr>ktty := t\<rparr>, styped := rest\<rparr>)"
    using r by (simp add: shell_step_def Let_def builtin_ptr_def)
  then show ?thesis by (subst shell_loop.simps) simp
qed


section \<open>Starting a program\<close>

lemma packed_words: "length (packed (words cur s)) \<le> length cur + length s + 1"
proof (induction cur s rule: words.induct)
  case (2 cur c cs)
  then show ?case by (auto simp: packed_simps)
qed (simp add: packed_simps)

lemma words_plain: "w \<in> set (words cur s) \<Longrightarrow> set w \<subseteq> set cur \<union> set s \<and> length w \<le> length cur + length s"
  by (induction cur s rule: words.induct) (fastforce split: if_splits)+

lemma load_executable_keeps:
  "load_executable fname s = Some (r, bytes, s') \<Longrightarrow> find_file fname s' = find_file fname s \<and> files s' = files s"
  by (auto simp: load_executable_def find_file_def Let_def split: if_splits Option.bind_splits)

text \<open>What a program finds in its header: the arguments as an array of pointers to strings.\<close>

definition args_passed :: "PIH_t \<Rightarrow> u8 list list \<Rightarrow> bool" where
  "args_passed h args \<longleftrightarrow> pih_argc h = of_nat (length args) \<and>
     (\<forall>j\<le>length args. let p = get16 (pih_argv h) (ARGV_SIZE - (length args + 1) * 2 + 2 * j) in
        if j < length args then cstr (pih_argv h) (unat (p - PIH_ARGV)) = args ! j else p = 0)"

lemma execv_runs:
  assumes "kfs_ok (kfs k)" and "find_file name (kfs k) = Some (Some i)" and "file_with (kfs k) i bs" and "unat (f_size (files (kfs k) ! i)) < 0x8000"
    and "length args \<le> 16" and "length (packed args) \<le> 208" and "\<forall>a\<in>set args. length a < 0x7F00 \<and> 0 \<notin> set a"
  obtains k' where "execv name (Some args) k = Some (0, k')" and "args_passed (pih k') args"
    and "\<And>j. j < length (file_bytes (kfs k) i bs) \<Longrightarrow> umem k' (USER_CODE_AREA + of_nat j) = file_bytes (kfs k) i bs ! j"
proof -
  let ?f = "file_bytes (kfs k) i bs"
  obtain s' where l: "load_executable name (kfs k) = Some (0, ?f, s')"
    using load_executable_file [OF assms(1,2), of "\<lambda>_. bs"] assms(3,4) by auto
  let ?h = "(pih k)\<lparr>pih_size := f_size (files s' ! i)\<rparr>"
  obtain n h' where h: "set_args args ?h = Some h'" "pih_argc h' = of_nat n" "n \<le> length args"
    "n = length args \<or> n = 16 \<or> 210 < length (packed (take (Suc n) args))"
    "n < 16 \<or> length (packed (take n args)) \<le> 208 \<longrightarrow> (\<forall>j\<le>n. let p = get16 (pih_argv h') (ARGV_SIZE - (n + 1) * 2 + 2 * j) in
          if j < n then cstr (pih_argv h') (unat (p - PIH_ARGV)) = args ! j else p = 0)"
    using argument_table [OF assms(7), of ?h] by blast
  have m: "length (packed (take j args)) \<le> 208" for j using packed_take_mono [of j "max j (length args)" args] assms(6) by simp
  then have n: "n = length args" using h(3,4) assms(5) m [of "Suc n"] by auto
  let ?k = "k\<lparr>kfs := s', umem := store_bytes USER_CODE_AREA ?f (umem k), pih := h'\<rparr>"
  have "execv name (Some args) k = Some (0, ?k)"
    using l load_executable_keeps [OF l] assms(2) h(1) by (simp add: execv_def load_at_def Let_def)
  moreover have "length ?f \<le> 0x10000" using assms(4) by (simp add: file_bytes_def)
  ultimately show thesis
    using h(2,5) m [of n] unfolding n by (intro that [of ?k]) (auto simp: store_bytes_nth args_passed_def)
qed

text \<open>
  C20: From the command line to the program. A line \<^verbatim>\<open>./NAME arg ...\<close> of less than 128 characters, for an
  intact file of less than 32768 bytes, ends the shell's loop in the program: the file's bytes are
  at the user code area, \<^verbatim>\<open>argc\<close> is the number of words (at most 16), and the pointers of the
  argument table lead to exactly these words, with a null pointer behind them.
\<close>

theorem shell_runs_program:
  assumes "stdin_ok (sk h)" and "stdout_ok (sk h)" and "styped h = keys line @ rest" and "plain line" and "length line < 128"
    and "take 2 line = bytes_of ''./''" and "argv = take 16 (words [] line)" and "name = drop 2 (hd argv)"
    and "kfs_ok (kfs (sk h))" and "find_file name (kfs (sk h)) = Some (Some i)" and "file_with (kfs (sk h)) i bs"
    and "unat (f_size (files (kfs (sk h)) ! i)) < 0x8000"
  shows "\<exists>h'. shell_loop stack stk h = Some (Program, h') \<and> styped h' = rest \<and>
    (\<forall>j<length (file_bytes (kfs (sk h)) i bs). umem (sk h') (USER_CODE_AREA + of_nat j) = file_bytes (kfs (sk h)) i bs ! j) \<and>
    args_passed (pih (sk h')) argv"
proof -
  obtain l2 where line: "line = 0x2E # 0x2F # l2"
    using assms(6) by (cases line; cases "tl line") auto
  have ar: "shell_argv line = argv" using shell_argv_words [of line] assms(7) by (simp add: line)
  have cmd: "hd argv = 0x2E # 0x2F # takeWhile (\<lambda>c. c \<noteq> 0x20) l2"
    using words_span [of line] assms(7) by (simp add: line)
  have ok: "length argv \<le> 16" "length (packed argv) \<le> 208" "\<forall>a\<in>set argv. length a < 0x7F00 \<and> 0 \<notin> set a"
  proof -
    show "length argv \<le> 16" by (simp add: assms(7))
    have "length (packed argv) \<le> length (packed (words [] line))"
      using packed_take_mono [of 16 "max 16 (length (words [] line))" "words [] line"] by (simp add: assms(7))
    then show "length (packed argv) \<le> 208" using packed_words [of "[]" line] assms(5) by simp
    have "length a < 0x7F00 \<and> 0 \<notin> set a" if "a \<in> set argv" for a
      using words_plain [of a "[]" line] that assms(4,5,7) by (auto simp: plain_def dest!: in_set_takeD)
    then show "\<forall>a\<in>set argv. length a < 0x7F00 \<and> 0 \<notin> set a" by blast
  qed
  obtain t command where r: "putstr (bytes_of ''$ '') h = Some (h\<lparr>sk := out (bytes_of ''$ '') (sk h)\<rparr>)"
    "sys_read 0 (replicate 128 0) 128 (styped h) (out (bytes_of ''$ '') (sk h)) = Some (of_nat (length line), command, rest, (sk h)\<lparr>ktty := t\<rparr>)"
    "cstring command = Some line"
    by (rule shell_reads [OF assms(1-5)])
  let ?k = "(sk h)\<lparr>ktty := t\<rparr>"
  have k: "kfs_ok (kfs ?k)" "find_file name (kfs ?k) = Some (Some i)" "file_with (kfs ?k) i bs" "unat (f_size (files (kfs ?k) ! i)) < 0x8000"
    using assms(9-12) by simp_all
  obtain k' where k': "execv name (Some argv) ?k = Some (0, k')" "args_passed (pih k') argv"
    "\<And>j. j < length (file_bytes (kfs ?k) i bs) \<Longrightarrow> umem k' (USER_CODE_AREA + of_nat j) = file_bytes (kfs ?k) i bs ! j"
    by (rule execv_runs [OF k ok], rule that)
  have nb: "get_builtin_cmd (hd argv) = None" by (simp add: cmd get_builtin_cmd_def builtin_cmds_def)
  have "shell_step stack stk h = Some (Program, h\<lparr>sk := k', styped := rest\<rparr>)"
    using r ar nb k'(1) assms(8) by (simp add: shell_step_def Let_def line cmd sys_execv_def)
  then have "shell_loop stack stk h = Some (Program, h\<lparr>sk := k', styped := rest\<rparr>)" by (subst shell_loop.simps) simp
  then show ?thesis using k'(2,3) by (intro exI [of _ "h\<lparr>sk := k', styped := rest\<rparr>"]) simp
qed


section \<open>Printing a file\<close>

lemma fd_alloc_range: "fd_alloc s \<noteq> -1 \<Longrightarrow> 3 \<le> fd_alloc s \<and> fd_alloc s < int FD_MAX"
  using fd_scan_range [of "fd_table s" 3 "FD_MAX - 3"] by (auto simp: fd_alloc_def FD_MAX_def)

lemma mfs_open_existing:
  assumes "fs_ok s" and "0 < data_start_sector (root s)" and "find_file fname s = Some (Some i)" and "file_with s i bs" and "fd_alloc s \<noteq> -1"
  obtains s' where "mfs_open stack fname O_RDONLY s = Some (fd_alloc s, s')" and "fd_rinv (fd_alloc s) s'" and "fd_pos (fd_alloc s) s' = 0"
    and "fd_bytes (fd_alloc s) s' = file_bytes s i bs" and "\<And>x. x \<noteq> nat (fd_alloc s) \<Longrightarrow> fd_table s' x = fd_table s x"
    and "find_file fname s' = Some (Some i)" and "files s' = files s"
proof -
  let ?fd = "fd_alloc s" and ?e = "open_entry stack i O_RDONLY s"
  let ?s = "s\<lparr>fd_table := (fd_table s)(nat ?fd := ?e), fd_count := fd_count s + 1\<rparr>"
  have r: "3 \<le> ?fd" "?fd < int FD_MAX" using fd_alloc_range [OF assms(5)] by simp_all
  have o: "mfs_open stack fname O_RDONLY s = Some (?fd, ?s)"
    using assms(3,5) by (simp add: mfs_open_def fd_create_def Let_def)
  then have ok: "fs_ok ?s" using mfs_open_ok [OF assms(1), of stack fname O_RDONLY] by simp
  have e: "e_type ?e = FD_TYPE_FILE" "e_flags ?e AND FD_FLAGS_READ \<noteq> 0" "e_file ?e = Some i" "e_pos ?e = 0"
      "e_cur_block ?e = f_block (files s ! i)" "e_block_offset ?e = 0"
    by (simp_all add: open_entry_def Let_def FD_FLAGS_READ_def O_RDONLY_def)
  have f: "fd_file ?fd ?s = i" "blocks_of ?s i = bs" "file_with ?s i bs"
    using blocks_of_eq [OF assms(4)] assms(4) e(3) by (simp_all add: fd_file_def blocks_of_def file_with_def marked_def)
  have "cursor_at (sector (kdisk s)) (total_sectors (root s)) bs ?e"
    using assms(4) e by (simp add: cursor_at_def file_with_def)
  then have "open_at ?s i bs ?e" using assms(1,2) f(3) e ok by (simp add: open_at_def fs_ok_def)
  then have "fd_rinv ?fd ?s" using r e f ok by (simp add: fd_rinv_def fd_get_def)
  moreover have "fd_bytes ?fd ?s = file_bytes s i bs" using f by (simp add: fd_bytes_def file_bytes_def)
  ultimately show thesis using o e assms(3) by (intro that [of ?s]) (simp_all add: fd_pos_def find_file_def)
qed

lemma fd_read_fds: "fd_rinv fd s \<Longrightarrow> fd_read fd n s = Some (cs, s') \<Longrightarrow> x \<noteq> nat fd \<Longrightarrow> fd_table s' x = fd_table s x"
  by (auto simp: fd_read_def mfs_read_def fd_rinv_def Let_def split: if_splits Option.bind_splits)

text \<open>A read of \<open>n\<close> bytes that are there, and their output.\<close>

lemma read_print:
  assumes "fd_rinv fd (kfs k)" and "stdout_ok k" and "nat fd \<noteq> 1" and "fd_pos fd (kfs k) + unat n \<le> length (fd_bytes fd (kfs k))"
    and "unat n \<le> length buffer"
  obtains buffer1 s where "sys_read fd buffer n inp k = Some (n, buffer1, inp, k\<lparr>kfs := s\<rparr>)" and "length buffer1 = length buffer"
    and "sys_write 1 buffer1 n (k\<lparr>kfs := s\<rparr>) = Some (0, out (take (unat n) (drop (fd_pos fd (kfs k)) (fd_bytes fd (kfs k)))) (k\<lparr>kfs := s\<rparr>))"
    and "fd_rinv fd s" and "fd_bytes fd s = fd_bytes fd (kfs k)" and "fd_pos fd s = fd_pos fd (kfs k) + unat n" and "stdout_ok (k\<lparr>kfs := s\<rparr>)"
proof -
  let ?cs = "take (unat n) (drop (fd_pos fd (kfs k)) (fd_bytes fd (kfs k)))"
  obtain s where s: "fd_read fd n (kfs k) = Some (?cs, s)" "fd_rinv fd s" "fd_bytes fd s = fd_bytes fd (kfs k)"
    "fd_pos fd s = min (fd_pos fd (kfs k) + unat n) (length (fd_bytes fd (kfs k)))"
    using ro.read_law [OF assms(1), of n] by blast
  have l: "length ?cs = unat n" using assms(4) by simp
  have so: "stdout_ok (k\<lparr>kfs := s\<rparr>)" using fd_read_fds [OF assms(1) s(1), of 1] assms(2,3) by (simp add: stdout_ok_def)
  have r: "sys_read fd buffer n inp k = Some (n, patch 0 ?cs buffer, inp, k\<lparr>kfs := s\<rparr>)"
    using sys_read_file [OF assms(1) s(1), of buffer inp] assms(5) unfolding l by simp
  have p: "length (patch 0 ?cs buffer) = length buffer" "take (unat n) (patch 0 ?cs buffer) = ?cs"
    using assms(5) take_drop_patch [of ?cs 0 buffer] unfolding l by (simp_all add: length_patch)
  then have "sys_write 1 (patch 0 ?cs buffer) n (k\<lparr>kfs := s\<rparr>) = Some (0, out ?cs (k\<lparr>kfs := s\<rparr>))"
    using sys_write_stdout [OF so, of n "patch 0 ?cs buffer"] assms(5) by simp
  with r p(1) show thesis using s(2-4) so assms(4) by (intro that) simp_all
qed

lemma cat_loop_prints:
  assumes "fd_rinv fd (kfs (sk h))" and "stdout_ok (sk h)" and "nat fd \<noteq> 1" and "length buffer = 255"
    and "fd_pos fd (kfs (sk h)) + unat remaining = length (fd_bytes fd (kfs (sk h)))"
  shows "\<exists>s. cat_loop fd buffer remaining h =
    Some (h\<lparr>sk := out (drop (fd_pos fd (kfs (sk h))) (fd_bytes fd (kfs (sk h)))) ((sk h)\<lparr>kfs := s\<rparr>)\<rparr>)"
  using assms
proof (induction fd buffer remaining h rule: cat_loop.induct)
  case (1 fd buffer remaining h)
  let ?b = "fd_bytes fd (kfs (sk h))" and ?p = "fd_pos fd (kfs (sk h))"
  show ?case
  proof (cases "0 < remaining")
    case True
    define n where "n = (if remaining < 255 then remaining else 255)"
    have n: "n \<le> remaining" "unat n \<le> 255" "0 < unat n"
      using True by (auto simp: n_def word_less_nat_alt word_le_nat_alt unat_gt_0)
    then have r: "unat (remaining - n) = unat remaining - unat n" "unat n \<le> unat remaining"
      by (simp_all add: unat_sub word_le_nat_alt)
    have le: "?p + unat n \<le> length ?b" using "1.prems"(5) r(2) by simp
    have lb: "unat n \<le> length buffer" using "1.prems"(4) n(2) by simp
    obtain buffer1 s where s: "sys_read fd buffer n (styped h) (sk h) = Some (n, buffer1, styped h, (sk h)\<lparr>kfs := s\<rparr>)" "length buffer1 = length buffer"
      "sys_write 1 buffer1 n ((sk h)\<lparr>kfs := s\<rparr>) = Some (0, out (take (unat n) (drop ?p ?b)) ((sk h)\<lparr>kfs := s\<rparr>))"
      "fd_rinv fd s" "fd_bytes fd s = ?b" "fd_pos fd s = ?p + unat n" "stdout_ok ((sk h)\<lparr>kfs := s\<rparr>)"
      by (rule read_print [OF "1.prems"(1-3) le lb, where inp = "styped h"], rule that)
    let ?h = "h\<lparr>sk := out (take (unat n) (drop ?p ?b)) ((sk h)\<lparr>kfs := s\<rparr>), styped := styped h\<rparr>"
    have step: "cat_loop fd buffer remaining h = cat_loop fd buffer1 (remaining - n) ?h"
      using True s(1,3) by (subst cat_loop.simps) (simp add: n_def [symmetric] Let_def)
    have "\<exists>s'. cat_loop fd buffer1 (remaining - n) ?h =
        Some (?h\<lparr>sk := out (drop (fd_pos fd (kfs (sk ?h))) (fd_bytes fd (kfs (sk ?h)))) ((sk ?h)\<lparr>kfs := s'\<rparr>)\<rparr>)"
      by (rule "1.IH" [OF True n_def s(1) refl refl refl s(3) refl]) (use s "1.prems" r in simp_all)
    moreover have "drop ?p ?b = take (unat n) (drop ?p ?b) @ drop (?p + unat n) ?b"
      by (metis append_take_drop_id drop_drop add.commute)
    ultimately show ?thesis using step s(5,6) by (auto simp: out_def)
  next
    case False
    then have "remaining = 0" by (simp add: word_gt_0)
    then have "cat_loop fd buffer remaining h = Some h" "drop ?p ?b = []"
      using "1.prems"(5) by (simp_all add: cat_loop.simps [of fd buffer])
    then show ?thesis by (intro exI [of _ "kfs (sk h)"]) (simp add: out_def)
  qed
qed

text \<open>A file that fits into the buffer: one read, its output and a newline.\<close>

lemma cat_short:
  assumes "fd_rinv fd (kfs (sk h))" and "stdout_ok (sk h)" and "nat fd \<noteq> 1" and "fd_pos fd (kfs (sk h)) = 0"
    and "unat n = length (fd_bytes fd (kfs (sk h)))" and "unat n \<le> length buffer"
  obtains b1 s1 where "sys_read fd buffer n (styped h) (sk h) = Some (n, b1, styped h, (sk h)\<lparr>kfs := s1\<rparr>)"
    and "sys_write 1 b1 n ((sk h)\<lparr>kfs := s1\<rparr>) = Some (0, out (fd_bytes fd (kfs (sk h))) ((sk h)\<lparr>kfs := s1\<rparr>))"
    and "newline (h\<lparr>sk := out (fd_bytes fd (kfs (sk h))) ((sk h)\<lparr>kfs := s1\<rparr>), styped := styped h\<rparr>) =
      Some (h\<lparr>sk := out [0x0A] (out (fd_bytes fd (kfs (sk h))) ((sk h)\<lparr>kfs := s1\<rparr>)), styped := styped h\<rparr>)"
proof -
  let ?f = "fd_bytes fd (kfs (sk h))"
  have le: "fd_pos fd (kfs (sk h)) + unat n \<le> length ?f" using assms(4,5) by simp
  obtain b1 s1 where r: "sys_read fd buffer n (styped h) (sk h) = Some (n, b1, styped h, (sk h)\<lparr>kfs := s1\<rparr>)"
    "sys_write 1 b1 n ((sk h)\<lparr>kfs := s1\<rparr>) = Some (0, out (take (unat n) (drop (fd_pos fd (kfs (sk h))) ?f)) ((sk h)\<lparr>kfs := s1\<rparr>))"
    "stdout_ok ((sk h)\<lparr>kfs := s1\<rparr>)"
    by (rule read_print [OF assms(1-3) le assms(6), where inp = "styped h"], rule that)
  have "take (unat n) (drop (fd_pos fd (kfs (sk h))) ?f) = ?f" using assms(4,5) by simp
  then show thesis
    using r put_bytes_out [of "h\<lparr>sk := out ?f ((sk h)\<lparr>kfs := s1\<rparr>), styped := styped h\<rparr>" "[0x0A]"]
    by (intro that [of b1 s1]) (simp_all add: newline_def putchr_def)
qed

text \<open>
  C21: The command \<^verbatim>\<open>cat\<close>. For an intact file of less than 32768 bytes and a free descriptor the bytes
  written to the terminal are exactly the bytes of the file, in chunks of 255 bytes, with a newline
  behind a file of less than 255 bytes.
\<close>

theorem cat_prints_file:
  assumes "fs_ok (kfs (sk h))" and "0 < data_start_sector (root (kfs (sk h)))" and "stdout_ok (sk h)"
    and "find_file fname (kfs (sk h)) = Some (Some i)" and "file_with (kfs (sk h)) i bs" and "unat (f_size (files (kfs (sk h)) ! i)) < 0x8000"
    and "fd_alloc (kfs (sk h)) \<noteq> -1" and "length stk = 255"
  shows "\<exists>h'. bcat stack stk [cmd, fname] h = Some h' \<and> tty_data (ktty (sk h')) = tty_data (ktty (sk h)) @
    file_bytes (kfs (sk h)) i bs @ (if length (file_bytes (kfs (sk h)) i bs) < 255 then [0x0A] else [])"
proof -
  let ?s = "kfs (sk h)" and ?fd = "fd_alloc (kfs (sk h))" and ?f = "file_bytes (kfs (sk h)) i bs"
  let ?sz = "f_size (files (kfs (sk h)) ! i)"
  obtain s where s: "mfs_open stack fname O_RDONLY ?s = Some (?fd, s)" "fd_rinv ?fd s" "fd_pos ?fd s = 0" "fd_bytes ?fd s = ?f"
    "\<And>x. x \<noteq> nat ?fd \<Longrightarrow> fd_table s x = fd_table ?s x" "find_file fname s = Some (Some i)" "files s = files ?s"
    by (rule mfs_open_existing [OF assms(1,2,4,5,7)], rule that)
  have fd: "nat ?fd \<noteq> 1" using fd_alloc_range [OF assms(7)] by auto
  let ?k = "(sk h)\<lparr>kfs := s\<rparr>" and ?h = "h\<lparr>sk := (sk h)\<lparr>kfs := s\<rparr>\<rparr>"
  have so: "stdout_ok ?k" using assms(3) s(5) [of 1] fd by (simp add: stdout_ok_def)
  have lf: "length ?f = unat ?sz" using length_file_bytes assms(1,5) by (simp add: fs_ok_def)
  have fsz: "mfs_filesize fname s = Some ?sz" using s(6,7) by (simp add: mfs_filesize_def)
  have ne: "?sz \<noteq> -1"
  proof
    assume "?sz = -1"
    then have "unat ?sz = 0xFFFF" by (simp add: unsigned_minus_1_eq_mask mask_eq_exp_minus_1)
    then show False using assms(6) by simp
  qed
  have o: "sys_open stack fname O_RDONLY (sk h) = Some (?fd, ?k)" using s(1) by (simp add: sys_open_def)
  have small: "sint ?sz < 255 \<longleftrightarrow> length ?f < 255" unfolding sint_small [OF assms(6)] lf by linarith
  have fin: "tty_data (ktty (snd (sys_close fd k))) = tty_data (ktty k)" for fd k by (simp add: sys_close_def split_beta)
  show ?thesis
  proof (cases "length ?f < 255")
    case True
    have "fd_rinv ?fd (kfs (sk ?h))" "stdout_ok (sk ?h)" "fd_pos ?fd (kfs (sk ?h)) = 0" "unat ?sz = length (fd_bytes ?fd (kfs (sk ?h)))"
      "unat ?sz \<le> length stk" using s so lf True assms(8) by simp_all
    from cat_short [OF this(1,2) fd this(3-5)] obtain b1 s1 where r:
      "sys_read ?fd stk ?sz (styped h) ?k = Some (?sz, b1, styped h, ?k\<lparr>kfs := s1\<rparr>)"
      "sys_write 1 b1 ?sz (?k\<lparr>kfs := s1\<rparr>) = Some (0, out ?f (?k\<lparr>kfs := s1\<rparr>))"
      "newline (?h\<lparr>sk := out ?f (?k\<lparr>kfs := s1\<rparr>), styped := styped h\<rparr>) =
        Some (?h\<lparr>sk := out [0x0A] (out ?f (?k\<lparr>kfs := s1\<rparr>)), styped := styped h\<rparr>)"
      using s(4) by auto
    then have "bcat stack stk [cmd, fname] h =
        Some (?h\<lparr>sk := snd (sys_close ?fd (out [0x0A] (out ?f (?k\<lparr>kfs := s1\<rparr>)))), styped := styped h\<rparr>)"
      using o fsz ne small True assms(7) by (simp add: bcat_def Let_def)
    then show ?thesis using True fin by simp
  next
    case False
    have "fd_rinv ?fd (kfs (sk ?h))" "stdout_ok (sk ?h)" "fd_pos ?fd (kfs (sk ?h)) + unat ?sz = length (fd_bytes ?fd (kfs (sk ?h)))"
      using s so lf by simp_all
    from cat_loop_prints [OF this(1,2) fd assms(8) this(3)] obtain s1 where
      "cat_loop ?fd stk ?sz ?h = Some (?h\<lparr>sk := out ?f (?k\<lparr>kfs := s1\<rparr>)\<rparr>)" using s(3,4) by auto
    then have "bcat stack stk [cmd, fname] h = Some (?h\<lparr>sk := snd (sys_close ?fd (out ?f (?k\<lparr>kfs := s1\<rparr>)))\<rparr>)"
      using o fsz ne small False assms(7) by (simp add: bcat_def Let_def)
    then show ?thesis using False fin by simp
  qed
qed


section \<open>Examples\<close>

text \<open>A volume with a file \<open>A\<close> of the bytes 7, 8, 9, and the standard descriptors.\<close>

definition demo_shell :: "u8 list \<Rightarrow> shell" where
  "demo_shell inp = \<lparr>sk = shell_kernel\<lparr>kfs := (demo_open 3 0 3)\<lparr>fd_table := (fd_table (demo_open 3 0 3))
     (0 := demo_stdin, 1 := zero_entry\<lparr>e_type := FD_TYPE_STDOUT\<rparr>)\<rparr>\<rparr>, styped = inp, uutsname = []\<rparr>"

lemma demo_shell_ok:
  fixes inp defines "s \<equiv> kfs (sk (demo_shell inp))"
  shows "stdin_ok (sk (demo_shell inp))" "stdout_ok (sk (demo_shell inp))" "fs_ok s" "0 < data_start_sector (root s)"
    "find_file [0x41] s = Some (Some 0)" "file_with s 0 [3]" "file_bytes s 0 [3] = [7, 8, 9]" "f_size (files s ! 0) = 3" "fd_alloc s = 4"
proof -
  show "stdin_ok (sk (demo_shell inp))" "stdout_ok (sk (demo_shell inp))"
    by (simp_all add: demo_shell_def stdin_ok_def stdout_ok_def demo_stdin_def)
  have t: "FD_TYPE_FILE \<noteq> FD_TYPE_STDIN" "FD_TYPE_FILE \<noteq> FD_TYPE_STDOUT" by (rule fd_types)+
  have "fs_ok (demo_open 3 0 3)" using demo_small(1) by (rule fd_invD)
  then show "fs_ok s" using t by (simp add: s_def demo_shell_def fs_ok_def kfs_ok_def entry_ok_def demo_stdin_def)
  have sz: "unat (3 :: u16) \<le> BLOCK_DATA" by (simp add: mfs_consts)
  show "0 < data_start_sector (root s)" "f_size (files s ! 0) = 3" by (simp_all add: s_def demo_shell_def demo_open_sel)
  show "find_file [0x41] s = Some (Some 0)"
    by (simp add: s_def demo_shell_def find_file_def demo_open_def same_name_def MAX_FNAME_LEN_def numeral_eq_Suc demo_root_def)
  show f: "file_with s 0 [3]" using demo_open_file(1) [OF sz, of 0 3] by (simp add: s_def demo_shell_def file_with_def marked_def)
  show "file_bytes s 0 [3] = [7, 8, 9]"
    using demo_small(3) demo_open_file(2) [OF sz, of 0 3] by (simp add: s_def demo_shell_def fd_bytes_def file_bytes_def demo_open_sel)
  have e: "fd_table s 3 = fd_table (demo_open 3 0 3) 3" "fd_table s 4 = zero_entry" by (simp_all add: s_def demo_shell_def demo_open_def)
  have n: "FD_MAX - 3 = Suc (Suc (FD_MAX - 5))" by (simp add: FD_MAX_def)
  have "e_type zero_entry = FD_TYPE_NONE" "FD_TYPE_FILE \<noteq> FD_TYPE_NONE" by (simp_all add: zero_entry_def FD_TYPE_NONE_def FD_TYPE_FILE_def)
  then show "fd_alloc s = 4" unfolding fd_alloc_def n by (simp add: e demo_open_sel(6))
qed

theorem shell_leading_space_witness: "\<exists>h'. shell_loop 0 [] (demo_shell (keys [0x20, 0x6C, 0x73])) = Some (Null_call, h')"
proof -
  have "styped (demo_shell (keys [0x20, 0x6C, 0x73])) = keys (0x20 # [0x6C, 0x73]) @ []" by (simp add: demo_shell_def)
  from shell_leading_space [OF demo_shell_ok(1,2) this] show ?thesis by (simp add: plain_def)
qed

theorem shell_runs_program_witness:
  "\<exists>h'. shell_loop 0 [] (demo_shell (keys [0x2E, 0x2F, 0x41, 0x20, 0x62])) = Some (Program, h') \<and>
     args_passed (pih (sk h')) [[0x2E, 0x2F, 0x41], [0x62]]"
proof -
  let ?l = "[0x2E, 0x2F, 0x41, 0x20, 0x62] :: u8 list"
  have "styped (demo_shell (keys ?l)) = keys ?l @ []" by (simp add: demo_shell_def)
  moreover have "[[0x2E, 0x2F, 0x41], [0x62]] = take 16 (words [] ?l)" by simp
  moreover have "kfs_ok (kfs (sk (demo_shell (keys ?l))))" using demo_shell_ok(3) by (simp add: fs_ok_def)
  ultimately show ?thesis
    using shell_runs_program [OF demo_shell_ok(1,2), of "keys ?l" ?l "[]" "[[0x2E, 0x2F, 0x41], [0x62]]" "[0x41]" 0 "[3]" 0 "[]"]
      demo_shell_ok(5,6,8) [of "keys ?l"] by (auto simp: plain_def)
qed

theorem cat_prints_file_witness:
  "\<exists>h'. bcat 0 (replicate 255 0) [[], [0x41]] (demo_shell []) = Some h' \<and>
     tty_data (ktty (sk h')) = tty_data (ktty (sk (demo_shell []))) @ [7, 8, 9, 0x0A]"
proof -
  have "unat (f_size (files (kfs (sk (demo_shell []))) ! 0)) < 0x8000" "fd_alloc (kfs (sk (demo_shell []))) \<noteq> -1"
    using demo_shell_ok(8,9) [of "[]"] by simp_all
  from cat_prints_file [OF demo_shell_ok(3,4,2,5,6) this, of "replicate 255 0" 0 "[]"] show ?thesis
    using demo_shell_ok(7) [of "[]"] by simp
qed

end
