(* ===== verification/Spec2Isabelle.thy ===== *)
theory Spec2Isabelle
  imports Driver Kernel_Spec M80asm_Spec Ecalc_Spec Mfs_Util_Spec Edit_Spec Shell_Spec
begin

text \<open>
  A verification of Manux, a small operating system for the Z80, together with the emulator it runs
  on, its host tool and its programs.

  \<^bold>\<open>The system and its parts.\<close> The emulator \<^verbatim>\<open>bemu80\<close> runs the kernel, which sits in the ROM. The
  kernel reaches the disk image through the floppy controller of the emulator (\<^verbatim>\<open>driver/disk.asm\<close>)
  and the terminal through its serial port (\<^verbatim>\<open>driver/tty.c\<close>, \<^verbatim>\<open>kernel/kstdio.c\<close>). On the disk it
  keeps the file system MFS (\<^verbatim>\<open>fs/mfs.c\<close>) with a table of file descriptors (\<^verbatim>\<open>fs/fd.c\<close>). It starts
  the shell, loads programs and serves their system calls (\<^verbatim>\<open>kernel/kernel.c\<close>). Programs use the
  wrappers of \<^verbatim>\<open>sys/unistd\<close>: the shell, the editor, the assembler and the calculator of
  \<^verbatim>\<open>userland\<close>. Disk images are made on the host with \<^verbatim>\<open>mfs-util.c\<close>, which has its own code for MFS.

  \<^bold>\<open>Conventions.\<close> A C integer is a word of its width on the target (\<^verbatim>\<open>int\<close> has 16 bits on the Z80),
  a struct or a group of globals is a record, a C function is one definition with the name it has
  in the source, and a loop is a recursive function named after it. The emulator is written in the
  state monad; everything else passes its state explicitly. A result of type \<open>option\<close> is \<open>None\<close>
  where C has no defined behaviour (an access outside a buffer, a null pointer, an uninitialised
  variable, a division by zero) and where a program waits for a character that never comes. A loop
  that a user can keep running (the loops of the shell, the editor and the calculator) is a
  \<open>partial_function (option)\<close>, and that it returns is proved for whole sessions. Every other loop
  has a termination proof and no fuel: following a chain of blocks ends at the size of the file or
  of the volume, the deletion of a cyclic chain ends because each visited block is erased, and the
  parser of the calculator ends because every level consumes input (\<open>shrinks\<close>).

  \<^bold>\<open>Shared theories.\<close> \<open>Manux_Prelude\<close> has the word and list facts, the overwriting of a part of a byte
  list (\<open>patch\<close>), and the calculus of invariants and frames for the state monad with its
  collections of rules. \<open>Clib\<close> has the string functions of the C library.

  \<^bold>\<open>The emulator\<close> (\<^verbatim>\<open>bemu80/bemu80.c\<close>, \<^verbatim>\<open>bemu80.h\<close>).
  \<^item> \<open>Bemu_State\<close>: the structs, registers, memory and flags. \<open>Bemu_Alu\<close>: the arithmetic and logic
    routines, each with its result and every flag as integer arithmetic has them.
  \<^item> \<open>Bemu_Devices\<close>: floppy controller, serial port, input thread, port decoders. \<open>Bemu_Exec\<close>: the
    instruction decoder with all prefixes.
  \<^item> \<open>Bemu_Frame\<close>: the locales \<open>machine_invariant\<close> and \<open>machine_frame\<close>, in which a predicate or a
    change of state that the primitives respect is shown to be respected by every instruction.
    They are interpreted for the contents of the ROM, the byte behind the memory and the cells
    behind the register files.
  \<^item> \<open>Bemu_Machine\<close>: what the debugger prints, the two threads as a step relation, and the locales \<open>emulator_invariant\<close> and
    \<open>emulator_frame\<close>, which extend the former two to runs. \<open>Bemu_Main\<close>: options and power-on, and the
    safety of every run. \<open>Bemu_Instr\<close>: block copy, call and return, interrupts, the serial input.
  \<^item> \<open>Bemu_Fdc\<close>: the effect of the controller's commands on image and memory.

  \<^bold>\<open>The drivers.\<close> \<open>Driver\<close>: the machine code of \<^verbatim>\<open>driver/disk.asm\<close>, run by the decoder of the emulator.
  It computes \<open>disk_read\<close> and \<open>disk_write\<close>, on which the file system is modelled, so that the two
  halves of the development meet there. \<open>Tty\<close>: the ring buffer implements the locale
  \<open>bounded_queue\<close>; the step by step reader shows the race with the interrupt. \<open>Kstdio\<close>: output,
  numbers and the line reader.

  \<^bold>\<open>The file system.\<close>
  \<^item> \<open>Mfs_Types\<close>: the layout on disk, sectors (locale \<open>sector_store\<close>, interpretation \<open>image\<close>) and the
    bitmap (locale \<open>block_map\<close>, interpretation \<open>bitmap\<close>).
  \<^item> \<open>Mfs\<close>: every operation of \<^verbatim>\<open>fs/mfs.c\<close> and \<^verbatim>\<open>fs/fd.c\<close>.
  \<^item> \<open>Mfs_Inv\<close>: the invariant, kept by every call, whatever the data blocks hold.
  \<^item> \<open>Mfs_File\<close>, \<open>Mfs_Access\<close>: the chains of blocks are byte lists. The locale \<open>readable\<close> is the
    contract of an open file, \<open>random_access\<close> extends it with writing and seeking; both are
    interpreted on the calls with a descriptor.
  \<^item> \<open>Mfs_Spec\<close>: allocation, lookup, remounting, deletion, loading.

  \<^bold>\<open>The kernel and the host tool.\<close> \<open>Kernel\<close>, \<open>Kernel_Spec\<close>: start-up, \<^verbatim>\<open>execv\<close> with its argument
  table, the handlers of the system calls. \<open>Mfs_Util\<close>, \<open>Mfs_Util_Spec\<close>: the host tool, and that the
  kernel mounts and loads what the tool has written.

  \<^bold>\<open>The programs.\<close>
  \<^item> \<open>Sys\<close>, \<open>Sys_Spec\<close>: the wrappers of \<^verbatim>\<open>sys/unistd\<close>, on files and on the terminal.
  \<^item> \<open>Shell\<close>, \<open>Shell_Spec\<close>: from a typed line to the started program with its arguments; \<^verbatim>\<open>cat\<close>.
  \<^item> \<open>Edit\<close>, \<open>Edit_Spec\<close>: the editor as a client of the locale \<open>random_access\<close>: the loops that write
    and read the lines, the bounds of its buffers, and a whole session without a file. With the
    value of \<^verbatim>\<open>SEEK_SET\<close> in \<^verbatim>\<open>sys/fcntl.h\<close>, which the programs are compiled with, the kernel's
    seek has no defined result; so the loops are stated from a given position, and loading and
    saving as a whole have no result.
  \<^item> \<open>M80asm\<close>, \<open>M80asm_Spec\<close>: the assembler; the two passes agree on the address of every label when
    they read the same text. What the reads of a pass deliver is an argument; that both passes
    read the text from its beginning (\<open>rewinds\<close>) is the documented effect of \<^verbatim>\<open>lseek\<close>, a hypothesis.
  \<^item> \<open>Ecalc\<close>, \<open>Ecalc_Spec\<close>: the calculator on the terminal of the kernel; its parser evaluates
    expressions as their trees say and never passes the terminator of the line.

  \<^bold>\<open>Errors found.\<close> Where the code does not do what it means to, the model follows the code, and a
  theorem often states the consequence: a lost interrupt, a lost character count, a write that
  cuts a file off, a seek without a defined result, a call through a null pointer.

  \<^bold>\<open>Not modelled.\<close> The assembly of the kernel's entry, panic and system call dispatch
  (\<^verbatim>\<open>kmain.asm\<close>, \<^verbatim>\<open>system_call.asm\<close>) and the wrapper \<^verbatim>\<open>sys/syscall.c\<close>, which move registers; so a
  system call is the call of its handler. The debug output of the file system (\<^verbatim>\<open>dump_fs\<close>), console
  messages of the kernel and the tools, the files of the assembler, the frame timing and terminal settings of the emulator, and errors of the host's file
  functions are input and output. In \<^verbatim>\<open>mfs-util.c\<close> the bitmap, the allocation and the writing of the
  metadata are the same code as the kernel's and use its definitions. The start-up code and the
  library of the target are those of the C compiler.
\<close>

end
